(* ===== verification/Prelude.thy ===== *)
theory Prelude
  imports Main "HOL-Library.Char_ord" "HOL-Library.List_Lexorder"
begin

text \<open>
  Shared material of the brazier development: the exceptions the code throws, the operations of
  the C++ standard library on strings and streams that several components use, and the two map
  containers (\<^verbatim>\<open>std::map\<close> as a key-sorted association list, \<^verbatim>\<open>std::unordered_map\<close> as an
  association list with distinct keys whose order stands for the unspecified iteration order).
  The locale \<open>kv_store\<close> is the contract both containers offer to their clients.
\<close>

named_theorems str_simps \<comment> \<open>rewrite rules for the string operations\<close>
named_theorems kv_simps \<comment> \<open>rewrite rules for the two map containers\<close>

subsection \<open>Exceptions as values\<close>

datatype exn =
    runtime_error string
  | invalid_argument string
  | out_of_range string
  | system_error string
  | bad_function_call
  | json_error string
  | plain_exception \<comment> \<open>a sliced copy, \<^verbatim>\<open>throw e\<close> of a \<^verbatim>\<open>const std::exception&\<close>\<close>

type_synonym 'a result = "exn + 'a"

fun bind_result :: "'a result \<Rightarrow> ('a \<Rightarrow> 'b result) \<Rightarrow> 'b result" where
  "bind_result (Inl e) f = Inl e"
| "bind_result (Inr x) f = f x"

lemma bind_result_Inr [simp]:
  "bind_result m f = Inr y \<longleftrightarrow> (\<exists>x. m = Inr x \<and> f x = Inr y)"
  by (cases m) auto

lemma bind_result_assoc: "bind_result (bind_result m f) g = bind_result m (\<lambda>x. bind_result (f x) g)"
  by (cases m) auto

subsection \<open>Strings\<close>

fun find_char :: "char \<Rightarrow> string \<Rightarrow> nat option" where
  "find_char c [] = None"
| "find_char c (x # xs) = (if x = c then Some 0 else map_option Suc (find_char c xs))"

lemma find_char_None [str_simps]: "find_char c s = None \<longleftrightarrow> c \<notin> set s"
  by (induction s) auto

lemma find_char_Some: "find_char c s = Some i \<Longrightarrow> i < length s \<and> s ! i = c \<and> c \<notin> set (take i s)"
  by (induction s arbitrary: i) (auto split: if_splits)

lemma find_char_append [str_simps]: "c \<notin> set a \<Longrightarrow> find_char c (a @ c # b) = Some (length a)"
  by (induction a) auto

lemma find_char_take: "find_char c s = Some i \<Longrightarrow> take i s = takeWhile (\<lambda>x. x \<noteq> c) s"
  by (induction s arbitrary: i) (auto split: if_splits)

lemma find_char_drop: "find_char c s = Some i \<Longrightarrow> drop (Suc i) s = tl (dropWhile (\<lambda>x. x \<noteq> c) s)"
  by (induction s arbitrary: i) (auto split: if_splits)

text \<open>\<^verbatim>\<open>while (std::getline(stream, token, d))\<close>: the tokens of a stream over a string. A delimiter
  ends a token and is dropped; at the end of the stream an empty rest is no token.\<close>

fun getline_acc :: "char \<Rightarrow> string \<Rightarrow> string \<Rightarrow> string list" where
  "getline_acc d acc [] = (if acc = [] then [] else [rev acc])"
| "getline_acc d acc (c # cs) =
     (if c = d then rev acc # getline_acc d [] cs else getline_acc d (c # acc) cs)"

definition getline_split :: "char \<Rightarrow> string \<Rightarrow> string list" where
  "getline_split d s = getline_acc d [] s"

lemma getline_acc_token: "d \<notin> set t \<Longrightarrow> getline_acc d acc (t @ s) = getline_acc d (rev t @ acc) s"
  by (induction t arbitrary: acc) auto

lemma getline_split_Nil [simp, str_simps]: "getline_split d [] = []"
  by (simp add: getline_split_def)

lemma getline_split_delim [simp, str_simps]: "getline_split d (d # s) = [] # getline_split d s"
  by (simp add: getline_split_def)

lemma getline_split_token [str_simps]:
  "d \<notin> set t \<Longrightarrow> getline_split d (t @ d # s) = t # getline_split d s"
  using getline_acc_token [of d t "[]" "d # s"] by (simp add: getline_split_def)

lemma getline_split_last [str_simps]:
  "d \<notin> set t \<Longrightarrow> t \<noteq> [] \<Longrightarrow> getline_split d t = [t]"
  using getline_acc_token [of d t "[]" "[]"] by (simp add: getline_split_def)

lemma getline_acc_no_delim: "d \<notin> set acc \<Longrightarrow> t \<in> set (getline_acc d acc s) \<Longrightarrow> d \<notin> set t"
  by (induction s arbitrary: acc) (fastforce split: if_splits)+

lemma getline_split_no_delim: "t \<in> set (getline_split d s) \<Longrightarrow> d \<notin> set t"
  using getline_acc_no_delim [of d "[]" t s] by (simp add: getline_split_def)

text \<open>\<^verbatim>\<open>s.erase(0, s.find_first_not_of(cs))\<close> and \<^verbatim>\<open>s.erase(s.find_last_not_of(cs) + 1)\<close>. Where no
  other character occurs both erase the whole string (\<^verbatim>\<open>npos + 1\<close> wraps to 0).\<close>

definition trim_left :: "char list \<Rightarrow> string \<Rightarrow> string" where
  "trim_left cs s = dropWhile (\<lambda>c. c \<in> set cs) s"

definition trim_right :: "char list \<Rightarrow> string \<Rightarrow> string" where
  "trim_right cs s = rev (dropWhile (\<lambda>c. c \<in> set cs) (rev s))"

lemma dropWhile_id_iff: "dropWhile P xs = xs \<longleftrightarrow> xs = [] \<or> \<not> P (hd xs)"
proof (cases xs)
  case (Cons x ys)
  have "dropWhile P ys \<noteq> x # ys"
    using length_dropWhile_le [of P ys] by (metis impossible_Cons)
  with Cons show ?thesis by auto
qed simp

lemma dropWhile_Cons_length: "dropWhile P s = x # s' \<Longrightarrow> length s' < length s"
  using length_dropWhile_le [of P s] by simp

lemma trim_left_id [str_simps]: "trim_left cs s = s \<longleftrightarrow> s = [] \<or> hd s \<notin> set cs"
  by (simp add: trim_left_def dropWhile_id_iff)

lemma trim_right_id [str_simps]: "trim_right cs s = s \<longleftrightarrow> s = [] \<or> last s \<notin> set cs"
proof -
  have "rev (dropWhile (\<lambda>c. c \<in> set cs) (rev s)) = s \<longleftrightarrow> dropWhile (\<lambda>c. c \<in> set cs) (rev s) = rev s"
    by (metis rev_rev_ident)
  then show ?thesis by (simp add: trim_right_def dropWhile_id_iff hd_rev)
qed

text \<open>The loops that write a separator after every element but the last one.\<close>

fun join :: "string \<Rightarrow> string list \<Rightarrow> string" where
  "join sep [] = []"
| "join sep [x] = x"
| "join sep (x # y # zs) = x @ sep @ join sep (y # zs)"

lemma join_Cons: "xs \<noteq> [] \<Longrightarrow> join sep (x # xs) = x @ sep @ join sep xs"
  by (cases xs) auto

lemma join_prefix: "join sep ((a @ b) # xs) = a @ join sep (b # xs)"
  by (cases xs) simp_all

lemma join_snoc: "xs \<noteq> [] \<Longrightarrow> join sep (xs @ [x]) = join sep xs @ sep @ x"
  by (induction xs rule: induct_list012) auto

lemma join_append:
  "xs \<noteq> [] \<Longrightarrow> ys \<noteq> [] \<Longrightarrow> join sep (xs @ ys) = join sep xs @ sep @ join sep ys"
  by (induction xs rule: induct_list012) (auto simp: join_Cons)

lemma set_join: "set (join sep xs) \<subseteq> set sep \<union> \<Union> (set ` set xs)"
  by (induction sep xs rule: join.induct) auto

lemma join_split:
  "\<forall>t \<in> set ts. d \<notin> set t \<Longrightarrow> ts \<noteq> [] \<Longrightarrow> last ts \<noteq> [] \<Longrightarrow> getline_split d (join [d] ts) = ts"
  by (induction ts rule: induct_list012) (auto simp: str_simps)

text \<open>Decimal printing, \<^verbatim>\<open>std::to_string\<close>.\<close>

definition digit_char :: "nat \<Rightarrow> char" where
  "digit_char n = char_of (48 + n)"

fun show_nat :: "nat \<Rightarrow> string" where
  "show_nat n = (if n < 10 then [digit_char n] else show_nat (n div 10) @ [digit_char (n mod 10)])"

declare show_nat.simps [simp del]

definition show_int :: "int \<Rightarrow> string" where
  "show_int i = (if i < 0 then CHR ''-'' # show_nat (nat (- i)) else show_nat (nat i))"

lemma show_nat_not_Nil [simp]: "show_nat n \<noteq> []"
  by (subst show_nat.simps) simp

lemma of_char_digit_char: "n < 10 \<Longrightarrow> of_char (digit_char n) = 48 + n"
  by (simp add: digit_char_def)

lemma length_show_nat: "n < 10 ^ k \<Longrightarrow> 0 < k \<Longrightarrow> length (show_nat n) \<le> k"
proof (induction k arbitrary: n)
  case (Suc k)
  show ?case
  proof (cases "n < 10")
    case True
    then show ?thesis by (subst show_nat.simps) simp
  next
    case False
    with Suc.prems have "n div 10 < 10 ^ k" "0 < k" by (auto simp: div_less_iff_less_mult mult.commute intro: Suc_leI gr0I)
    then have "length (show_nat (n div 10)) \<le> k" by (rule Suc.IH)
    with False show ?thesis by (subst show_nat.simps) simp
  qed
qed simp

text \<open>Reading decimal digits back.\<close>

definition digits_value :: "string \<Rightarrow> nat" where
  "digits_value s = fold (\<lambda>c n. 10 * n + (of_char c - 48)) s 0"

lemma read_show_nat [str_simps]: "digits_value (show_nat n) = n"
proof (induction n rule: show_nat.induct)
  case (1 n)
  show ?case
  proof (cases "n < 10")
    case True
    then show ?thesis by (subst show_nat.simps) (simp add: digits_value_def of_char_digit_char)
  next
    case False
    with 1 have "digits_value (show_nat (n div 10)) = n div 10" by simp
    with False show ?thesis by (subst show_nat.simps) (simp add: digits_value_def of_char_digit_char)
  qed
qed

lemma show_nat_inject: "show_nat m = show_nat n \<longleftrightarrow> m = n"
  by (metis read_show_nat)

subsection \<open>Lookups in association lists\<close>

lemma map_of_rev_distinct: "distinct (map fst kvs) \<Longrightarrow> map_of (rev kvs) k = map_of kvs k"
  using map_of_inject_set [of "rev kvs" kvs] by (simp flip: rev_map)

subsection \<open>\<^verbatim>\<open>std::map\<close>: sorted association lists\<close>

type_synonym ('k, 'v) std_map = "('k \<times> 'v) list"

fun smap_put :: "'k::linorder \<Rightarrow> 'v \<Rightarrow> ('k, 'v) std_map \<Rightarrow> ('k, 'v) std_map" where
  "smap_put k v [] = [(k, v)]"
| "smap_put k v ((k', v') # m) =
     (if k < k' then (k, v) # (k', v') # m
      else if k = k' then (k, v) # m
      else (k', v') # smap_put k v m)"

definition smap_wf :: "('k::linorder, 'v) std_map \<Rightarrow> bool" where
  "smap_wf m \<longleftrightarrow> sorted_wrt (<) (map fst m)"

definition smap_put_all :: "('k::linorder \<times> 'v) list \<Rightarrow> ('k, 'v) std_map \<Rightarrow> ('k, 'v) std_map" where
  "smap_put_all kvs m = fold (\<lambda>(k, v) m. smap_put k v m) kvs m"

lemma smap_get_put [kv_simps]: "map_of (smap_put k v m) k' = (if k' = k then Some v else map_of m k')"
  by (induction m) auto

lemma set_fst_smap_put [kv_simps]: "fst ` set (smap_put k v m) = insert k (fst ` set m)"
  by (induction k v m rule: smap_put.induct) auto

lemma smap_wf_put: "smap_wf m \<Longrightarrow> smap_wf (smap_put k v m)"
proof (induction m)
  case Nil
  then show ?case by (simp add: smap_wf_def)
next
  case (Cons p m)
  obtain k' v' where p: "p = (k', v')" by force
  with Cons have IH: "smap_wf (smap_put k v m)" and lt: "\<forall>x \<in> fst ` set m. k' < x"
    by (auto simp: smap_wf_def)
  then show ?case
    using Cons.prems p set_fst_smap_put [of k v m] by (auto simp: smap_wf_def)
qed

lemma smap_put_not_Nil [simp]: "smap_put k v m \<noteq> []"
  by (induction k v m rule: smap_put.induct) auto

lemma smap_wf_distinct: "smap_wf m \<Longrightarrow> distinct (map fst m)"
  unfolding smap_wf_def using strict_sorted_iff by blast

subsection \<open>\<^verbatim>\<open>std::unordered_map\<close>: association lists with distinct keys\<close>

type_synonym ('k, 'v) umap = "('k \<times> 'v) list"

fun umap_put :: "'k \<Rightarrow> 'v \<Rightarrow> ('k, 'v) umap \<Rightarrow> ('k, 'v) umap" where
  "umap_put k v [] = [(k, v)]"
| "umap_put k v ((k', v') # m) = (if k = k' then (k, v) # m else (k', v') # umap_put k v m)"

definition umap_erase :: "'k \<Rightarrow> ('k, 'v) umap \<Rightarrow> ('k, 'v) umap" where
  "umap_erase k m = filter (\<lambda>p. fst p \<noteq> k) m"

definition umap_wf :: "('k, 'v) umap \<Rightarrow> bool" where
  "umap_wf m \<longleftrightarrow> distinct (map fst m)"

lemma umap_get_put [kv_simps]: "map_of (umap_put k v m) k' = (if k' = k then Some v else map_of m k')"
  by (induction m) auto

lemma set_fst_umap_put [kv_simps]: "fst ` set (umap_put k v m) = insert k (fst ` set m)"
  by (induction k v m rule: umap_put.induct) auto

lemma umap_wf_put: "umap_wf m \<Longrightarrow> umap_wf (umap_put k v m)"
  unfolding umap_wf_def
  by (induction k v m rule: umap_put.induct) (auto simp: set_fst_umap_put)

lemma umap_put_fresh: "k \<notin> fst ` set m \<Longrightarrow> umap_put k v m = m @ [(k, v)]"
  by (induction k v m rule: umap_put.induct) auto

lemma umap_put_all_fresh:
  "distinct (map fst (m @ kvs)) \<Longrightarrow> fold (\<lambda>(k, v) m. umap_put k v m) kvs m = m @ kvs"
  by (induction kvs arbitrary: m) (auto simp: umap_put_fresh)

lemma umap_get_erase [kv_simps]: "map_of (umap_erase k m) k' = (if k' = k then None else map_of m k')"
  by (induction m) (auto simp: umap_erase_def)

lemma umap_wf_erase: "umap_wf m \<Longrightarrow> umap_wf (umap_erase k m)"
  unfolding umap_wf_def umap_erase_def by (simp add: distinct_map_filter)

subsection \<open>The contract of a key-value container\<close>

text \<open>What the clients of a map rely on: a lookup after a store, and the container invariant.\<close>

locale kv_store =
  fixes empty_m :: 'm
    and get :: "'m \<Rightarrow> 'k \<Rightarrow> 'v option"
    and put :: "'k \<Rightarrow> 'v \<Rightarrow> 'm \<Rightarrow> 'm"
    and wf :: "'m \<Rightarrow> bool"
  assumes get_empty: "get empty_m k = None"
    and get_put: "wf m \<Longrightarrow> get (put k v m) k' = (if k' = k then Some v else get m k')"
    and wf_empty: "wf empty_m"
    and wf_put: "wf m \<Longrightarrow> wf (put k v m)"
begin

text \<open>Storing a list of pairs in order: the last pair of a key wins.\<close>

lemma wf_fold_put: "wf m \<Longrightarrow> wf (fold (\<lambda>(k, v) m. put k v m) kvs m)"
  by (induction kvs arbitrary: m) (auto simp: wf_put)

lemma get_fold_put:
  "wf m \<Longrightarrow> get (fold (\<lambda>(k, v) m. put k v m) kvs m) k =
     (case map_of (rev kvs) k of None \<Rightarrow> get m k | Some v \<Rightarrow> Some v)"
proof (induction kvs arbitrary: m)
  case Nil
  then show ?case by simp
next
  case (Cons p kvs)
  obtain k0 v0 where p: "p = (k0, v0)" by force
  have "get (fold (\<lambda>(k, v) m. put k v m) kvs (put k0 v0 m)) k =
     (case map_of (rev kvs) k of None \<Rightarrow> get (put k0 v0 m) k | Some v \<Rightarrow> Some v)"
    using Cons.IH [OF wf_put [OF Cons.prems]] .
  with p Cons.prems show ?case
    by (auto simp: get_put map_add_def split: option.splits)
qed

lemma get_fold_put_empty:
  "get (fold (\<lambda>(k, v) m. put k v m) kvs empty_m) k = map_of (rev kvs) k"
  using get_fold_put [OF wf_empty, of kvs k] by (simp add: get_empty split: option.splits)

lemma get_fold_put_distinct:
  assumes "distinct (map fst kvs)"
  shows "get (fold (\<lambda>(k, v) m. put k v m) kvs empty_m) k = map_of kvs k"
  using assms by (simp add: get_fold_put_empty map_of_rev_distinct)

end

interpretation smap: kv_store "[]" map_of smap_put smap_wf
  by unfold_locales (auto simp: kv_simps smap_wf_put, simp add: smap_wf_def)

interpretation umap: kv_store "[]" map_of umap_put umap_wf
  by unfold_locales (auto simp: kv_simps umap_wf_put, simp add: umap_wf_def)

lemma smap_put_all_get [kv_simps]:
  "smap_wf m \<Longrightarrow> map_of (smap_put_all kvs m) k =
     (case map_of (rev kvs) k of None \<Rightarrow> map_of m k | Some v \<Rightarrow> Some v)"
  unfolding smap_put_all_def by (rule smap.get_fold_put)

lemma smap_put_all_wf: "smap_wf m \<Longrightarrow> smap_wf (smap_put_all kvs m)"
  unfolding smap_put_all_def by (rule smap.wf_fold_put)

subsection \<open>Objects acquired and released\<close>

text \<open>Code that allocates objects of a C library is modelled with a trace of what it acquires, frees and
  hands over; \<open>balance\<close> is the number of objects of a kind it holds after a trace.\<close>

datatype 'r res_event = Acquire 'r | Release 'r | Transfer 'r

fun effect :: "'r \<Rightarrow> 'r res_event \<Rightarrow> int" where
  "effect r (Acquire r') = (if r' = r then 1 else 0)"
| "effect r (Release r') = (if r' = r then - 1 else 0)"
| "effect r (Transfer r') = (if r' = r then - 1 else 0)"

definition balance :: "'r \<Rightarrow> 'r res_event list \<Rightarrow> int" where
  "balance r tr = sum_list (map (effect r) tr)"

lemma balance_simps [simp]:
  "balance r [] = 0" "balance r (e # tr) = effect r e + balance r tr"
  "balance r (tr @ tr') = balance r tr + balance r tr'"
  by (simp_all add: balance_def)

subsection \<open>Machines that run a sequence of operations\<close>

text \<open>A component with state and operations, run over a list of operations. What every single operation
  keeps, a relation between the state before and after (or, as a special case, an invariant), every
  run keeps.\<close>

locale rel_machine =
  fixes step :: "'e \<Rightarrow> 's \<Rightarrow> 's"
    and rel :: "'s \<Rightarrow> 's \<Rightarrow> bool"
  assumes rel_refl: "rel s s"
    and rel_trans: "rel s t \<Longrightarrow> rel t u \<Longrightarrow> rel s u"
    and step_rel: "rel s (step e s)"
begin

lemma run_rel: "rel s (fold step es s)"
proof (induction es arbitrary: s)
  case (Cons e es)
  from step_rel Cons.IH show ?case by (simp add: rel_trans [of s "step e s"])
qed (simp add: rel_refl)

end

locale invariant_machine =
  fixes step :: "'e \<Rightarrow> 's \<Rightarrow> 's"
    and inv :: "'s \<Rightarrow> bool"
  assumes step_inv: "inv s \<Longrightarrow> inv (step e s)"
begin

lemma step_implies: "inv s \<longrightarrow> inv (step e s)"
  by (simp add: step_inv)

end

sublocale invariant_machine \<subseteq> as_rel: rel_machine step "\<lambda>s t. inv s \<longrightarrow> inv t"
  by unfold_locales (auto simp: step_inv)

context invariant_machine
begin

lemma run_inv: "inv s \<Longrightarrow> inv (fold step es s)"
  using as_rel.run_rel by blast

end

text \<open>A machine that implements an abstract one: the abstraction of the state after a step is the abstract
  step on the abstraction, and so it is for runs.\<close>

locale refining_machine = invariant_machine step inv
  for step :: "'e \<Rightarrow> 's \<Rightarrow> 's" and inv :: "'s \<Rightarrow> bool" +
  fixes abs_step :: "'e \<Rightarrow> 'a \<Rightarrow> 'a"
    and abs_of :: "'s \<Rightarrow> 'a"
  assumes step_abs: "inv s \<Longrightarrow> abs_of (step e s) = abs_step e (abs_of s)"
begin

lemma run_abs: "inv s \<Longrightarrow> abs_of (fold step es s) = fold abs_step es (abs_of s)"
  by (induction es arbitrary: s) (simp_all add: step_inv step_abs)

end

subsection \<open>Relations whose runs end\<close>

text \<open>Every step keeps an invariant and lowers a measure, and only final states have no step.\<close>

locale ending_machine =
  fixes step :: "'s \<Rightarrow> 's \<Rightarrow> bool" and inv :: "'s \<Rightarrow> bool" and mu :: "'s \<Rightarrow> nat" and final :: "'s \<Rightarrow> bool"
  assumes kept: "inv s \<Longrightarrow> step s t \<Longrightarrow> inv t"
    and falls: "inv s \<Longrightarrow> step s t \<Longrightarrow> mu t < mu s"
    and goes_on: "inv s \<Longrightarrow> \<not> final s \<Longrightarrow> \<exists>t. step s t"
begin

lemma run_bounded: "(step ^^ k) s t \<Longrightarrow> inv s \<Longrightarrow> inv t \<and> k + mu t \<le> mu s"
proof (induction k arbitrary: t)
  case (Suc k)
  then obtain u where u: "(step ^^ k) s u" "step u t" by auto
  with Suc have "inv u" "k + mu u \<le> mu s" by blast+
  with kept [of u t] falls [of u t] u(2) show ?case by auto
qed simp

lemma runs_end: "(step ^^ k) s t \<Longrightarrow> inv s \<Longrightarrow> k \<le> mu s \<and> ((\<forall>u. \<not> step t u) \<longrightarrow> final t)"
  using run_bounded goes_on by fastforce

lemma final_reached: "inv s \<Longrightarrow> \<exists>t. step\<^sup>*\<^sup>* s t \<and> final t"
proof (induction "mu s" arbitrary: s rule: less_induct)
  case less
  show ?case
  proof (cases "final s")
    case False
    with goes_on less.prems obtain u where u: "step s u" by blast
    with less.hyps [of u] kept falls less.prems obtain t where "step\<^sup>*\<^sup>* u t" "final t" by blast
    with u show ?thesis by (meson converse_rtranclp_into_rtranclp)
  qed auto
qed

end

subsection \<open>C strings and messages\<close>

text \<open>A C string ends at its first zero byte.\<close>

definition c_str :: "string \<Rightarrow> string" where
  "c_str s = takeWhile (\<lambda>c. c \<noteq> CHR 0x00) s"

text \<open>An exception message, \<^verbatim>\<open>e.what()\<close>.\<close>

fun what :: "exn \<Rightarrow> string" where
  "what (runtime_error s) = s"
| "what (invalid_argument s) = s"
| "what (out_of_range s) = s"
| "what (system_error s) = s"
| "what (json_error s) = s"
| "what bad_function_call = ''bad_function_call''"
| "what plain_exception = ''std::exception''"

end
