(* ===== verification/Json.thy ===== *)
theory Json
  imports Prelude
begin

text \<open>
  JSON values as the sources use them through nlohmann::json: the value tree as a datatype, objects
  as key-sorted lists of members (\<^verbatim>\<open>std::map\<close>). Printing, parsing and conversion to C++ types are
  library code and parameters, collected in the record \<open>json_lib\<close>.
\<close>

datatype json =
    JNull
  | JBool bool
  | JNum string \<comment> \<open>its lexeme\<close>
  | JStr string
  | JArr "json list"
  | JObj "(string \<times> json) list"

record json_lib =
  dump :: "json \<Rightarrow> string"
  dump4 :: "json \<Rightarrow> string" \<comment> \<open>\<^verbatim>\<open>dump(4)\<close>\<close>
  parse :: "string \<Rightarrow> json option" \<comment> \<open>\<open>None\<close>: \<^verbatim>\<open>parse_error\<close>\<close>
  to_int :: "json \<Rightarrow> int option" \<comment> \<open>\<^verbatim>\<open>get<int>()\<close>, \<open>None\<close>: \<^verbatim>\<open>type_error\<close>\<close>
  to_bool :: "json \<Rightarrow> bool option"

fun is_object :: "json \<Rightarrow> bool" where
  "is_object (JObj _) = True"
| "is_object _ = False"

fun members :: "json \<Rightarrow> (string \<times> json) list" where
  "members (JObj ms) = ms"
| "members _ = []"

definition contains :: "json \<Rightarrow> string \<Rightarrow> bool" where
  "contains j k \<longleftrightarrow> map_of (members j) k \<noteq> None"

text \<open>Assigning through \<^verbatim>\<open>operator[]\<close>: null becomes an object, any other non-object throws.\<close>

definition subscript_error :: exn where
  "subscript_error = json_error ''cannot use operator[] with a string argument''"

fun put_member :: "string \<Rightarrow> json \<Rightarrow> json \<Rightarrow> json result" where
  "put_member k v JNull = Inr (JObj [(k, v)])"
| "put_member k v (JObj ms) = Inr (JObj (smap_put k v ms))"
| "put_member k v _ = Inl subscript_error"

definition get_string :: "json \<Rightarrow> string result" where
  "get_string j = (case j of JStr s \<Rightarrow> Inr s | _ \<Rightarrow> Inl (json_error ''type must be string''))"

text \<open>Objects whose members are sorted by key, at every level.\<close>

fun json_wf :: "json \<Rightarrow> bool" where
  "json_wf (JArr js) = (\<forall>j \<in> set js. json_wf j)"
| "json_wf (JObj ms) = (smap_wf ms \<and> (\<forall>m \<in> set ms. json_wf (snd m)))"
| "json_wf _ = True"

end
