(* ===== verification/Filesystem.thy ===== *)
theory Filesystem
  imports Prelude
begin

text \<open>
  \<^verbatim>\<open>src/Filesystem/\<close>, \<^verbatim>\<open>include/brazier/Filesystem/\<close> and \<^verbatim>\<open>src/Storage.cpp\<close>: the storage drivers. The
  part of \<^verbatim>\<open>std::filesystem\<close> and of the file streams that the drivers use is modelled on a tree of
  nodes without symbolic links, with the POSIX behaviour of each call; what the operating system
  permits is a parameter (\<open>os\<close>). The locale \<open>base_driver\<close> is the contract of \<^verbatim>\<open>BaseDriver\<close>, which the
  configuration relies on; \<^verbatim>\<open>FileDriver\<close> is its interpretation.
\<close>

subsection \<open>Paths and nodes\<close>

type_synonym path = "string list"

datatype node = File string | Dir

type_synonym fsys = "(path, node) umap"

record os =
  cwd :: path
  may_mkdir :: "path \<Rightarrow> bool"
  may_write :: "path \<Rightarrow> bool"
  may_read :: "path \<Rightarrow> bool"
  may_remove :: "path \<Rightarrow> bool"
  accepts :: "path \<Rightarrow> string \<Rightarrow> fsys \<Rightarrow> nat" \<comment> \<open>how many bytes of a write reach the file\<close>

fun resolve_comps :: "path \<Rightarrow> string list \<Rightarrow> path" where
  "resolve_comps at [] = at"
| "resolve_comps at (c # cs) =
     resolve_comps (if c = [] \<or> c = ''.'' then at else if c = ''..'' then butlast at else at @ [c]) cs"

definition resolve :: "os \<Rightarrow> string \<Rightarrow> path" where
  "resolve os s = resolve_comps (if s \<noteq> [] \<and> hd s = CHR ''/'' then [] else cwd os) (getline_split CHR ''/'' s)"

definition node_at :: "fsys \<Rightarrow> path \<Rightarrow> node option" where
  "node_at fs p = (if p = [] then Some Dir else map_of fs p)"

text \<open>Every node but the root lies in a directory.\<close>

definition fs_wf :: "fsys \<Rightarrow> bool" where
  "fs_wf fs \<longleftrightarrow> umap_wf fs \<and> [] \<notin> fst ` set fs \<and> (\<forall>p \<in> fst ` set fs. node_at fs (butlast p) = Some Dir)"

definition is_prefix :: "path \<Rightarrow> path \<Rightarrow> bool" where
  "is_prefix p q \<longleftrightarrow> take (length p) q = p"

definition strictly_below :: "path \<Rightarrow> path \<Rightarrow> bool" where
  "strictly_below p q \<longleftrightarrow> is_prefix p q \<and> p \<noteq> q"

definition has_children :: "fsys \<Rightarrow> path \<Rightarrow> bool" where
  "has_children fs p \<longleftrightarrow> (\<exists>q \<in> set (map fst fs). strictly_below p q)"

subsection \<open>The calls of \<open>std::filesystem\<close> and the streams\<close>

definition fs_error :: exn where
  "fs_error = system_error ''filesystem error''"

text \<open>\<^verbatim>\<open>create_directories\<close>, creating the missing directories one after the other; those made before a
  failure stay.\<close>

fun mkdirs :: "os \<Rightarrow> path \<Rightarrow> string list \<Rightarrow> fsys \<Rightarrow> bool \<times> fsys" where
  "mkdirs os at [] fs = (True, fs)"
| "mkdirs os at (c # cs) fs =
     (case node_at fs (at @ [c]) of
        Some Dir \<Rightarrow> mkdirs os (at @ [c]) cs fs
      | Some (File _) \<Rightarrow> (False, fs)
      | None \<Rightarrow> if may_mkdir os (at @ [c])
               then mkdirs os (at @ [c]) cs (umap_put (at @ [c]) Dir fs)
               else (False, fs))"

definition fs_exists :: "fsys \<Rightarrow> path \<Rightarrow> bool" where
  "fs_exists fs p \<longleftrightarrow> node_at fs p \<noteq> None"

text \<open>Opening for writing truncates; the parent has to be a directory and the path not one. The result says whether the
  file could be opened; when the medium does not take the whole content (a full disk, a quota), the file holds what it took.\<close>

definition write_file :: "os \<Rightarrow> path \<Rightarrow> string \<Rightarrow> fsys \<Rightarrow> bool \<times> fsys" where
  "write_file os p content fs =
     (if may_write os p \<and> p \<noteq> [] \<and> node_at fs (butlast p) = Some Dir \<and> node_at fs p \<noteq> Some Dir
      then (True, umap_put p (File (take (accepts os p content fs) content)) fs) else (False, fs))"

text \<open>Opening for reading; a directory opens but reading it fails.\<close>

definition read_file :: "os \<Rightarrow> string \<Rightarrow> path \<Rightarrow> fsys \<Rightarrow> string result" where
  "read_file os msg p fs =
     (if \<not> may_read os p then Inl (runtime_error msg)
      else case node_at fs p of
             None \<Rightarrow> Inl (runtime_error msg)
           | Some Dir \<Rightarrow> Inl (system_error ''basic_filebuf::underflow error reading the file'')
           | Some (File s) \<Rightarrow> Inr s)"

definition fs_remove :: "os \<Rightarrow> path \<Rightarrow> fsys \<Rightarrow> unit result \<times> fsys" where
  "fs_remove os p fs =
     (if p = [] \<or> has_children fs p \<or> \<not> may_remove os p then (Inl fs_error, fs)
      else (Inr (), umap_erase p fs))"

text \<open>\<^verbatim>\<open>copy_file\<close> without options refuses an existing target, and reports a write that is not complete.\<close>

definition copy_file :: "os \<Rightarrow> path \<Rightarrow> path \<Rightarrow> fsys \<Rightarrow> unit result \<times> fsys" where
  "copy_file os src dst fs =
     (case node_at fs src of
        Some (File s) \<Rightarrow>
          if may_read os src \<and> node_at fs dst = None
          then (case write_file os dst s fs of
                  (True, fs') \<Rightarrow> (if length s \<le> accepts os dst s fs then Inr () else Inl fs_error, fs')
                | (False, fs') \<Rightarrow> (Inl fs_error, fs'))
          else (Inl fs_error, fs)
      | _ \<Rightarrow> (Inl fs_error, fs))"

text \<open>\<^verbatim>\<open>copy\<close> without options: into a directory under the file's own name, and of a directory its files
  one level deep.\<close>

definition copy_one :: "os \<Rightarrow> path \<Rightarrow> path \<Rightarrow> fsys \<Rightarrow> unit result \<times> fsys" where
  "copy_one os src dst fs =
     (if node_at fs dst = Some Dir then copy_file os src (dst @ [last src]) fs else copy_file os src dst fs)"

fun copy_entries :: "os \<Rightarrow> path \<Rightarrow> path list \<Rightarrow> fsys \<Rightarrow> unit result \<times> fsys" where
  "copy_entries os dst [] fs = (Inr (), fs)"
| "copy_entries os dst (x # xs) fs =
     (if node_at fs x = Some Dir then copy_entries os dst xs fs
      else case copy_one os x (dst @ [last x]) fs of
             (Inl e, fs') \<Rightarrow> (Inl e, fs')
           | (Inr _, fs') \<Rightarrow> copy_entries os dst xs fs')"

definition entries :: "fsys \<Rightarrow> path \<Rightarrow> path list" where
  "entries fs p = filter (\<lambda>q. q \<noteq> [] \<and> butlast q = p) (map fst fs)"

definition fs_copy :: "os \<Rightarrow> path \<Rightarrow> path \<Rightarrow> fsys \<Rightarrow> unit result \<times> fsys" where
  "fs_copy os src dst fs =
     (if src = dst then (Inl fs_error, fs)
      else case node_at fs src of
        None \<Rightarrow> (Inl fs_error, fs)
      | Some (File _) \<Rightarrow> copy_one os src dst fs
      | Some Dir \<Rightarrow>
          (case node_at fs dst of
             Some (File _) \<Rightarrow> (Inl fs_error, fs)
           | Some Dir \<Rightarrow> copy_entries os dst (entries fs src) fs
           | None \<Rightarrow>
               if node_at fs (butlast dst) = Some Dir \<and> may_mkdir os dst
               then (let fs' = umap_put dst Dir fs in copy_entries os dst (entries fs' src) fs')
               else (Inl fs_error, fs)))"

text \<open>\<^verbatim>\<open>rename\<close>: the whole subtree moves; an existing target is replaced if it is a file for a file or an
  empty directory for a directory.\<close>

definition rename_key :: "path \<Rightarrow> path \<Rightarrow> path \<Rightarrow> path" where
  "rename_key src dst q = (if is_prefix src q then dst @ drop (length src) q else q)"

definition rename_ok :: "os \<Rightarrow> path \<Rightarrow> path \<Rightarrow> fsys \<Rightarrow> bool" where
  "rename_ok os src dst fs \<longleftrightarrow>
     src \<noteq> [] \<and> dst \<noteq> [] \<and> may_remove os src \<and> may_write os dst \<and> \<not> is_prefix src dst
     \<and> node_at fs (butlast dst) = Some Dir
     \<and> (case node_at fs src of
          None \<Rightarrow> False
        | Some Dir \<Rightarrow> node_at fs dst = None \<or> node_at fs dst = Some Dir \<and> \<not> has_children fs dst
        | Some (File _) \<Rightarrow> node_at fs dst \<noteq> Some Dir)"

definition fs_rename :: "os \<Rightarrow> path \<Rightarrow> path \<Rightarrow> fsys \<Rightarrow> unit result \<times> fsys" where
  "fs_rename os src dst fs =
     (if src = dst \<and> node_at fs src \<noteq> None then (Inr (), fs)
      else if rename_ok os src dst fs
      then (Inr (), map (\<lambda>(q, n). (rename_key src dst q, n)) (umap_erase dst fs))
      else (Inl fs_error, fs))"

subsection \<open>FileDriver\<close>

record file_driver =
  rootPath :: string
  ioPool :: "nat option" \<comment> \<open>the thread pool, by its thread count\<close>

definition fullPath :: "os \<Rightarrow> file_driver \<Rightarrow> string \<Rightarrow> path" where
  "fullPath os d path = resolve os (rootPath d @ ''/'' @ path)"

definition FileDriver_initAsync :: "nat \<Rightarrow> file_driver \<Rightarrow> file_driver" where
  "FileDriver_initAsync n d = (if ioPool d = None then d\<lparr>ioPool := Some n\<rparr> else d)"

text \<open>\<^verbatim>\<open>setRootPath\<close> creates the root; the throwing overload of \<^verbatim>\<open>create_directories\<close>.\<close>

definition FileDriver_setRootPath :: "os \<Rightarrow> string \<Rightarrow> file_driver \<Rightarrow> fsys \<Rightarrow> unit result \<times> file_driver \<times> fsys" where
  "FileDriver_setRootPath os path d fs =
     (let d' = d\<lparr>rootPath := path\<rparr>
      in if fs_exists fs (resolve os path) then (Inr (), d', fs)
         else case mkdirs os [] (resolve os path) fs of
                (True, fs') \<Rightarrow> (Inr (), d', fs')
              | (False, fs') \<Rightarrow> (Inl fs_error, d', fs'))"

text \<open>\<^verbatim>\<open>parent_path\<close> of the full path is resolved before the file is: it is the text up to the last slash.\<close>

definition parent_text :: "string \<Rightarrow> string" where
  "parent_text s = rev (dropWhile (\<lambda>c. c \<noteq> CHR ''/'') (rev s))"

text \<open>\<^verbatim>\<open>put\<close> looks at the stream after opening it, not after writing: a write that is not complete returns normally.\<close>

definition FileDriver_put :: "os \<Rightarrow> file_driver \<Rightarrow> string \<Rightarrow> string \<Rightarrow> fsys \<Rightarrow> unit result \<times> fsys" where
  "FileDriver_put os d path content fs =
     (case mkdirs os [] (resolve os (parent_text (rootPath d @ ''/'' @ path))) fs of
        (False, fs') \<Rightarrow> (Inl (runtime_error (''Cannot create directories for: '' @ path)), fs')
      | (True, fs') \<Rightarrow>
          (case write_file os (fullPath os d path) content fs' of
             (False, fs'') \<Rightarrow> (Inl (runtime_error (''Failed to open file for writing: '' @ path)), fs'')
           | (True, fs'') \<Rightarrow> (Inr (), fs'')))"

definition FileDriver_get :: "os \<Rightarrow> file_driver \<Rightarrow> string \<Rightarrow> fsys \<Rightarrow> string result" where
  "FileDriver_get os d path fs =
     read_file os (''Failed to open file for reading: '' @ path) (fullPath os d path) fs"

definition FileDriver_exists :: "os \<Rightarrow> file_driver \<Rightarrow> string \<Rightarrow> fsys \<Rightarrow> bool" where
  "FileDriver_exists os d path fs = fs_exists fs (fullPath os d path)"

definition FileDriver_deleteFile :: "os \<Rightarrow> file_driver \<Rightarrow> string \<Rightarrow> fsys \<Rightarrow> unit result \<times> fsys" where
  "FileDriver_deleteFile os d path fs =
     (if \<not> FileDriver_exists os d path fs then (Inl (runtime_error (''File does not exist: '' @ path)), fs)
      else fs_remove os (fullPath os d path) fs)"

definition FileDriver_copy :: "os \<Rightarrow> file_driver \<Rightarrow> string \<Rightarrow> string \<Rightarrow> fsys \<Rightarrow> unit result \<times> fsys" where
  "FileDriver_copy os d source destination fs =
     (if \<not> FileDriver_exists os d source fs
      then (Inl (runtime_error (''Source file does not exist: '' @ source)), fs)
      else fs_copy os (fullPath os d source) (fullPath os d destination) fs)"

definition FileDriver_move :: "os \<Rightarrow> file_driver \<Rightarrow> string \<Rightarrow> string \<Rightarrow> fsys \<Rightarrow> unit result \<times> fsys" where
  "FileDriver_move os d source destination fs =
     (if \<not> FileDriver_exists os d source fs
      then (Inl (runtime_error (''Source file does not exist: '' @ source)), fs)
      else fs_rename os (fullPath os d source) (fullPath os d destination) fs)"

text \<open>The coroutines, as what they return: each first checks the pool. \<^verbatim>\<open>putAsync\<close> and \<^verbatim>\<open>getAsync\<close> rethrow a
  caught \<^verbatim>\<open>const std::exception&\<close> by \<^verbatim>\<open>throw e\<close>, a copy of the base class only.\<close>

definition not_async :: exn where
  "not_async = runtime_error ''Storage not initialized for async operations. Call initAsync() first.''"

fun sliced :: "'a result \<Rightarrow> 'a result" where
  "sliced (Inl e) = Inl plain_exception"
| "sliced (Inr x) = Inr x"

definition FileDriver_putAsync :: "os \<Rightarrow> file_driver \<Rightarrow> string \<Rightarrow> string \<Rightarrow> fsys \<Rightarrow> unit result \<times> fsys" where
  "FileDriver_putAsync os d path content fs =
     (if ioPool d = None then (Inl not_async, fs)
      else apfst sliced (FileDriver_put os d path content fs))"

definition FileDriver_getAsync :: "os \<Rightarrow> file_driver \<Rightarrow> string \<Rightarrow> fsys \<Rightarrow> string result" where
  "FileDriver_getAsync os d path fs =
     (if ioPool d = None then Inl not_async else sliced (FileDriver_get os d path fs))"

definition FileDriver_existsAsync :: "os \<Rightarrow> file_driver \<Rightarrow> string \<Rightarrow> fsys \<Rightarrow> bool result" where
  "FileDriver_existsAsync os d path fs =
     (if ioPool d = None then Inl not_async else Inr (FileDriver_exists os d path fs))"

definition FileDriver_deleteFileAsync :: "os \<Rightarrow> file_driver \<Rightarrow> string \<Rightarrow> fsys \<Rightarrow> unit result \<times> fsys" where
  "FileDriver_deleteFileAsync os d path fs =
     (if ioPool d = None then (Inl not_async, fs) else FileDriver_deleteFile os d path fs)"

definition FileDriver_copyAsync :: "os \<Rightarrow> file_driver \<Rightarrow> string \<Rightarrow> string \<Rightarrow> fsys \<Rightarrow> unit result \<times> fsys" where
  "FileDriver_copyAsync os d source destination fs =
     (if ioPool d = None then (Inl not_async, fs) else FileDriver_copy os d source destination fs)"

definition FileDriver_moveAsync :: "os \<Rightarrow> file_driver \<Rightarrow> string \<Rightarrow> string \<Rightarrow> fsys \<Rightarrow> unit result \<times> fsys" where
  "FileDriver_moveAsync os d source destination fs =
     (if ioPool d = None then (Inl not_async, fs) else FileDriver_move os d source destination fs)"

subsection \<open>Storage\<close>

text \<open>The older singleton \<^verbatim>\<open>Storage\<close>, with a root and a pool of its own.\<close>

record storage =
  st_rootPath :: string
  st_ioPool :: "nat option"

definition st_path :: "os \<Rightarrow> storage \<Rightarrow> string \<Rightarrow> path" where
  "st_path os d path = resolve os (st_rootPath d @ ''/'' @ path)"

definition Storage_initAsync :: "nat \<Rightarrow> storage \<Rightarrow> storage" where
  "Storage_initAsync n d = (if st_ioPool d = None then d\<lparr>st_ioPool := Some n\<rparr> else d)"

definition Storage_setRootPath :: "os \<Rightarrow> string \<Rightarrow> storage \<Rightarrow> fsys \<Rightarrow> unit result \<times> storage \<times> fsys" where
  "Storage_setRootPath os path d fs =
     (let d' = d\<lparr>st_rootPath := path\<rparr>
      in if fs_exists fs (resolve os path) then (Inr (), d', fs)
         else case mkdirs os [] (resolve os path) fs of
                (True, fs') \<Rightarrow> (Inr (), d', fs')
              | (False, fs') \<Rightarrow> (Inl fs_error, d', fs'))"

definition Storage_put :: "os \<Rightarrow> storage \<Rightarrow> string \<Rightarrow> string \<Rightarrow> fsys \<Rightarrow> unit result \<times> fsys" where
  "Storage_put os d path content fs =
     (case mkdirs os [] (resolve os (parent_text (st_rootPath d @ ''/'' @ path))) fs of
        (False, fs') \<Rightarrow> (Inl (runtime_error (''Cannot create directories for: '' @ path)), fs')
      | (True, fs') \<Rightarrow>
          (case write_file os (st_path os d path) content fs' of
             (False, fs'') \<Rightarrow> (Inl (runtime_error (''Failed to open file for writing: '' @ path)), fs'')
           | (True, fs'') \<Rightarrow> (Inr (), fs'')))"

definition Storage_get :: "os \<Rightarrow> storage \<Rightarrow> string \<Rightarrow> fsys \<Rightarrow> string result" where
  "Storage_get os d path fs =
     read_file os (''Failed to open file for reading: '' @ path) (st_path os d path) fs"

definition Storage_exists :: "os \<Rightarrow> storage \<Rightarrow> string \<Rightarrow> fsys \<Rightarrow> bool" where
  "Storage_exists os d path fs = fs_exists fs (st_path os d path)"

definition Storage_deleteFile :: "os \<Rightarrow> storage \<Rightarrow> string \<Rightarrow> fsys \<Rightarrow> unit result \<times> fsys" where
  "Storage_deleteFile os d path fs =
     (if \<not> Storage_exists os d path fs then (Inl (runtime_error (''File does not exist: '' @ path)), fs)
      else fs_remove os (st_path os d path) fs)"

definition Storage_copy :: "os \<Rightarrow> storage \<Rightarrow> string \<Rightarrow> string \<Rightarrow> fsys \<Rightarrow> unit result \<times> fsys" where
  "Storage_copy os d source destination fs =
     (if \<not> Storage_exists os d source fs
      then (Inl (runtime_error (''Source file does not exist: '' @ source)), fs)
      else fs_copy os (st_path os d source) (st_path os d destination) fs)"

definition Storage_move :: "os \<Rightarrow> storage \<Rightarrow> string \<Rightarrow> string \<Rightarrow> fsys \<Rightarrow> unit result \<times> fsys" where
  "Storage_move os d source destination fs =
     (if \<not> Storage_exists os d source fs
      then (Inl (runtime_error (''Source file does not exist: '' @ source)), fs)
      else fs_rename os (st_path os d source) (st_path os d destination) fs)"

definition Storage_putAsync :: "os \<Rightarrow> storage \<Rightarrow> string \<Rightarrow> string \<Rightarrow> fsys \<Rightarrow> unit result \<times> fsys" where
  "Storage_putAsync os d path content fs =
     (if st_ioPool d = None then (Inl not_async, fs)
      else apfst sliced (Storage_put os d path content fs))"

definition Storage_getAsync :: "os \<Rightarrow> storage \<Rightarrow> string \<Rightarrow> fsys \<Rightarrow> string result" where
  "Storage_getAsync os d path fs =
     (if st_ioPool d = None then Inl not_async else sliced (Storage_get os d path fs))"

definition Storage_existsAsync :: "os \<Rightarrow> storage \<Rightarrow> string \<Rightarrow> fsys \<Rightarrow> bool result" where
  "Storage_existsAsync os d path fs =
     (if st_ioPool d = None then Inl not_async else Inr (Storage_exists os d path fs))"

definition Storage_deleteFileAsync :: "os \<Rightarrow> storage \<Rightarrow> string \<Rightarrow> fsys \<Rightarrow> unit result \<times> fsys" where
  "Storage_deleteFileAsync os d path fs =
     (if st_ioPool d = None then (Inl not_async, fs) else Storage_deleteFile os d path fs)"

definition Storage_copyAsync :: "os \<Rightarrow> storage \<Rightarrow> string \<Rightarrow> string \<Rightarrow> fsys \<Rightarrow> unit result \<times> fsys" where
  "Storage_copyAsync os d source destination fs =
     (if st_ioPool d = None then (Inl not_async, fs) else Storage_copy os d source destination fs)"

definition Storage_moveAsync :: "os \<Rightarrow> storage \<Rightarrow> string \<Rightarrow> string \<Rightarrow> fsys \<Rightarrow> unit result \<times> fsys" where
  "Storage_moveAsync os d source destination fs =
     (if st_ioPool d = None then (Inl not_async, fs) else Storage_move os d source destination fs)"

subsection \<open>The driver interface, the registry and the facade\<close>

text \<open>\<^verbatim>\<open>BaseDriver\<close>: the virtual functions of a driver as a record of functions on the state \<open>'f\<close> behind it.\<close>

record 'f driver_ops =
  d_exists :: "string \<Rightarrow> 'f \<Rightarrow> bool"
  d_get :: "string \<Rightarrow> 'f \<Rightarrow> string result"
  d_put :: "string \<Rightarrow> string \<Rightarrow> 'f \<Rightarrow> unit result \<times> 'f"
  d_deleteFile :: "string \<Rightarrow> 'f \<Rightarrow> unit result \<times> 'f"
  d_copy :: "string \<Rightarrow> string \<Rightarrow> 'f \<Rightarrow> unit result \<times> 'f"
  d_move :: "string \<Rightarrow> string \<Rightarrow> 'f \<Rightarrow> unit result \<times> 'f"
  d_type :: string

definition FileDriver :: "os \<Rightarrow> file_driver \<Rightarrow> fsys driver_ops" where
  "FileDriver os d = \<lparr>d_exists = FileDriver_exists os d, d_get = FileDriver_get os d,
     d_put = FileDriver_put os d, d_deleteFile = FileDriver_deleteFile os d,
     d_copy = FileDriver_copy os d, d_move = FileDriver_move os d, d_type = ''Filesystem''\<rparr>"

text \<open>The registry: a name may be bound to a null pointer (\<open>None\<close>).\<close>

record 'd storage_manager =
  drivers :: "(string, 'd option) umap"
  defaultDriverName :: string

definition registerDriver :: "string \<Rightarrow> 'd option \<Rightarrow> 'd storage_manager \<Rightarrow> 'd storage_manager" where
  "registerDriver name driver m = m\<lparr>drivers := umap_put name driver (drivers m)\<rparr>"

definition unregisterDriver :: "string \<Rightarrow> 'd storage_manager \<Rightarrow> 'd storage_manager" where
  "unregisterDriver name m = m\<lparr>drivers := umap_erase name (drivers m)\<rparr>"

definition setDefaultDriver :: "string \<Rightarrow> 'd storage_manager \<Rightarrow> unit result \<times> 'd storage_manager" where
  "setDefaultDriver name m =
     (if map_of (drivers m) name = None then (Inl (runtime_error (''Driver not found: '' @ name)), m)
      else (Inr (), m\<lparr>defaultDriverName := name\<rparr>))"

definition getDriver :: "string \<Rightarrow> 'd storage_manager \<Rightarrow> 'd option result" where
  "getDriver name m =
     (case map_of (drivers m) name of
        None \<Rightarrow> Inl (runtime_error (''Driver not found: '' @ name))
      | Some d \<Rightarrow> Inr d)"

definition getDefaultDriver :: "'d storage_manager \<Rightarrow> 'd option result" where
  "getDefaultDriver m = getDriver (defaultDriverName m) m"

definition hasDriver :: "string \<Rightarrow> 'd storage_manager \<Rightarrow> bool" where
  "hasDriver name m \<longleftrightarrow> map_of (drivers m) name \<noteq> None"

definition getDriverNames :: "'d storage_manager \<Rightarrow> string list" where
  "getDriverNames m = map fst (drivers m)"

text \<open>The facade \<^verbatim>\<open>Filesystem\<close>: its three constructors; every other member forwards to the driver.\<close>

record 'd filesystem =
  driver :: 'd
  driverName :: string

definition Filesystem_default :: "'d storage_manager \<Rightarrow> 'd filesystem result" where
  "Filesystem_default m =
     bind_result (getDefaultDriver m) (\<lambda>d. case d of
        None \<Rightarrow> Inl (runtime_error ''No default driver registered'')
      | Some d \<Rightarrow> Inr \<lparr>driver = d, driverName = ''default''\<rparr>)"

definition Filesystem_named :: "string \<Rightarrow> 'd storage_manager \<Rightarrow> 'd filesystem result" where
  "Filesystem_named name m =
     bind_result (getDriver name m) (\<lambda>d. case d of
        None \<Rightarrow> Inl (runtime_error (''Driver not found: '' @ name))
      | Some d \<Rightarrow> Inr \<lparr>driver = d, driverName = name\<rparr>)"

definition Filesystem_of :: "'d option \<Rightarrow> 'd filesystem result" where
  "Filesystem_of d = (case d of
        None \<Rightarrow> Inl (runtime_error ''Driver is null'')
      | Some d \<Rightarrow> Inr \<lparr>driver = d, driverName = ''custom''\<rparr>)"

definition Filesystem_put :: "'f driver_ops filesystem \<Rightarrow> string \<Rightarrow> string \<Rightarrow> 'f \<Rightarrow> unit result \<times> 'f" where
  "Filesystem_put F path content = d_put (driver F) path content"

definition Filesystem_get :: "'f driver_ops filesystem \<Rightarrow> string \<Rightarrow> 'f \<Rightarrow> string result" where
  "Filesystem_get F path = d_get (driver F) path"

definition Filesystem_exists :: "'f driver_ops filesystem \<Rightarrow> string \<Rightarrow> 'f \<Rightarrow> bool" where
  "Filesystem_exists F path = d_exists (driver F) path"

definition Filesystem_deleteFile :: "'f driver_ops filesystem \<Rightarrow> string \<Rightarrow> 'f \<Rightarrow> unit result \<times> 'f" where
  "Filesystem_deleteFile F path = d_deleteFile (driver F) path"

definition Filesystem_copy :: "'f driver_ops filesystem \<Rightarrow> string \<Rightarrow> string \<Rightarrow> 'f \<Rightarrow> unit result \<times> 'f" where
  "Filesystem_copy F source destination = d_copy (driver F) source destination"

definition Filesystem_move :: "'f driver_ops filesystem \<Rightarrow> string \<Rightarrow> string \<Rightarrow> 'f \<Rightarrow> unit result \<times> 'f" where
  "Filesystem_move F source destination = d_move (driver F) source destination"

definition Filesystem_getDriverType :: "'f driver_ops filesystem \<Rightarrow> string" where
  "Filesystem_getDriverType F = d_type (driver F)"

definition Filesystem_driver :: "string \<Rightarrow> 'd storage_manager \<Rightarrow> 'd filesystem result" where
  "Filesystem_driver name m = Filesystem_named name m"

definition Filesystem_hasDriver :: "string \<Rightarrow> 'd storage_manager \<Rightarrow> bool" where
  "Filesystem_hasDriver name m = hasDriver name m"

definition Filesystem_getDriverName :: "'d filesystem \<Rightarrow> string" where
  "Filesystem_getDriverName F = driverName F"

definition Filesystem_getDriver :: "'d filesystem \<Rightarrow> 'd" where
  "Filesystem_getDriver F = driver F"

text \<open>The coroutines of a driver, and the facade's, which forward to them.\<close>

record 'f async_driver_ops = "'f driver_ops" +
  d_putAsync :: "string \<Rightarrow> string \<Rightarrow> 'f \<Rightarrow> unit result \<times> 'f"
  d_getAsync :: "string \<Rightarrow> 'f \<Rightarrow> string result"
  d_existsAsync :: "string \<Rightarrow> 'f \<Rightarrow> bool result"
  d_deleteFileAsync :: "string \<Rightarrow> 'f \<Rightarrow> unit result \<times> 'f"
  d_copyAsync :: "string \<Rightarrow> string \<Rightarrow> 'f \<Rightarrow> unit result \<times> 'f"
  d_moveAsync :: "string \<Rightarrow> string \<Rightarrow> 'f \<Rightarrow> unit result \<times> 'f"

definition AsyncFileDriver :: "os \<Rightarrow> file_driver \<Rightarrow> fsys async_driver_ops" where
  "AsyncFileDriver os d = driver_ops.extend (FileDriver os d)
     (async_driver_ops.fields (FileDriver_putAsync os d) (FileDriver_getAsync os d) (FileDriver_existsAsync os d)
       (FileDriver_deleteFileAsync os d) (FileDriver_copyAsync os d) (FileDriver_moveAsync os d))"

definition Filesystem_putAsync :: "'f async_driver_ops filesystem \<Rightarrow> string \<Rightarrow> string \<Rightarrow> 'f \<Rightarrow> unit result \<times> 'f" where
  "Filesystem_putAsync F path content = d_putAsync (driver F) path content"

definition Filesystem_getAsync :: "'f async_driver_ops filesystem \<Rightarrow> string \<Rightarrow> 'f \<Rightarrow> string result" where
  "Filesystem_getAsync F path = d_getAsync (driver F) path"

definition Filesystem_existsAsync :: "'f async_driver_ops filesystem \<Rightarrow> string \<Rightarrow> 'f \<Rightarrow> bool result" where
  "Filesystem_existsAsync F path = d_existsAsync (driver F) path"

definition Filesystem_deleteFileAsync :: "'f async_driver_ops filesystem \<Rightarrow> string \<Rightarrow> 'f \<Rightarrow> unit result \<times> 'f" where
  "Filesystem_deleteFileAsync F path = d_deleteFileAsync (driver F) path"

definition Filesystem_copyAsync :: "'f async_driver_ops filesystem \<Rightarrow> string \<Rightarrow> string \<Rightarrow> 'f \<Rightarrow> unit result \<times> 'f" where
  "Filesystem_copyAsync F source destination = d_copyAsync (driver F) source destination"

definition Filesystem_moveAsync :: "'f async_driver_ops filesystem \<Rightarrow> string \<Rightarrow> string \<Rightarrow> 'f \<Rightarrow> unit result \<times> 'f" where
  "Filesystem_moveAsync F source destination = d_moveAsync (driver F) source destination"

subsection \<open>What the driver operations keep\<close>

lemma node_at_put: "p \<noteq> [] \<Longrightarrow> node_at (umap_put p n fs) q = (if q = p then Some n else node_at fs q)"
  by (auto simp: node_at_def kv_simps)

lemma map_of_dom: "map_of m k = None \<longleftrightarrow> k \<notin> fst ` set m"
  by (rule map_of_eq_None_iff)

lemma node_at_dom: "node_at fs p = None \<longleftrightarrow> p \<noteq> [] \<and> p \<notin> fst ` set fs"
  by (simp add: node_at_def map_of_dom)

lemma fs_wf_iff:
  "fs_wf fs \<longleftrightarrow> umap_wf fs \<and> map_of fs [] = None \<and>
     (\<forall>p. p \<noteq> [] \<longrightarrow> node_at fs p \<noteq> None \<longrightarrow> node_at fs (butlast p) = Some Dir)"
proof -
  have "(\<forall>p \<in> fst ` set fs. Q p) \<longleftrightarrow> (\<forall>p. p \<noteq> [] \<longrightarrow> node_at fs p \<noteq> None \<longrightarrow> Q p)"
    if "[] \<notin> fst ` set fs" for Q
  proof -
    have "p \<in> fst ` set fs \<longleftrightarrow> p \<noteq> [] \<and> node_at fs p \<noteq> None" for p
      using that node_at_dom [of fs p] by (cases "p = []") simp_all
    then show ?thesis by blast
  qed
  from this [of "\<lambda>p. node_at fs (butlast p) = Some Dir"] show ?thesis
    unfolding fs_wf_def map_of_dom by argo
qed

lemma fs_wf_node: "fs_wf fs \<Longrightarrow> node_at fs p \<noteq> None \<Longrightarrow> p \<noteq> [] \<Longrightarrow> node_at fs (butlast p) = Some Dir"
  unfolding fs_wf_iff by blast

lemma is_prefix_append: "is_prefix p q \<longleftrightarrow> (\<exists>r. q = p @ r)"
  by (metis append_eq_conv_conj append_take_drop_id is_prefix_def)

lemma has_children_iff: "has_children fs p \<longleftrightarrow> (\<exists>r. r \<noteq> [] \<and> map_of fs (p @ r) \<noteq> None)"
proof -
  have "has_children fs p \<longleftrightarrow> (\<exists>q. q \<in> fst ` set fs \<and> (\<exists>r. q = p @ r) \<and> p \<noteq> q)"
    unfolding has_children_def strictly_below_def is_prefix_append set_map by blast
  also have "\<dots> \<longleftrightarrow> (\<exists>r. r \<noteq> [] \<and> p @ r \<in> fst ` set fs)"
    by (metis append_self_conv)
  finally show ?thesis by (simp only: map_of_dom not_not)
qed

lemma butlast_neq: "p \<noteq> [] \<Longrightarrow> butlast p \<noteq> p"
  by (metis append_butlast_last_id not_Cons_self2 self_append_conv)

lemma fs_wf_put:
  assumes "fs_wf fs" "p \<noteq> []" "node_at fs (butlast p) = Some Dir" "node_at fs p = Some Dir \<longrightarrow> n = Dir"
  shows "fs_wf (umap_put p n fs)"
proof -
  have "butlast p \<noteq> p" using assms(2) by (rule butlast_neq)
  then show ?thesis
    using assms by (auto simp: fs_wf_iff umap_wf_put kv_simps node_at_put)
qed

lemma mkdirs_wf: "fs_wf fs \<Longrightarrow> node_at fs at = Some Dir \<Longrightarrow> fs_wf (snd (mkdirs os at cs fs))"
  by (induction os at cs fs rule: mkdirs.induct)
     (auto simp: fs_wf_put node_at_put split: option.splits node.splits)

lemma mkdirs_keeps: "node_at fs p \<noteq> None \<Longrightarrow> node_at (snd (mkdirs os at cs fs)) p = node_at fs p"
  by (induction os at cs fs rule: mkdirs.induct)
     (auto simp: node_at_put split: option.splits node.splits)

lemma mkdirs_made: "node_at fs at = Some Dir \<Longrightarrow> fst (mkdirs os at cs fs) \<Longrightarrow>
    node_at (snd (mkdirs os at cs fs)) (at @ cs) = Some Dir"
  by (induction os at cs fs rule: mkdirs.induct)
     (auto simp: node_at_put split: option.splits node.splits if_splits)

lemma mkdirs_no_file: "\<forall>s. node_at fs p \<noteq> Some (File s) \<Longrightarrow> node_at (snd (mkdirs os at cs fs)) p \<noteq> Some (File s)"
  by (induction os at cs fs rule: mkdirs.induct)
     (auto simp: node_at_put split: option.splits node.splits)

lemma write_file_wf: "fs_wf fs \<Longrightarrow> fs_wf (snd (write_file os p content fs))"
  by (auto simp: write_file_def fs_wf_put)

lemma copy_file_wf: "fs_wf fs \<Longrightarrow> fs_wf (snd (copy_file os src dst fs))"
  using write_file_wf [of fs os dst] by (auto simp: copy_file_def split: option.splits node.splits prod.splits bool.splits)
    (metis snd_conv)+

lemma copy_one_wf: "fs_wf fs \<Longrightarrow> fs_wf (snd (copy_one os src dst fs))"
  by (simp add: copy_one_def copy_file_wf)

lemma copy_entries_wf: "fs_wf fs \<Longrightarrow> fs_wf (snd (copy_entries os dst xs fs))"
proof (induction os dst xs fs rule: copy_entries.induct)
  case (2 os dst x xs fs)
  show ?case using 2 copy_one_wf [OF 2(3), of os x "dst @ [last x]"]
    by (auto split: prod.splits sum.splits)
qed simp

lemma fs_copy_wf: "fs_wf fs \<Longrightarrow> fs_wf (snd (fs_copy os src dst fs))"
  by (auto simp: fs_copy_def Let_def copy_one_wf copy_entries_wf fs_wf_put node_at_def split: option.splits node.splits)


lemma node_at_erase: "p \<noteq> [] \<Longrightarrow> node_at (umap_erase p fs) q = (if q = p then None else node_at fs q)"
  by (simp add: node_at_def kv_simps)

lemma fs_remove_wf:
  assumes "fs_wf fs" shows "fs_wf (snd (fs_remove os p fs))"
proof (cases "p = [] \<or> has_children fs p \<or> \<not> may_remove os p")
  case False
  have "butlast q \<noteq> p" if "q \<noteq> []" "node_at fs q \<noteq> None" for q
  proof
    assume "butlast q = p"
    then have "q = p @ [last q]" using that(1) by auto
    then show False using False that has_children_iff [of fs p] by (metis node_at_def not_Cons_self2)
  qed
  then have "node_at (umap_erase p fs) (butlast q) = Some Dir"
    if "q \<noteq> []" "node_at (umap_erase p fs) q \<noteq> None" for q
    using that False fs_wf_node [OF assms, of q] by (simp add: node_at_erase split: if_splits)
  then show ?thesis using assms False
    by (simp add: fs_remove_def fs_wf_iff umap_wf_erase) (simp add: kv_simps)
qed (use assms in \<open>simp add: fs_remove_def\<close>)

text \<open>Renaming: the new keys do not collide, and the tree stays a tree.\<close>

lemma below_node:
  assumes "fs_wf fs" shows "node_at fs (p @ r) \<noteq> None \<Longrightarrow> r \<noteq> [] \<Longrightarrow> node_at fs p = Some Dir"
proof (induction r rule: rev_induct)
  case (snoc x r)
  then have "node_at fs (p @ r) = Some Dir" using fs_wf_node [OF assms, of "p @ r @ [x]"] by simp (metis append_assoc butlast_snoc)
  with snoc show ?case by (cases "r = []") auto
qed simp

lemma rename_key_under: "rename_key src dst (src @ r) = dst @ r"
  by (simp add: rename_key_def is_prefix_def)

lemma rename_ok_free:
  assumes "fs_wf fs" "rename_ok os src dst fs" shows "node_at fs (dst @ r) = None \<or> r = []"
proof (rule ccontr)
  assume a: "\<not> (node_at fs (dst @ r) = None \<or> r = [])"
  then have d: "node_at fs dst = Some Dir" using below_node [OF assms(1)] by blast
  have "has_children fs dst" using a has_children_iff [of fs dst] by (auto simp: node_at_def)
  with d assms(2) show False by (auto simp: rename_ok_def split: option.splits node.splits)
qed

text \<open>Reading the renamed tree: below the target the old subtree, below the source nothing, elsewhere
  what there was.\<close>

lemma rename_key_eq:
  assumes "\<And>r. q \<noteq> dst @ r" "\<not> is_prefix src dst"
  shows "rename_key src dst q = p \<longleftrightarrow>
     (if is_prefix dst p then q = src @ drop (length dst) p else \<not> is_prefix src p \<and> q = p)"
proof (cases "is_prefix dst p")
  case True
  then obtain r where p: "p = dst @ r" by (auto simp: is_prefix_append)
  show ?thesis
  proof (cases "is_prefix src q")
    case True
    then obtain r' where "q = src @ r'" by (auto simp: is_prefix_append)
    with p \<open>is_prefix dst p\<close> show ?thesis by (simp add: rename_key_under)
  next
    case False
    moreover from False have "q \<noteq> src @ r'" for r' by (auto simp: is_prefix_append)
    ultimately show ?thesis using p assms(1) \<open>is_prefix dst p\<close> by (simp add: rename_key_def)
  qed
next
  case False
  then have "dst @ r \<noteq> p" for r by (auto simp: is_prefix_append)
  with False show ?thesis by (auto simp: rename_key_def)
qed

lemma map_of_renamed:
  assumes free: "\<And>r. map_of m (dst @ r) = None" and ne: "\<not> is_prefix src dst"
  shows "map_of (map (\<lambda>(q, n). (rename_key src dst q, n)) m) p =
     (if is_prefix dst p then map_of m (src @ drop (length dst) p)
      else if is_prefix src p then None else map_of m p)"
  using free
proof (induction m)
  case (Cons x m)
  obtain q n where x: "x = (q, n)" by force
  have free': "map_of m (dst @ r) = None" and q: "q \<noteq> dst @ r" for r
    using Cons.prems [of r] x by (auto split: if_splits)
  note key = rename_key_eq [OF q ne, of p]
  note IH = Cons.IH [OF free']
  consider "is_prefix dst p" | "\<not> is_prefix dst p" "is_prefix src p" | "\<not> is_prefix dst p" "\<not> is_prefix src p"
    by blast
  then show ?case
    by cases (use key IH x in \<open>simp_all add: eq_commute [of p] eq_commute [of "src @ drop (length dst) p"]\<close>)
qed simp

lemma renamed_distinct:
  "distinct (map fst m) \<Longrightarrow> \<forall>r. dst @ r \<notin> fst ` set m \<Longrightarrow> \<not> is_prefix src dst \<Longrightarrow>
     distinct (map fst (map (\<lambda>(q, n). (rename_key src dst q, n)) m))"
proof (induction m)
  case (Cons x m)
  obtain q n where x: "x = (q, n)" by force
  have q: "q \<noteq> dst @ r" for r using Cons.prems(2) x by auto
  have qm: "\<And>r. map_of m (dst @ r) = None" using Cons.prems(2) by (auto simp: map_of_dom)
  let ?m = "map (\<lambda>(q, n). (rename_key src dst q, n)) m"
  have "map_of ?m (rename_key src dst q) = None"
  proof -
    have "q \<notin> fst ` set m" using Cons.prems(1) x by simp
    then show ?thesis
      unfolding map_of_renamed [OF qm Cons.prems(3)]
      using rename_key_eq [OF q Cons.prems(3), of "rename_key src dst q"] map_of_dom [of m q]
      by (auto split: if_splits)
  qed
  then have "rename_key src dst q \<notin> fst ` set ?m" by (rule map_of_dom [THEN iffD1])
  moreover have "distinct (map fst ?m)" using Cons by simp
  ultimately show ?case using x by (simp del: map_map)
qed simp

lemma node_at_renamed:
  assumes "fs_wf fs" "rename_ok os src dst fs"
  shows "node_at (map (\<lambda>(q, n). (rename_key src dst q, n)) (umap_erase dst fs)) p =
     (if is_prefix dst p then node_at fs (src @ drop (length dst) p)
      else if is_prefix src p then None else node_at fs p)"
proof -
  have nn: "src \<noteq> []" "dst \<noteq> []" "\<not> is_prefix src dst" using assms(2) by (auto simp: rename_ok_def)
  have "map_of (umap_erase dst fs) (dst @ r) = None" for r
    using rename_ok_free [OF assms, of r] nn(2) by (auto simp: kv_simps node_at_def)
  moreover have "src @ drop (length dst) p \<noteq> dst"
    using nn(3) by (metis is_prefix_append)
  ultimately show ?thesis
    using map_of_renamed [OF _ nn(3), of "umap_erase dst fs" p] nn
    by (auto simp: node_at_def kv_simps is_prefix_def)
qed

lemma fs_rename_wf:
  assumes wf: "fs_wf fs" shows "fs_wf (snd (fs_rename os src dst fs))"
proof (cases "rename_ok os src dst fs \<and> \<not> (src = dst \<and> node_at fs src \<noteq> None)")
  case True
  let ?fs = "map (\<lambda>(q, n). (rename_key src dst q, n)) (umap_erase dst fs)"
  have ok: "rename_ok os src dst fs" using True by simp
  have nn: "src \<noteq> []" "dst \<noteq> []" "\<not> is_prefix src dst" and par: "node_at fs (butlast dst) = Some Dir"
    using ok by (auto simp: rename_ok_def)
  note look = node_at_renamed [OF wf ok]
  have free: "map_of (umap_erase dst fs) (dst @ r) = None" for r
    using rename_ok_free [OF wf ok, of r] nn(2) by (auto simp: kv_simps node_at_def)
  have "umap_wf ?fs"
    using renamed_distinct [of "umap_erase dst fs" dst src] free nn(3) wf umap_wf_erase [of fs dst]
    unfolding fs_wf_iff umap_wf_def map_of_dom by blast
  moreover have "map_of ?fs [] = None"
    using map_of_renamed [OF free nn(3), of "[]"] nn wf by (simp add: is_prefix_def fs_wf_iff kv_simps)
  moreover have "node_at ?fs (butlast p) = Some Dir" if p: "p \<noteq> []" "node_at ?fs p \<noteq> None" for p
  proof (cases "is_prefix dst p")
    case pre: True
    then obtain r where r: "p = dst @ r" by (auto simp: is_prefix_append)
    show ?thesis
    proof (cases "r = []")
      case True
      have "\<not> is_prefix src (butlast dst)" using nn(3) nn(2)
        by (metis append_assoc append_butlast_last_id is_prefix_append)
      moreover have "\<not> is_prefix dst (butlast dst)" using nn(2)
        by (metis butlast_neq append_self_conv is_prefix_append length_append length_butlast diff_le_self le_add1 le_antisym length_0_conv add_cancel_right_right)
      ultimately show ?thesis using look [of "butlast dst"] par r True by simp
    next
      case False
      have "node_at fs (src @ r) \<noteq> None" using look [of p] p r by (simp add: is_prefix_def)
      then have "node_at fs (src @ butlast r) = Some Dir"
        using fs_wf_node [OF wf, of "src @ r"] nn False by (simp add: butlast_append)
      then show ?thesis using look [of "butlast p"] r False by (simp add: butlast_append is_prefix_def)
    qed
  next
    case False
    then have np: "\<not> is_prefix src p" "node_at fs p \<noteq> None" using look [of p] p by (auto split: if_splits)
    then have "node_at fs (butlast p) = Some Dir" using fs_wf_node [OF wf] p by blast
    moreover have "\<not> is_prefix src (butlast p)" "\<not> is_prefix dst (butlast p)"
      using np(1) False p(1) by (metis append_assoc append_butlast_last_id is_prefix_append)+
    ultimately show ?thesis using look [of "butlast p"] by simp
  qed
  ultimately have "fs_wf ?fs" unfolding fs_wf_iff by blast
  then show ?thesis using True by (auto simp: fs_rename_def)
qed (use wf in \<open>auto simp: fs_rename_def\<close>)


subsection \<open>Sequences of driver operations\<close>

datatype fd_op =
    Put string string
  | Delete string
  | Copy string string
  | Move string string
  | PutAsync string string
  | DeleteAsync string
  | CopyAsync string string
  | MoveAsync string string

fun fd_step :: "os \<Rightarrow> file_driver \<Rightarrow> fd_op \<Rightarrow> fsys \<Rightarrow> fsys" where
  "fd_step os d (Put p c) fs = snd (FileDriver_put os d p c fs)"
| "fd_step os d (Delete p) fs = snd (FileDriver_deleteFile os d p fs)"
| "fd_step os d (Copy p q) fs = snd (FileDriver_copy os d p q fs)"
| "fd_step os d (Move p q) fs = snd (FileDriver_move os d p q fs)"
| "fd_step os d (PutAsync p c) fs = snd (FileDriver_putAsync os d p c fs)"
| "fd_step os d (DeleteAsync p) fs = snd (FileDriver_deleteFileAsync os d p fs)"
| "fd_step os d (CopyAsync p q) fs = snd (FileDriver_copyAsync os d p q fs)"
| "fd_step os d (MoveAsync p q) fs = snd (FileDriver_moveAsync os d p q fs)"

lemma put_wf:
  assumes "fs_wf fs" shows "fs_wf (snd (FileDriver_put os d p c fs))"
proof -
  let ?m = "mkdirs os [] (resolve os (parent_text (rootPath d @ ''/'' @ p))) fs"
  have "fs_wf (snd ?m)" using assms by (simp add: mkdirs_wf node_at_def)
  from write_file_wf [OF this, of os "fullPath os d p" c] this show ?thesis
    by (auto simp: FileDriver_put_def split: prod.splits bool.splits)
qed

interpretation fd: invariant_machine "fd_step os d" fs_wf for os d
proof
  fix fs e assume "fs_wf fs"
  then show "fs_wf (fd_step os d e fs)"
    by (cases e) (auto simp: put_wf FileDriver_deleteFile_def FileDriver_copy_def FileDriver_move_def
        FileDriver_putAsync_def FileDriver_deleteFileAsync_def FileDriver_copyAsync_def
        FileDriver_moveAsync_def fs_remove_wf fs_copy_wf fs_rename_wf)
qed

subsection \<open>The contract of a driver\<close>

text \<open>What the clients of \<^verbatim>\<open>BaseDriver\<close> rely on. Two paths may name the same file (\<open>same\<close>); \<open>readable\<close> says
  where reading is permitted, and \<open>written\<close> what a \<^verbatim>\<open>put\<close> that returns has stored of its content.\<close>

locale base_driver =
  fixes D :: "'f driver_ops"
    and same :: "string \<Rightarrow> string \<Rightarrow> bool"
    and readable :: "string \<Rightarrow> bool"
    and written :: "string \<Rightarrow> string \<Rightarrow> 'f \<Rightarrow> string"
  assumes put_get: "d_put D p c fs = (Inr (), fs') \<Longrightarrow> readable p \<Longrightarrow> d_get D p fs' = Inr (written p c fs)"
    and put_exists: "d_put D p c fs = (Inr (), fs') \<Longrightarrow> d_exists D p fs'"
    and put_other: "d_put D p c fs = (r, fs') \<Longrightarrow> \<not> same p q \<Longrightarrow> d_get D q fs = Inr s \<Longrightarrow> d_get D q fs' = Inr s"
    and put_failed: "d_put D p c fs = (Inl e, fs') \<Longrightarrow> d_get D q fs = Inr s \<Longrightarrow> d_get D q fs' = Inr s"
begin

text \<open>A file survives any later writes to other files, whether they succeed or not.\<close>

lemma puts_keep:
  assumes "\<forall>pc \<in> set pcs. \<not> same (fst pc) q" "d_get D q fs = Inr s"
  shows "d_get D q (fold (\<lambda>(p, c) fs. snd (d_put D p c fs)) pcs fs) = Inr s"
  using assms
proof (induction pcs arbitrary: fs)
  case (Cons pc pcs)
  obtain p c where pc: "pc = (p, c)" by force
  have "d_get D q (snd (d_put D p c fs)) = Inr s"
    using put_other [of p c fs _ _ q s] Cons.prems pc by (metis fst_conv list.set_intros(1) prod.collapse)
  with Cons pc show ?case by simp
qed simp

lemma put_puts_get:
  assumes "d_put D q s fs = (Inr (), fs')" "readable q" "\<forall>pc \<in> set pcs. \<not> same (fst pc) q"
  shows "d_get D q (fold (\<lambda>(p, c) fs. snd (d_put D p c fs)) pcs fs') = Inr (written q s fs)"
  using assms puts_keep put_get by blast

end

text \<open>What reaches the file: the medium is asked when the directories are there.\<close>

definition taken_of :: "os \<Rightarrow> file_driver \<Rightarrow> string \<Rightarrow> string \<Rightarrow> fsys \<Rightarrow> nat" where
  "taken_of os d p c fs = accepts os (fullPath os d p) c (snd (mkdirs os [] (resolve os (parent_text (rootPath d @ ''/'' @ p))) fs))"

lemma put_ok_nodes:
  assumes "FileDriver_put os d p c fs = (Inr (), fs')"
  shows "node_at fs' (fullPath os d p) = Some (File (take (taken_of os d p c fs) c))"
  using assms by (auto simp: FileDriver_put_def write_file_def node_at_put taken_of_def split: prod.splits bool.splits if_splits)

lemma put_other_nodes:
  assumes "FileDriver_put os d p c fs = (r, fs')" "q \<noteq> fullPath os d p \<or> isl r" "node_at fs q \<noteq> None"
  shows "node_at fs' q = node_at fs q"
proof -
  let ?m = "mkdirs os [] (resolve os (parent_text (rootPath d @ ''/'' @ p))) fs"
  have "node_at (snd ?m) q = node_at fs q" using assms(3) by (rule mkdirs_keeps)
  with assms(1,2) show ?thesis
    by (auto simp: FileDriver_put_def write_file_def node_at_put split: prod.splits bool.splits if_splits)
qed

lemma read_file_ok: "read_file os msg p fs = Inr s \<longleftrightarrow> may_read os p \<and> node_at fs p = Some (File s)"
  by (auto simp: read_file_def split: option.splits node.splits)

interpretation file_store: base_driver "FileDriver os d" "\<lambda>p q. fullPath os d p = fullPath os d q"
    "\<lambda>p. may_read os (fullPath os d p)" "\<lambda>p c fs. take (taken_of os d p c fs) c" for os d
proof
  fix p c fs fs'
  assume "d_put (FileDriver os d) p c fs = (Inr (), fs')"
  then have put: "FileDriver_put os d p c fs = (Inr (), fs')" by (simp add: FileDriver_def)
  show "d_exists (FileDriver os d) p fs'"
    using put_ok_nodes [OF put] by (simp add: FileDriver_def FileDriver_exists_def fs_exists_def)
  show "d_get (FileDriver os d) p fs' = Inr (take (taken_of os d p c fs) c)" if "may_read os (fullPath os d p)"
    using put_ok_nodes [OF put] that by (simp add: FileDriver_def FileDriver_get_def read_file_ok)
next
  fix p c fs r fs' q s
  assume "d_put (FileDriver os d) p c fs = (r, fs')"
    and "fullPath os d p \<noteq> fullPath os d q" "d_get (FileDriver os d) q fs = Inr s"
  then show "d_get (FileDriver os d) q fs' = Inr s"
    using put_other_nodes [of os d p c fs r fs' "fullPath os d q"]
    by (simp add: FileDriver_def FileDriver_get_def read_file_ok)
next
  fix p c fs e fs' q s
  assume "d_put (FileDriver os d) p c fs = (Inl e, fs')" "d_get (FileDriver os d) q fs = Inr s"
  then show "d_get (FileDriver os d) q fs' = Inr s"
    using put_other_nodes [of os d p c fs "Inl e" fs' "fullPath os d q"]
    by (simp add: FileDriver_def FileDriver_get_def read_file_ok)
qed


text \<open>\<^verbatim>\<open>Storage\<close> behaves as \<^verbatim>\<open>FileDriver\<close> does.\<close>

definition as_driver :: "storage \<Rightarrow> file_driver" where
  "as_driver d = \<lparr>rootPath = st_rootPath d, ioPool = st_ioPool d\<rparr>"

lemma as_driver_path: "st_path os d = fullPath os (as_driver d)" "st_rootPath d = rootPath (as_driver d)"
    "st_ioPool d = ioPool (as_driver d)"
  by (simp_all add: fun_eq_iff st_path_def fullPath_def as_driver_def)

lemmas storage_defs = Storage_put_def Storage_get_def Storage_exists_def Storage_deleteFile_def
  Storage_copy_def Storage_move_def Storage_putAsync_def Storage_getAsync_def
  FileDriver_put_def FileDriver_get_def FileDriver_exists_def FileDriver_deleteFile_def
  FileDriver_copy_def FileDriver_move_def FileDriver_putAsync_def FileDriver_getAsync_def

lemma storage_as_driver:
  "Storage_put os d = FileDriver_put os (as_driver d)"
  "Storage_get os d = FileDriver_get os (as_driver d)"
  "Storage_exists os d = FileDriver_exists os (as_driver d)"
  "Storage_deleteFile os d = FileDriver_deleteFile os (as_driver d)"
  "Storage_copy os d = FileDriver_copy os (as_driver d)"
  "Storage_move os d = FileDriver_move os (as_driver d)"
  "Storage_putAsync os d = FileDriver_putAsync os (as_driver d)"
  "Storage_getAsync os d = FileDriver_getAsync os (as_driver d)"
  unfolding fun_eq_iff storage_defs as_driver_path by (rule allI refl)+

subsection \<open>Properties\<close>

text \<open>C36: When \<^verbatim>\<open>put\<close> returns, reading the file gives the beginning of the content that the medium took, the whole content if it
  took all of it and less otherwise, although \<^verbatim>\<open>put\<close> reports no error then; and this stays so after any later
  writes, successful or failed, to paths that name other files. Condition: the file may be read.\<close>

theorem stored_file_survives:
  assumes "FileDriver_put os d q s fs = (Inr (), fs')" "may_read os (fullPath os d q)"
    and "\<forall>pc \<in> set pcs. fullPath os d (fst pc) \<noteq> fullPath os d q"
  shows "\<exists>t. FileDriver_get os d q (fold (\<lambda>(p, c) fs. snd (FileDriver_put os d p c fs)) pcs fs') = Inr t \<and>
    t = take (taken_of os d q s fs) s \<and> (t = s \<longleftrightarrow> length s \<le> taken_of os d q s fs)"
proof -
  have "take n s = s \<longleftrightarrow> length s \<le> n" for n by (metis length_take min.absorb_iff2 min_def take_all)
  then show ?thesis using file_store.put_puts_get [of os d q s fs fs' pcs] assms by (simp add: FileDriver_def)
qed

text \<open>Moving a file to a free name in an existing directory succeeds: the file is found under the new
  name with its content, no longer under the old one, and every other node is where it was.\<close>

theorem file_move_correct:
  assumes "fs_wf fs" "node_at fs (fullPath os d src) = Some (File s)" "node_at fs (fullPath os d dst) = None"
    and "node_at fs (butlast (fullPath os d dst)) = Some Dir"
    and "may_remove os (fullPath os d src)" "may_write os (fullPath os d dst)" "may_read os (fullPath os d dst)"
  shows "\<exists>fs'. FileDriver_move os d src dst fs = (Inr (), fs') \<and> FileDriver_get os d dst fs' = Inr s
    \<and> \<not> FileDriver_exists os d src fs'
    \<and> (\<forall>p. p \<noteq> fullPath os d src \<longrightarrow> p \<noteq> fullPath os d dst \<longrightarrow> node_at fs' p = node_at fs p)"
proof -
  let ?s = "fullPath os d src" let ?d = "fullPath os d dst"
  have nn: "?s \<noteq> []" "?d \<noteq> []" using assms(2,3) by (auto simp: node_at_def)
  have below: "r = []" if "node_at fs (?s @ r) \<noteq> None" for r
    using below_node [OF assms(1) that] assms(2) by fastforce
  have npre: "\<not> is_prefix ?s ?d"
  proof
    assume "is_prefix ?s ?d"
    then obtain r where r: "?d = ?s @ r" by (auto simp: is_prefix_append)
    then have "r \<noteq> []" using assms(2,3) by auto
    then have "node_at fs (?s @ butlast r) = Some Dir" using assms(4) r by (simp add: butlast_append)
    with below assms(2) show False by (metis append_Nil2 node.distinct(1) option.distinct(1) option.inject)
  qed
  have ok: "rename_ok os ?s ?d fs" using assms nn npre by (simp add: rename_ok_def)
  note look = node_at_renamed [OF assms(1) ok]
  let ?fs = "map (\<lambda>(q, n). (rename_key ?s ?d q, n)) (umap_erase ?d fs)"
  have mv: "FileDriver_move os d src dst fs = (Inr (), ?fs)"
    using assms(2,3) ok by (auto simp: FileDriver_move_def FileDriver_exists_def fs_exists_def fs_rename_def)
  have "FileDriver_get os d dst ?fs = Inr s"
    using look [of ?d] assms(2,7) by (simp add: FileDriver_get_def read_file_ok is_prefix_def)
  moreover have "\<not> FileDriver_exists os d src ?fs"
  proof -
    have "\<not> is_prefix ?d ?s" 
      using below_node [OF assms(1)] assms(2,3) by (metis append_Nil2 is_prefix_append option.distinct(1))
    then show ?thesis using look [of ?s] by (simp add: FileDriver_exists_def fs_exists_def is_prefix_def)
  qed
  moreover have "node_at ?fs p = node_at fs p" if p: "p \<noteq> ?s" "p \<noteq> ?d" for p
  proof -
    have "node_at fs (?s @ drop (length ?d) p) = None \<and> node_at fs p = None" if "is_prefix ?d p"
    proof -
      from that p obtain r where r: "p = ?d @ r" "r \<noteq> []" by (auto simp: is_prefix_append)
      then have "node_at fs (?s @ r) = None" using below [of r] by blast
      then show ?thesis using r rename_ok_free [OF assms(1) ok, of r] by simp
    qed
    moreover have "node_at fs p = None" if "is_prefix ?s p"
      using that p below by (auto simp: is_prefix_append)
    ultimately show ?thesis using look [of p] by simp
  qed
  ultimately show ?thesis using mv by blast
qed

definition sample_os :: os where
  "sample_os = \<lparr>cwd = [''srv''], may_mkdir = \<lambda>_. True, may_write = \<lambda>_. True, may_read = \<lambda>_. True, may_remove = \<lambda>_. True,
     accepts = \<lambda>p c fs. length c\<rparr>"

definition sample_driver :: file_driver where
  "sample_driver = \<lparr>rootPath = ''./'', ioPool = Some 4\<rparr>"

definition sample_fs :: fsys where
  "sample_fs = [([''srv''], Dir), ([''srv'', ''a''], File ''one''), ([''srv'', ''d''], Dir)]"

lemma sample_fs_wf: "fs_wf sample_fs"
  by code_simp

text \<open>A disk with room for two bytes of each file.\<close>

definition full_os :: os where
  "full_os = sample_os\<lparr>accepts := \<lambda>p c fs. 2\<rparr>"

theorem stored_file_survives_witness:
  "\<exists>fs'. FileDriver_put full_os sample_driver ''c/k'' ''value'' sample_fs = (Inr (), fs') \<and>
     FileDriver_get full_os sample_driver ''c/k''
       (fold (\<lambda>(p, c) fs. snd (FileDriver_put full_os sample_driver p c fs)) [(''a'', ''two''), (''a/b'', ''no'')] fs') = Inr ''va''"
proof -
  let ?r = "FileDriver_put full_os sample_driver ''c/k'' ''value'' sample_fs"
  have "fst ?r = Inr ()" by code_simp
  then have put: "?r = (Inr (), snd ?r)" by (metis prod.collapse)
  have rd: "may_read full_os (fullPath full_os sample_driver ''c/k'')" by code_simp
  have t: "taken_of full_os sample_driver ''c/k'' ''value'' sample_fs = 2" by (simp add: taken_of_def full_os_def)
  have "\<forall>pc \<in> set [(''a'', ''two''), (''a/b'', ''no'')].
      fullPath full_os sample_driver (fst pc) \<noteq> fullPath full_os sample_driver ''c/k''" by code_simp
  from stored_file_survives [OF put rd this] put t show ?thesis by auto
qed

theorem file_move_correct_witness:
  "\<exists>fs'. FileDriver_move sample_os sample_driver ''a'' ''d/b'' sample_fs = (Inr (), fs')
     \<and> FileDriver_get sample_os sample_driver ''d/b'' fs' = Inr ''one''"
proof -
  have h: "node_at sample_fs (fullPath sample_os sample_driver ''a'') = Some (File ''one'')"
    "node_at sample_fs (fullPath sample_os sample_driver ''d/b'') = None"
    "node_at sample_fs (butlast (fullPath sample_os sample_driver ''d/b'')) = Some Dir"
    "may_remove sample_os (fullPath sample_os sample_driver ''a'')"
    "may_write sample_os (fullPath sample_os sample_driver ''d/b'')"
    "may_read sample_os (fullPath sample_os sample_driver ''d/b'')"
    by code_simp+
  show ?thesis using file_move_correct [OF sample_fs_wf h] by blast
qed

end
