(* ===== verification/ConfigManager.thy ===== *)
theory ConfigManager
  imports Json Filesystem "HOL-Library.Multiset"
begin

text \<open>
  \<^verbatim>\<open>src/ConfigManager.cpp\<close> and \<^verbatim>\<open>include/brazier/vendor/ConfigManager.hpp\<close>: the configuration as a flat
  map from dotted keys to strings, read from and written to a JSON file through a storage driver.
  The map is an \<^verbatim>\<open>unordered_map\<close>: the order of the association list stands for the unspecified order
  of iteration. The storage driver is any record of driver operations (\<open>driver_ops\<close>) on its own state.
\<close>

type_synonym cfg_map = "(string, string) umap"

subsection \<open>Flattening a tree, rebuilding it\<close>

definition child_key :: "string \<Rightarrow> string \<Rightarrow> string" where
  "child_key prefix key = (if prefix = [] then key else prefix @ ''.'' @ key)"

fun flattenJson :: "json_lib \<Rightarrow> string \<Rightarrow> json \<Rightarrow> cfg_map \<Rightarrow> cfg_map"
  and flatten_members :: "json_lib \<Rightarrow> string \<Rightarrow> (string \<times> json) list \<Rightarrow> cfg_map \<Rightarrow> cfg_map" where
  "flattenJson J prefix (JObj ms) out = flatten_members J prefix ms out"
| "flattenJson J prefix (JArr js) out = umap_put prefix (dump J (JArr js)) out"
| "flattenJson J prefix (JStr s) out = umap_put prefix s out"
| "flattenJson J prefix j out = umap_put prefix (dump J j) out"
| "flatten_members J prefix [] out = out"
| "flatten_members J prefix ((key, value) # ms) out =
     flatten_members J prefix ms (flattenJson J (child_key prefix key) value out)"

text \<open>One pair of the map: the walk over the parts of the key creates missing objects, the last part
  is assigned the parsed value, or the text itself where it does not parse. A key without parts
  (the empty string) makes \<^verbatim>\<open>parts.size() - 1\<close> wrap and the loop read out of range: \<open>None\<close> is
  undefined behaviour.\<close>

definition cfg_value :: "json_lib \<Rightarrow> string \<Rightarrow> json" where
  "cfg_value J text = (case parse J text of None \<Rightarrow> JStr text | Some j \<Rightarrow> j)"

fun insert_parts :: "string list \<Rightarrow> json \<Rightarrow> json \<Rightarrow> json result option" where
  "insert_parts [] v j = None"
| "insert_parts [p] v j = Some (put_member p v j)"
| "insert_parts (p # q # ps) v j =
     (case (if contains j p then Inr j else put_member p (JObj []) j) of
        Inl e \<Rightarrow> Some (Inl e)
      | Inr j' \<Rightarrow>
          (case insert_parts (q # ps) v (the (map_of (members j') p)) of
             None \<Rightarrow> None
           | Some (Inl e) \<Rightarrow> Some (Inl e)
           | Some (Inr c) \<Rightarrow> Some (put_member p c j')))"

fun unflatten_from :: "json_lib \<Rightarrow> cfg_map \<Rightarrow> json \<Rightarrow> json result option" where
  "unflatten_from J [] j = Some (Inr j)"
| "unflatten_from J ((key, value) # m) j =
     (case insert_parts (getline_split CHR ''.'' key) (cfg_value J value) j of
        None \<Rightarrow> None
      | Some (Inl e) \<Rightarrow> Some (Inl e)
      | Some (Inr j') \<Rightarrow> unflatten_from J m j')"

definition unflattenMap :: "json_lib \<Rightarrow> cfg_map \<Rightarrow> json result option" where
  "unflattenMap J m = unflatten_from J m JNull"

subsection \<open>The configuration manager\<close>

record config =
  has_driver :: bool \<comment> \<open>\<^verbatim>\<open>driver_\<close> is not null\<close>
  configFilePath :: string
  cfg :: cfg_map
  autoSave :: bool

definition no_driver :: exn where
  "no_driver = runtime_error ''Driver is not initialized''"

definition load :: "json_lib \<Rightarrow> 'f driver_ops \<Rightarrow> 'f \<Rightarrow> config \<Rightarrow> config \<times> exn option" where
  "load J D fs c =
     (if \<not> has_driver c then (c, Some no_driver)
      else if \<not> d_exists D (configFilePath c) fs then (c\<lparr>cfg := []\<rparr>, None)
      else case d_get D (configFilePath c) fs of
             Inl e \<Rightarrow> (c, Some (runtime_error (''Failed to load config: '' @ what e)))
           | Inr content \<Rightarrow>
               (case parse J content of
                  None \<Rightarrow> (c, Some (runtime_error ''Failed to load config: parse error''))
                | Some j \<Rightarrow> (c\<lparr>cfg := flattenJson J [] j []\<rparr>, None)))"

text \<open>\<^verbatim>\<open>save\<close>: \<open>None\<close> where rebuilding the tree is undefined behaviour.\<close>

definition save :: "json_lib \<Rightarrow> 'f driver_ops \<Rightarrow> 'f \<Rightarrow> config \<Rightarrow> (unit result \<times> 'f) option" where
  "save J D fs c =
     (if \<not> has_driver c then Some (Inl no_driver, fs)
      else case unflattenMap J (cfg c) of
             None \<Rightarrow> None
           | Some (Inl e) \<Rightarrow> Some (Inl e, fs)
           | Some (Inr j) \<Rightarrow> Some (d_put D (configFilePath c) (dump4 J j) fs))"

text \<open>A mutation that saves when \<^verbatim>\<open>autoSave_\<close> is set; the exception of the save propagates.\<close>

definition autosave :: "json_lib \<Rightarrow> 'f driver_ops \<Rightarrow> config \<Rightarrow> 'f \<Rightarrow> (config \<times> exn option \<times> 'f) option" where
  "autosave J D c fs =
     (if autoSave c
      then case save J D fs c of
             None \<Rightarrow> None
           | Some (Inl e, fs') \<Rightarrow> Some (c, Some e, fs')
           | Some (Inr _, fs') \<Rightarrow> Some (c, None, fs')
      else Some (c, None, fs))"

definition cfg_set :: "json_lib \<Rightarrow> 'f driver_ops \<Rightarrow> string \<Rightarrow> string \<Rightarrow> config \<Rightarrow> 'f \<Rightarrow>
    (config \<times> exn option \<times> 'f) option" where
  "cfg_set J D key text c fs = autosave J D (c\<lparr>cfg := umap_put key text (cfg c)\<rparr>) fs"

definition cfg_remove :: "json_lib \<Rightarrow> 'f driver_ops \<Rightarrow> string \<Rightarrow> config \<Rightarrow> 'f \<Rightarrow>
    (bool \<times> config \<times> exn option \<times> 'f) option" where
  "cfg_remove J D key c fs =
     (let erased = map_of (cfg c) key \<noteq> None; c' = c\<lparr>cfg := umap_erase key (cfg c)\<rparr>
      in if erased then map_option (\<lambda>r. (True, r)) (autosave J D c' fs)
         else Some (False, c', None, fs))"

definition has :: "string \<Rightarrow> config \<Rightarrow> bool" where
  "has key c \<longleftrightarrow> map_of (cfg c) key \<noteq> None"

definition getKeys :: "config \<Rightarrow> string list" where
  "getKeys c = map fst (cfg c)"

definition getAllAsJson :: "json_lib \<Rightarrow> config \<Rightarrow> json result option" where
  "getAllAsJson J c = unflattenMap J (cfg c)"

definition loadFromJson :: "json_lib \<Rightarrow> 'f driver_ops \<Rightarrow> json \<Rightarrow> config \<Rightarrow> 'f \<Rightarrow>
    (config \<times> exn option \<times> 'f) option" where
  "loadFromJson J D j c fs = autosave J D (c\<lparr>cfg := flattenJson J [] j []\<rparr>) fs"

definition clear :: "json_lib \<Rightarrow> 'f driver_ops \<Rightarrow> config \<Rightarrow> 'f \<Rightarrow> (config \<times> exn option \<times> 'f) option" where
  "clear J D c fs = autosave J D (c\<lparr>cfg := []\<rparr>) fs"

definition setAutoSave :: "bool \<Rightarrow> config \<Rightarrow> config" where
  "setAutoSave b c = c\<lparr>autoSave := b\<rparr>"

text \<open>\<^verbatim>\<open>get<T>\<close> with \<^verbatim>\<open>fromString<T>\<close>: a value that cannot be read gives the default.\<close>

definition get_str :: "config \<Rightarrow> string \<Rightarrow> string \<Rightarrow> string" where
  "get_str c key d = (case map_of (cfg c) key of None \<Rightarrow> d | Some s \<Rightarrow> s)"

definition get_as :: "json_lib \<Rightarrow> (json \<Rightarrow> 'a option) \<Rightarrow> config \<Rightarrow> string \<Rightarrow> 'a \<Rightarrow> 'a" where
  "get_as J conv c key d =
     (case map_of (cfg c) key of
        None \<Rightarrow> d
      | Some s \<Rightarrow> (case parse J s of None \<Rightarrow> d
          | Some j \<Rightarrow> (case conv j of None \<Rightarrow> d | Some v \<Rightarrow> v)))"

text \<open>\<^verbatim>\<open>toString<T>\<close> for strings and for other types, which go through the JSON library; the overloads of \<^verbatim>\<open>get\<close>
  for C strings and literals.\<close>

definition toString_str :: "string \<Rightarrow> string" where
  "toString_str v = v"

definition toString_json :: "json_lib \<Rightarrow> json \<Rightarrow> string" where
  "toString_json J v = dump J v"

definition get_cstr :: "config \<Rightarrow> string \<Rightarrow> string \<Rightarrow> string" where
  "get_cstr c key d = get_str c key (c_str d)"

definition get_literal :: "config \<Rightarrow> string \<Rightarrow> string \<Rightarrow> string" where
  "get_literal c key d = get_str c key d"

subsection \<open>Nested access\<close>

definition starts_with :: "string \<Rightarrow> string \<Rightarrow> bool" where
  "starts_with p s \<longleftrightarrow> take (length p) s = p"

text \<open>The pairs under a path: the key itself, or a key that continues it after a dot.\<close>

definition under :: "string \<Rightarrow> string \<Rightarrow> bool" where
  "under path key \<longleftrightarrow> key = path \<or> starts_with (path @ ''.'') key"

text \<open>\<^verbatim>\<open>filtered[subKey] = value\<close> over the pairs whose key starts with the prefix.\<close>

fun filter_prefix :: "string \<Rightarrow> nat \<Rightarrow> cfg_map \<Rightarrow> cfg_map \<Rightarrow> cfg_map" where
  "filter_prefix p n [] out = out"
| "filter_prefix p n ((k, v) # m) out =
     filter_prefix p n m (if starts_with p k then umap_put (drop n k) v out else out)"

text \<open>\<^verbatim>\<open>getNestedJson\<close>: the sub-key skips one character past the prefix, and \<^verbatim>\<open>substr\<close> throws when the key
  is the prefix itself.\<close>

definition getNestedJson :: "json_lib \<Rightarrow> config \<Rightarrow> string \<Rightarrow> json result option" where
  "getNestedJson J c prefix =
     (if prefix = [] then unflattenMap J (cfg c)
      else if map_of (cfg c) prefix \<noteq> None then Some (Inl (out_of_range ''basic_string::substr''))
      else unflattenMap J (filter_prefix prefix (length prefix + 1) (cfg c) []))"

definition getJson :: "json_lib \<Rightarrow> config \<Rightarrow> string \<Rightarrow> json result option" where
  "getJson J c key =
     (case map_of (cfg c) key of
        Some v \<Rightarrow> Some (Inr (cfg_value J v))
      | None \<Rightarrow>
          (let f = filter_prefix (key @ ''.'') (length key + 1) (cfg c) []
           in if f \<noteq> [] then unflattenMap J f else Some (Inr (JObj []))))"

definition getNested_str :: "json_lib \<Rightarrow> config \<Rightarrow> string \<Rightarrow> string \<Rightarrow> string result option" where
  "getNested_str J c path d =
     (case map_of (cfg c) path of
        Some v \<Rightarrow> Some (Inr v)
      | None \<Rightarrow>
          (let f = filter_prefix (path @ ''.'') (length path + 1) (cfg c) []
           in if f = [] then Some (Inr d)
              else case unflattenMap J f of
                     None \<Rightarrow> None
                   | Some (Inl e) \<Rightarrow> Some (Inl e)
                   | Some (Inr j) \<Rightarrow> Some (Inr (dump4 J j))))"

definition setNested_json :: "json_lib \<Rightarrow> 'f driver_ops \<Rightarrow> string \<Rightarrow> json \<Rightarrow> config \<Rightarrow> 'f \<Rightarrow>
    (config \<times> exn option \<times> 'f) option" where
  "setNested_json J D path j c fs =
     (let kept = filter (\<lambda>(k, _). \<not> under path k) (cfg c)
      in autosave J D (c\<lparr>cfg := flattenJson J path j kept\<rparr>) fs)"

definition hasNestedPath :: "string \<Rightarrow> config \<Rightarrow> bool" where
  "hasNestedPath path c \<longleftrightarrow> map_of (cfg c) path \<noteq> None \<or> (\<exists>k \<in> set (map fst (cfg c)). starts_with (path @ ''.'') k)"

definition removeNested :: "json_lib \<Rightarrow> 'f driver_ops \<Rightarrow> string \<Rightarrow> config \<Rightarrow> 'f \<Rightarrow>
    (bool \<times> config \<times> exn option \<times> 'f) option" where
  "removeNested J D path c fs =
     (let toRemove = filter (under path) (map fst (cfg c))
      in if toRemove = [] then Some (False, c, None, fs)
         else map_option (\<lambda>r. (True, r))
           (autosave J D (c\<lparr>cfg := fold umap_erase toRemove (cfg c)\<rparr>) fs))"

definition getKeysWithPrefix :: "string \<Rightarrow> config \<Rightarrow> string list" where
  "getKeysWithPrefix prefix c =
     (if prefix = [] then map fst (cfg c) else filter (starts_with prefix) (map fst (cfg c)))"

text \<open>The remaining members: \<^verbatim>\<open>reload\<close> is \<^verbatim>\<open>load\<close>, the constructors, the accessors that duplicate others.\<close>

definition reload :: "json_lib \<Rightarrow> 'f driver_ops \<Rightarrow> 'f \<Rightarrow> config \<Rightarrow> config \<times> exn option" where
  "reload J D fs c = load J D fs c"

definition ConfigManager_new :: "json_lib \<Rightarrow> 'f driver_ops option \<Rightarrow> string \<Rightarrow> 'f \<Rightarrow> config result" where
  "ConfigManager_new J D path fs =
     (let c = \<lparr>has_driver = D \<noteq> None, configFilePath = path, cfg = [], autoSave = False\<rparr>
      in case D of
           None \<Rightarrow> Inr c
         | Some d \<Rightarrow> (case load J d fs c of (c', None) \<Rightarrow> Inr c' | (_, Some e) \<Rightarrow> Inl e))"

definition ConfigManager_named :: "string \<Rightarrow> string \<Rightarrow> 'f driver_ops storage_manager \<Rightarrow>
    (config \<times> 'f driver_ops) result" where
  "ConfigManager_named path name m =
     (case Filesystem_named name m of
        Inl e \<Rightarrow> Inl (runtime_error (''Failed to initialize ConfigManager with driver '' @ [CHR 0x27] @ name @
                   [CHR 0x27] @ '': '' @ what e))
      | Inr F \<Rightarrow> Inr (\<lparr>has_driver = True, configFilePath = path, cfg = [], autoSave = False\<rparr>, driver F))"

definition getRawData :: "config \<Rightarrow> cfg_map" where
  "getRawData c = cfg c"

definition hasNested :: "string \<Rightarrow> config \<Rightarrow> bool" where
  "hasNested key c \<longleftrightarrow> map_of (cfg c) key \<noteq> None"

definition getKeysNested :: "config \<Rightarrow> string list" where
  "getKeysNested c = map fst (cfg c)"

definition loadFromJsonNested :: "json_lib \<Rightarrow> 'f driver_ops \<Rightarrow> json \<Rightarrow> config \<Rightarrow> 'f \<Rightarrow>
    (config \<times> exn option \<times> 'f) option" where
  "loadFromJsonNested J D j c fs = autosave J D (c\<lparr>cfg := flattenJson J [] j []\<rparr>) fs"

text \<open>\<^verbatim>\<open>setNested\<close> of a string (or of a value already converted by \<^verbatim>\<open>toString\<close>), and \<^verbatim>\<open>initGlobal\<close>: a file
  driver on the working directory, and a manager that loads twice.\<close>

definition setNested_text :: "json_lib \<Rightarrow> 'f driver_ops \<Rightarrow> string \<Rightarrow> string \<Rightarrow> config \<Rightarrow> 'f \<Rightarrow>
    (config \<times> exn option \<times> 'f) option" where
  "setNested_text J D path text c fs = autosave J D (c\<lparr>cfg := umap_put path text (cfg c)\<rparr>) fs"

definition initGlobal :: "json_lib \<Rightarrow> os \<Rightarrow> nat \<Rightarrow> string \<Rightarrow> fsys \<Rightarrow> config result \<times> fsys" where
  "initGlobal J os threads filepath fs =
     (case FileDriver_setRootPath os ''./'' \<lparr>rootPath = [], ioPool = None\<rparr> fs of
        (Inl e, d, fs') \<Rightarrow> (Inl e, fs')
      | (Inr _, d, fs') \<Rightarrow>
          (let D = FileDriver os (FileDriver_initAsync threads d)
           in case ConfigManager_new J (Some D) filepath fs' of
                Inl e \<Rightarrow> (Inl e, fs')
              | Inr c \<Rightarrow> (case load J D fs' c of (c', None) \<Rightarrow> (Inr c', fs') | (_, Some e) \<Rightarrow> (Inl e, fs'))))"

definition initGlobal_default :: "json_lib \<Rightarrow> os \<Rightarrow> nat \<Rightarrow> fsys \<Rightarrow> config result \<times> fsys" where
  "initGlobal_default J os threads fs = initGlobal J os threads ''config.json'' fs"

subsection \<open>Trees and their leaves\<close>

fun leaves :: "json \<Rightarrow> (string list \<times> json) list"
  and member_leaves :: "(string \<times> json) list \<Rightarrow> (string list \<times> json) list" where
  "leaves (JObj ms) = member_leaves ms"
| "leaves JNull = [([], JNull)]"
| "leaves (JBool b) = [([], JBool b)]"
| "leaves (JNum n) = [([], JNum n)]"
| "leaves (JStr s) = [([], JStr s)]"
| "leaves (JArr js) = [([], JArr js)]"
| "member_leaves [] = []"
| "member_leaves ((k, v) # ms) = map (\<lambda>(p, l). (k # p, l)) (leaves v) @ member_leaves ms"

text \<open>The text a leaf is stored as.\<close>

fun leaf_text :: "json_lib \<Rightarrow> json \<Rightarrow> string" where
  "leaf_text J (JStr s) = s"
| "leaf_text J j = dump J j"

text \<open>A tree that the flat form can represent: members sorted by key, keys non-empty and without a dot,
  no empty object below the root, string leaves that are not JSON texts themselves.\<close>

fun regular :: "json_lib \<Rightarrow> json \<Rightarrow> bool"
  and regular_members :: "json_lib \<Rightarrow> (string \<times> json) list \<Rightarrow> bool" where
  "regular J (JObj ms) = (ms \<noteq> [] \<and> smap_wf ms \<and> regular_members J ms)"
| "regular J (JStr s) = (parse J s = None)"
| "regular J JNull = True"
| "regular J (JBool b) = True"
| "regular J (JNum n) = True"
| "regular J (JArr js) = True"
| "regular_members J [] = True"
| "regular_members J ((k, v) # ms) =
     (k \<noteq> [] \<and> CHR ''.'' \<notin> set k \<and> regular J v \<and> regular_members J ms)"

text \<open>The part of a tree that the paths in \<open>P\<close> reach.\<close>

fun restr :: "string list set \<Rightarrow> json \<Rightarrow> json"
  and restr_members :: "string list set \<Rightarrow> (string \<times> json) list \<Rightarrow> (string \<times> json) list" where
  "restr P (JObj ms) = JObj (restr_members P ms)"
| "restr P JNull = JNull"
| "restr P (JBool b) = JBool b"
| "restr P (JNum n) = JNum n"
| "restr P (JStr s) = JStr s"
| "restr P (JArr js) = JArr js"
| "restr_members P [] = []"
| "restr_members P ((k, v) # ms) =
     (if \<exists>p. k # p \<in> P then (k, restr {p. k # p \<in> P} v) # restr_members P ms
      else restr_members P ms)"

fun path_key :: "string \<Rightarrow> string list \<Rightarrow> string" where
  "path_key prefix [] = prefix"
| "path_key prefix (k # p) = path_key (child_key prefix k) p"

lemma flatten_leaves:
  "flattenJson J prefix j out =
     fold (\<lambda>(k, v). umap_put k v) (map (\<lambda>(p, l). (path_key prefix p, leaf_text J l)) (leaves j)) out"
  "flatten_members J prefix ms out =
     fold (\<lambda>(k, v). umap_put k v) (map (\<lambda>(p, l). (path_key prefix p, leaf_text J l)) (member_leaves ms)) out"
  by (induction J prefix j out and J prefix ms out rule: flattenJson_flatten_members.induct)
     (simp_all add: comp_def case_prod_unfold)

lemma leaf_not_object:
  "(p, l) \<in> set (leaves j) \<Longrightarrow> \<not> is_object l"
  "(p, l) \<in> set (member_leaves ms) \<Longrightarrow> \<not> is_object l"
  by (induction j and ms arbitrary: p l and p l rule: leaves_member_leaves.induct) auto

lemma leaf_restr: "\<not> is_object l \<Longrightarrow> restr P l = l"
  by (cases l) auto

lemma restr_members_empty [simp]: "restr_members {} ms = []"
  by (induction ms) auto

lemma restr_members_keys: "fst ` set (restr_members P ms) \<subseteq> fst ` set ms"
proof (induction ms)
  case (Cons m ms)
  then show ?case by (cases m) (simp, blast)
qed simp

lemma map_of_restr_members:
  "distinct (map fst ms) \<Longrightarrow> map_of (restr_members P ms) k =
     (case map_of ms k of None \<Rightarrow> None
      | Some v \<Rightarrow> if \<exists>p. k # p \<in> P then Some (restr {p. k # p \<in> P} v) else None)"
proof (induction ms)
  case (Cons m ms)
  obtain k' v' where m: "m = (k', v')" by force
  have none: "map_of (restr_members P ms) k = None" if "k \<notin> fst ` set ms"
    using that restr_members_keys [of P ms] by (auto simp: map_of_eq_None_iff)
  show ?case
  proof (cases "k = k'")
    case True
    with Cons.prems m have "k \<notin> fst ` set ms" by simp
    with none True m show ?thesis by simp
  next
    case False
    with Cons m show ?thesis by simp
  qed
qed simp

lemma restr_members_other: "k \<notin> fst ` set ms \<Longrightarrow> restr_members (insert (k # p) P) ms = restr_members P ms"
  by (induction ms) (auto split: if_splits)

lemma smap_put_less: "\<forall>x \<in> fst ` set m. k < x \<Longrightarrow> smap_put k v m = (k, v) # m"
  by (cases m) auto

lemma restr_members_insert:
  assumes "smap_wf ms" "map_of ms k = Some v"
  shows "restr_members (insert (k # p) P) ms = smap_put k (restr (insert p {q. k # q \<in> P}) v) (restr_members P ms)"
  using assms
proof (induction ms)
  case (Cons m ms)
  obtain k' v' where m: "m = (k', v')" by force
  have wf: "smap_wf ms" and lt: "\<forall>x \<in> fst ` set ms. k' < x"
    using Cons.prems m by (auto simp: smap_wf_def)
  show ?case
  proof (cases "k = k'")
    case True
    then have "k \<notin> fst ` set ms" using lt by auto
    moreover have "{q. q = p \<or> k # q \<in> P} = insert p {q. k # q \<in> P}" by auto
    moreover have "\<forall>x \<in> fst ` set (restr_members P ms). k < x"
      using lt True restr_members_keys [of P ms] by blast
    ultimately show ?thesis using m True Cons.prems
      by (auto simp: restr_members_other smap_put_less)
  next
    case False
    with Cons.prems m have mo: "map_of ms k = Some v" by simp
    then have "k' < k" using lt by (metis fst_conv imageI map_of_SomeD)
    with Cons.IH [OF wf mo] m False show ?thesis by auto
  qed
qed simp

lemma smap_put_put [simp]: "smap_put k a (smap_put k b m) = smap_put k a m"
  by (induction m) auto

lemma smap_wf_Cons: "smap_wf ((k, v) # ms) \<longleftrightarrow> smap_wf ms \<and> (\<forall>x \<in> fst ` set ms. k < x)"
  by (auto simp: smap_wf_def)

lemma member_leaves_set:
  "(p, l) \<in> set (member_leaves ms) \<longleftrightarrow> (\<exists>k v q. (k, v) \<in> set ms \<and> p = k # q \<and> (q, l) \<in> set (leaves v))"
  by (induction ms) force+

lemma regular_members_iff:
  "regular_members J ms \<longleftrightarrow> (\<forall>(k, v) \<in> set ms. k \<noteq> [] \<and> CHR ''.'' \<notin> set k \<and> regular J v)"
  by (induction ms) auto

lemma insert_leaf:
  assumes "regular J j" "(p, l) \<in> set (leaves j)" "is_object j"
  shows "insert_parts p l (restr P j) = Some (Inr (restr (insert p P) j))"
  using assms
proof (induction p arbitrary: j P)
  case Nil
  then show ?case by (cases j) (auto simp: member_leaves_set)
next
  case (Cons k p)
  then obtain ms where j: "j = JObj ms" by (cases j) auto
  with Cons.prems obtain v where v: "(k, v) \<in> set ms" "(p, l) \<in> set (leaves v)" and wf: "smap_wf ms"
    and reg: "regular J v" by (auto simp: member_leaves_set regular_members_iff)
  have mo: "map_of ms k = Some v" using v(1) smap_wf_distinct [OF wf] by (simp add: map_of_eq_Some_iff)
  note hyp = Cons.IH [OF reg v(2)]
  note ins = restr_members_insert [OF wf mo, of p P]
  note look = map_of_restr_members [OF smap_wf_distinct [OF wf], of P k]
  show ?case
  proof (cases p)
    case Nil
    then have "v = l" using v(2) by (cases v) (auto simp: member_leaves_set)
    moreover have "\<not> is_object l" using leaf_not_object(1) [OF v(2)] .
    ultimately show ?thesis using j ins Nil by (simp add: leaf_restr)
  next
    case (Cons q ps)
    have ov: "is_object v" using v(2) Cons by (cases v) auto
    note IH = hyp [OF ov]
    show ?thesis
    proof (cases "\<exists>p. k # p \<in> P")
      case True
      then have "map_of (restr_members P ms) k = Some (restr {p. k # p \<in> P} v)" using look mo by simp
      then show ?thesis using j ins Cons IH [of "{p. k # p \<in> P}"] by (simp add: contains_def)
    next
      case False
      then have "map_of (restr_members P ms) k = None" "{p. k # p \<in> P} = {}" using look mo by auto
      moreover have "restr {} v = JObj []" using ov by (cases v) auto
      ultimately show ?thesis using j ins Cons IH [of "{}"] by (simp add: contains_def smap_get_put)
    qed
  qed
qed

text \<open>All leaf paths together reach the whole tree.\<close>

lemma leaves_not_Nil: "regular J j \<Longrightarrow> leaves j \<noteq> []" "regular_members J ms \<Longrightarrow> ms \<noteq> [] \<Longrightarrow> member_leaves ms \<noteq> []"
  by (induction J j and J ms rule: regular_regular_members.induct) auto

lemma restr_members_cong:
  "\<forall>k p. k \<in> fst ` set ms \<longrightarrow> (k # p \<in> P \<longleftrightarrow> k # p \<in> Q) \<Longrightarrow> restr_members P ms = restr_members Q ms"
  by (induction ms) auto

lemma restr_all:
  "regular J j \<Longrightarrow> restr (fst ` set (leaves j)) j = j"
  "regular_members J ms \<Longrightarrow> smap_wf ms \<Longrightarrow> restr_members (fst ` set (member_leaves ms)) ms = ms"
proof (induction J j and J ms rule: regular_regular_members.induct)
  case (8 J k v ms)
  have fresh: "k \<notin> fst ` set ms" using 8(4) by (auto simp: smap_wf_Cons)
  let ?P = "fst ` set (member_leaves ((k, v) # ms))"
  have "{p. k # p \<in> ?P} = fst ` set (leaves v)"
    using fresh by (force simp: member_leaves_set image_iff)
  moreover from this have "\<exists>p. k # p \<in> ?P"
    using leaves_not_Nil(1) [of J v] 8(3) by (cases "leaves v") auto
  moreover have "restr_members ?P ms = restr_members (fst ` set (member_leaves ms)) ms"
    using fresh by (intro restr_members_cong) force
  ultimately show ?case using 8 by (simp add: smap_wf_Cons)
qed auto

text \<open>The keys of a regular tree are its paths joined by dots, and they determine the paths.\<close>

lemma join_head: "join sep ((a @ b) # p) = a @ join sep (b # p)"
  by (cases p) auto

lemma path_key_prefix:
  "\<forall>k \<in> set p. k \<noteq> [] \<Longrightarrow> prefix \<noteq> [] \<Longrightarrow> path_key prefix p = join ''.'' (prefix # p)"
proof (induction p arbitrary: prefix)
  case (Cons k p)
  then show ?case using join_head [of "''.''" "prefix @ ''.''" k p] by (simp add: child_key_def)
qed simp

lemma path_key_join: "\<forall>k \<in> set p. k \<noteq> [] \<Longrightarrow> path_key [] p = join ''.'' p"
  by (cases p) (auto simp: child_key_def path_key_prefix)

lemma leaf_path_regular:
  "regular J j \<Longrightarrow> (p, l) \<in> set (leaves j) \<Longrightarrow>
     (\<forall>k \<in> set p. k \<noteq> [] \<and> CHR ''.'' \<notin> set k) \<and> regular J l"
  "regular_members J ms \<Longrightarrow> (p, l) \<in> set (member_leaves ms) \<Longrightarrow>
     (\<forall>k \<in> set p. k \<noteq> [] \<and> CHR ''.'' \<notin> set k) \<and> regular J l"
  by (induction J j and J ms arbitrary: p l and p l rule: regular_regular_members.induct) fastforce+

lemma leaf_path_split:
  assumes "regular J j" "is_object j" "(p, l) \<in> set (leaves j)"
  shows "getline_split CHR ''.'' (path_key [] p) = p"
proof -
  have "p \<noteq> []" using assms by (cases j) (auto simp: member_leaves_set)
  with leaf_path_regular(1) [OF assms(1,3)] show ?thesis
    by (simp add: path_key_join join_split)
qed

lemma distinct_leaves:
  "regular J j \<Longrightarrow> distinct (map fst (leaves j))"
  "regular_members J ms \<Longrightarrow> smap_wf ms \<Longrightarrow> distinct (map fst (member_leaves ms))"
proof (induction J j and J ms rule: regular_regular_members.induct)
  case (8 J k v ms)
  have "distinct (map fst (map (\<lambda>(p, l). (k # p, l)) (leaves v)))"
    using 8 by (simp add: comp_def case_prod_unfold distinct_map inj_on_def)
  moreover have "(k # p, l) \<notin> set (member_leaves ms)" for p l
    using 8(4) by (force simp: smap_wf_Cons member_leaves_set)
  ultimately show ?case using 8 by (auto simp: smap_wf_Cons)
qed auto

definition flat_leaves :: "json_lib \<Rightarrow> json \<Rightarrow> cfg_map" where
  "flat_leaves J j = map (\<lambda>(p, l). (path_key [] p, leaf_text J l)) (leaves j)"

lemma flatten_flat_leaves:
  assumes "regular J j" "is_object j"
  shows "flattenJson J [] j [] = flat_leaves J j"
proof -
  have "inj_on (path_key []) (fst ` set (leaves j))"
    using leaf_path_split [OF assms] by (auto simp: inj_on_def) (metis)+
  then have "distinct (map fst (flat_leaves J j))"
    using distinct_leaves(1) [OF assms(1)]
    by (simp add: flat_leaves_def comp_def case_prod_unfold distinct_map comp_inj_on_iff [symmetric])
       (simp add: inj_on_def)
  then show ?thesis
    using umap_put_all_fresh [of "[]" "flat_leaves J j"] by (simp add: flatten_leaves flat_leaves_def)
qed


text \<open>The laws of the JSON library that the leaves of a tree need.\<close>

definition leaves_readable :: "json_lib \<Rightarrow> json \<Rightarrow> bool" where
  "leaves_readable J j \<longleftrightarrow>
     (\<forall>(p, l) \<in> set (leaves j). case l of JStr s \<Rightarrow> True | _ \<Rightarrow> parse J (dump J l) = Some l)"

lemma cfg_value_leaf:
  assumes "regular J j" "leaves_readable J j" "(p, l) \<in> set (leaves j)"
  shows "cfg_value J (leaf_text J l) = l"
proof -
  have "regular J l" "\<not> is_object l"
    using leaf_path_regular(1) [OF assms(1,3)] leaf_not_object(1) [OF assms(3)] by auto
  moreover have "case l of JStr s \<Rightarrow> True | _ \<Rightarrow> parse J (dump J l) = Some l"
    using assms(2,3) by (auto simp: leaves_readable_def)
  ultimately show ?thesis by (cases l) (auto simp: cfg_value_def)
qed

lemma unflatten_leaves:
  assumes reg: "regular J j" "is_object j" "leaves_readable J j"
    and sub: "set pls \<subseteq> set (leaves j)"
  shows "unflatten_from J (map (\<lambda>(p, l). (path_key [] p, leaf_text J l)) pls) (restr P j) =
           Some (Inr (restr (fst ` set pls \<union> P) j))"
  using sub
proof (induction pls arbitrary: P)
  case (Cons pl pls)
  obtain p l where pl: "pl = (p, l)" by force
  with Cons.prems have inl: "(p, l) \<in> set (leaves j)" by simp
  have "fst ` set pls \<union> insert p P = fst ` set (pl # pls) \<union> P" using pl by auto
  then show ?case
    using Cons.IH [of "insert p P"] Cons.prems pl leaf_path_split [OF reg(1,2) inl]
      cfg_value_leaf [OF reg(1,3) inl] insert_leaf [OF reg(1) inl reg(2), of P]
    by simp
qed simp

lemma insert_parts_null:
  "p \<noteq> [] \<Longrightarrow> insert_parts p v JNull = insert_parts p v (JObj [])"
  by (induction p v JNull rule: insert_parts.induct) (auto simp: contains_def)

lemma unflatten_from_null:
  assumes "m \<noteq> []" "\<forall>kv \<in> set m. getline_split CHR ''.'' (fst kv) \<noteq> []"
  shows "unflatten_from J m JNull = unflatten_from J m (JObj [])"
proof (cases m)
  case (Cons kv m')
  with assms show ?thesis by (cases kv) (auto simp: insert_parts_null)
qed (use assms in simp)

lemma mset_map_list: "image_mset f M = mset m \<Longrightarrow> \<exists>xs. m = map f xs \<and> mset xs = M"
proof (induction m arbitrary: M)
  case (Cons b m)
  then obtain M1 a where "M = add_mset a M1" "f a = b" "image_mset f M1 = mset m"
    using msed_map_invR [of f M b "mset m"] by auto
  with Cons.IH [of M1] show ?case by (metis list.simps(9) mset.simps(2))
qed simp

lemma unflatten_permuted:
  assumes reg: "regular J j" "is_object j" "leaves_readable J j"
    and perm: "mset m = mset (flat_leaves J j)"
  shows "unflattenMap J m = Some (Inr j)"
proof -
  have "mset m = image_mset (\<lambda>(p, l). (path_key [] p, leaf_text J l)) (mset (leaves j))"
    using perm by (simp add: flat_leaves_def)
  then obtain pls where pls: "m = map (\<lambda>(p, l). (path_key [] p, leaf_text J l)) pls" "mset pls = mset (leaves j)"
    using mset_map_list [of _ "mset (leaves j)" m] by metis
  have st: "set pls = set (leaves j)" using pls(2) by (metis set_mset_mset)
  have "unflatten_from J m (restr {} j) = Some (Inr j)"
    using unflatten_leaves [OF reg, of pls "{}"] restr_all(1) [OF reg(1)] pls(1) st by simp
  moreover have "restr {} j = JObj []" using reg(2) by (cases j) auto
  moreover have "m \<noteq> []" using leaves_not_Nil(1) [OF reg(1)] st pls(1) by auto
  moreover have "\<forall>kv \<in> set m. getline_split CHR ''.'' (fst kv) \<noteq> []"
  proof
    fix kv assume "kv \<in> set m"
    then obtain p l where pl: "(p, l) \<in> set (leaves j)" "kv = (path_key [] p, leaf_text J l)"
      using pls(1) st by auto
    moreover have "p \<noteq> []" using pl(1) reg(2) by (cases j) (auto simp: member_leaves_set)
    ultimately show "getline_split CHR ''.'' (fst kv) \<noteq> []"
      using leaf_path_split [OF reg(1,2) pl(1)] by simp
  qed
  ultimately show ?thesis by (simp add: unflattenMap_def unflatten_from_null)
qed

subsection \<open>Properties\<close>

text \<open>C25: Rebuilding the tree from the flat map inverts flattening, in whatever order the hash map is
  iterated, for every regular object whose non-string leaves the JSON library prints and parses back.\<close>

theorem config_flatten_roundtrip:
  assumes "regular J j" "is_object j" "leaves_readable J j"
    and "mset m = mset (flattenJson J [] j [])"
  shows "unflattenMap J m = Some (Inr j)"
  using assms by (intro unflatten_permuted) (simp_all add: flatten_flat_leaves)

text \<open>The saved file holds the tree, and loading it gives the same entries, for any driver that keeps the
  contract.\<close>

context base_driver
begin

lemma save_load:
  assumes reg: "regular J j" "is_object j" "leaves_readable J j"
    and perm: "mset (cfg c) = mset (flattenJson J [] j [])"
    and lib: "parse J (dump4 J j) = Some j"
    and drv: "has_driver c" "readable (configFilePath c)"
    and put: "d_put D (configFilePath c) (dump4 J j) fs = (Inr (), fs')" "written (configFilePath c) (dump4 J j) fs = dump4 J j"
  shows "save J D fs c = Some (Inr (), fs') \<and> snd (load J D fs' c) = None
    \<and> map_of (cfg (fst (load J D fs' c))) = map_of (cfg c)"
proof -
  have "unflattenMap J (cfg c) = Some (Inr j)"
    using reg perm by (intro unflatten_permuted) (simp_all add: flatten_flat_leaves)
  moreover have "d_get D (configFilePath c) fs' = Inr (dump4 J j)" "d_exists D (configFilePath c) fs'"
    using put_get [OF put(1) drv(2)] put(2) put_exists [OF put(1)] by auto
  moreover have "map_of (flattenJson J [] j []) = map_of (cfg c)"
  proof -
    have "distinct (map fst (flattenJson J [] j []))"
      unfolding flatten_leaves using umap.wf_fold_put [of "[]"] by (simp add: umap_wf_def umap.wf_empty)
    then show ?thesis using perm by (metis map_of_inject_set mset_map set_mset_mset distinct_count_atmost_1)
  qed
  ultimately show ?thesis using drv put lib by (simp add: save_def load_def)
qed

end

text \<open>Saving through the file driver and loading again succeeds and gives back the same entries, when the
  configuration is the flat form of a regular object, whatever the iteration order, and the medium takes the whole file.\<close>

theorem config_saved_reloads:
  assumes "regular J j" "is_object j" "leaves_readable J j"
    and "mset (cfg c) = mset (flattenJson J [] j [])"
    and "parse J (dump4 J j) = Some j"
    and "has_driver c" "may_read os (fullPath os d (configFilePath c))"
    and "FileDriver_put os d (configFilePath c) (dump4 J j) fs = (Inr (), fs')"
    and "length (dump4 J j) \<le> taken_of os d (configFilePath c) (dump4 J j) fs"
  shows "save J (FileDriver os d) fs c = Some (Inr (), fs')
    \<and> snd (load J (FileDriver os d) fs' c) = None
    \<and> map_of (cfg (fst (load J (FileDriver os d) fs' c))) = map_of (cfg c)"
  using file_store.save_load [of J j c os d fs fs'] assms by (simp add: FileDriver_def)

lemma map_of_filter_keys: "map_of (filter (\<lambda>(k, v). P k) m) k = (if P k then map_of m k else None)"
  by (induction m) auto

lemma map_of_erase_all: "map_of (fold umap_erase ks m) k = (if k \<in> set ks then None else map_of m k)"
  by (induction ks arbitrary: m) (auto simp: kv_simps)

lemma removeNested_entries:
  "map_of (fold umap_erase (filter (under path) (map fst m)) m) k = (if under path k then None else map_of m k)"
  using map_of_dom [of m k] by (auto simp: map_of_erase_all)

lemma hasNestedPath_iff: "hasNestedPath path c \<longleftrightarrow> (\<exists>k \<in> fst ` set (cfg c). under path k)"
  unfolding hasNestedPath_def under_def map_of_dom set_map by blast

text \<open>Without auto-save \<^verbatim>\<open>removeNested\<close> reports whether the path held anything, leaves nothing at or below the path, and
  leaves every other entry as it was.\<close>

theorem removeNested_correct:
  assumes "\<not> autoSave c"
  shows "\<exists>c'. removeNested J D path c fs = Some (hasNestedPath path c, c', None, fs)
    \<and> \<not> hasNestedPath path c'
    \<and> (\<forall>k. map_of (cfg c') k = (if under path k then None else map_of (cfg c) k))"
proof -
  let ?rm = "filter (under path) (map fst (cfg c))"
  let ?c = "c\<lparr>cfg := fold umap_erase ?rm (cfg c)\<rparr>"
  have empty: "?rm = [] \<longleftrightarrow> \<not> hasNestedPath path c"
    unfolding hasNestedPath_iff filter_empty_conv set_map by blast
  show ?thesis
  proof (cases "?rm = []")
    case True
    then have "\<not> hasNestedPath path c" using empty by simp
    moreover from this have "map_of (cfg c) k = (if under path k then None else map_of (cfg c) k)" for k
      unfolding hasNestedPath_iff using map_of_dom [of "cfg c" k] by auto
    ultimately show ?thesis using True by (intro exI [of _ c]) (simp add: removeNested_def)
  next
    case False
    then have "removeNested J D path c fs = Some (hasNestedPath path c, ?c, None, fs)"
      using assms empty by (simp add: removeNested_def autosave_def Let_def)
    moreover have "\<not> hasNestedPath path ?c"
    proof
      assume "hasNestedPath path ?c"
      then obtain k where k: "k \<in> fst ` set (cfg ?c)" "under path k" unfolding hasNestedPath_iff by blast
      from k(1) have "map_of (cfg ?c) k \<noteq> None" by (simp only: map_of_dom not_not)
      with k(2) show False by (simp add: removeNested_entries)
    qed
    ultimately show ?thesis by (intro exI [of _ ?c]) (simp add: removeNested_entries)
  qed
qed

text \<open>Clearing a configuration, saving and loading it leaves an entry with the empty key, and saving that
  is undefined: the empty map is written as \<^verbatim>\<open>null\<close>, which loads as the value of the empty key, and
  the rebuilding loop then runs past its empty list of parts.\<close>

theorem cleared_config_breaks:
  assumes "parse J (dump4 J JNull) = Some JNull"
    and "has_driver c" "\<not> autoSave c" "may_read os (fullPath os d (configFilePath c))"
    and "FileDriver_put os d (configFilePath c) (dump4 J JNull) fs = (Inr (), fs')"
    and "length (dump4 J JNull) \<le> taken_of os d (configFilePath c) (dump4 J JNull) fs"
  shows "\<exists>c1 c2. clear J (FileDriver os d) c fs = Some (c1, None, fs)
    \<and> save J (FileDriver os d) fs c1 = Some (Inr (), fs')
    \<and> load J (FileDriver os d) fs' c1 = (c2, None)
    \<and> has [] c2 \<and> save J (FileDriver os d) fs' c2 = None"
proof -
  let ?D = "FileDriver os d" let ?c = "c\<lparr>cfg := []\<rparr>" let ?c2 = "c\<lparr>cfg := [([], dump J JNull)]\<rparr>"
  have put: "d_put ?D (configFilePath c) (dump4 J JNull) fs = (Inr (), fs')"
    using assms(5) by (simp add: FileDriver_def)
  have "clear J ?D c fs = Some (?c, None, fs)" using assms(3) by (simp add: clear_def autosave_def)
  moreover have "save J ?D fs ?c = Some (Inr (), fs')"
    using assms(2) put by (simp add: save_def unflattenMap_def)
  moreover have "load J ?D fs' ?c = (?c2, None)"
    using assms(1,2,6) file_store.put_get [OF put assms(4)] file_store.put_exists [OF put] by (simp add: load_def)
  moreover have "has [] ?c2" by (simp add: has_def)
  moreover have "save J ?D fs' ?c2 = None" using assms(2) by (simp add: save_def unflattenMap_def)
  ultimately show ?thesis by blast
qed

subsection \<open>Witnesses\<close>

definition sample_tree :: json where
  "sample_tree = JObj [(''db'', JObj [(''host'', JStr ''h''), (''port'', JNum ''1'')]), (''on'', JBool True)]"

definition sample_json :: json_lib where
  "sample_json = \<lparr>
     dump = (\<lambda>j. case j of JNum n \<Rightarrow> n | JBool True \<Rightarrow> ''true'' | JBool False \<Rightarrow> ''false'' | _ \<Rightarrow> ''null''),
     dump4 = (\<lambda>j. if j = JNull then ''null'' else ''doc''),
     parse = (\<lambda>s. if s = ''1'' then Some (JNum ''1'') else if s = ''true'' then Some (JBool True)
       else if s = ''null'' then Some JNull else if s = ''doc'' then Some sample_tree else None),
     to_int = (\<lambda>_. None), to_bool = (\<lambda>_. None)\<rparr>"

definition sample_config :: config where
  "sample_config = \<lparr>has_driver = True, configFilePath = ''config.json'',
     cfg = [(''on'', ''true''), (''db.port'', ''1''), (''db.host'', ''h'')], autoSave = False\<rparr>"

lemma sample_regular: "regular sample_json sample_tree" "is_object sample_tree" "leaves_readable sample_json sample_tree"
  by code_simp+

lemma sample_perm: "mset (cfg sample_config) = mset (flattenJson sample_json [] sample_tree [])"
proof -
  have "flattenJson sample_json [] sample_tree [] = [(''db.host'', ''h''), (''db.port'', ''1''), (''on'', ''true'')]"
    by code_simp
  then show ?thesis by (simp add: sample_config_def)
qed

lemma sample_put:
  "FileDriver_put sample_os sample_driver ''config.json'' t sample_fs =
     (Inr (), sample_fs @ [([''srv'', ''config.json''], File t)])"
  by code_simp simp

lemma sample_taken: "taken_of sample_os d p t fs = length t"
  by (simp add: taken_of_def sample_os_def)

theorem config_flatten_roundtrip_witness:
  "unflattenMap sample_json (cfg sample_config) = Some (Inr sample_tree)"
  by (rule config_flatten_roundtrip [OF sample_regular sample_perm])

theorem config_saved_reloads_witness:
  "\<exists>fs'. save sample_json (FileDriver sample_os sample_driver) sample_fs sample_config = Some (Inr (), fs')
     \<and> map_of (cfg (fst (load sample_json (FileDriver sample_os sample_driver) fs' sample_config))) = map_of (cfg sample_config)"
proof -
  have h: "parse sample_json (dump4 sample_json sample_tree) = Some sample_tree" "has_driver sample_config"
    "may_read sample_os (fullPath sample_os sample_driver (configFilePath sample_config))" by code_simp+
  have p: "FileDriver_put sample_os sample_driver (configFilePath sample_config) (dump4 sample_json sample_tree) sample_fs =
     (Inr (), sample_fs @ [([''srv'', ''config.json''], File (dump4 sample_json sample_tree))])"
    by (simp add: sample_config_def sample_put)
  show ?thesis using config_saved_reloads [OF sample_regular sample_perm h p] by (simp add: sample_taken)
qed

theorem removeNested_correct_witness:
  "\<exists>c'. removeNested sample_json (FileDriver sample_os sample_driver) ''db'' sample_config sample_fs =
     Some (True, c', None, sample_fs) \<and> map_of (cfg c') ''on'' = Some ''true''"
proof -
  have a: "\<not> autoSave sample_config" "hasNestedPath ''db'' sample_config = True"
    "\<not> under ''db'' ''on''" "map_of (cfg sample_config) ''on'' = Some ''true''" by code_simp+
  show ?thesis using removeNested_correct [OF a(1), of sample_json "FileDriver sample_os sample_driver" "''db''" sample_fs] a
    by auto
qed

theorem cleared_config_breaks_witness:
  "\<exists>fs' c2. has [] c2 \<and> save sample_json (FileDriver sample_os sample_driver) fs' c2 = None"
proof -
  have h: "parse sample_json (dump4 sample_json JNull) = Some JNull" "has_driver sample_config" "\<not> autoSave sample_config"
    "may_read sample_os (fullPath sample_os sample_driver (configFilePath sample_config))" by code_simp+
  have p: "FileDriver_put sample_os sample_driver (configFilePath sample_config) (dump4 sample_json JNull) sample_fs =
     (Inr (), sample_fs @ [([''srv'', ''config.json''], File (dump4 sample_json JNull))])"
    by (simp add: sample_config_def sample_put)
  have "length (dump4 sample_json JNull) \<le> taken_of sample_os sample_driver (configFilePath sample_config) (dump4 sample_json JNull) sample_fs"
    by (simp add: sample_taken)
  from cleared_config_breaks [OF h p this] show ?thesis by blast
qed

end
