(* ===== verification/HttpsConfig.thy ===== *)
theory HttpsConfig
  imports ConfigManager "HOL-Library.Word" "HOL-Library.Signed_Division"
begin

text \<open>
  \<^verbatim>\<open>src/HttpsServerConfig.cpp\<close> and \<^verbatim>\<open>src/Platform/\<close>: how the HTTPS server derives its limits from the
  configuration, the memory of the machine and its descriptor limit. The C++ integers keep their
  width: \<^verbatim>\<open>int\<close> is \<open>32 word\<close> and \<^verbatim>\<open>std::int64_t\<close> is \<open>64 word\<close>, both read as signed, with two's complement
  wrap-around; division truncates towards zero. Logging calls are left out.
\<close>

type_synonym int32 = "32 word"
type_synonym int64 = "64 word"

subsection \<open>Signed machine arithmetic\<close>

definition sdiv_w :: "'a::len word \<Rightarrow> 'a word \<Rightarrow> 'a word" where
  "sdiv_w a b = word_of_int (sint a sdiv sint b)"

definition to_int64 :: "int32 \<Rightarrow> int64" where
  "to_int64 x = word_of_int (sint x)"

definition to_int32 :: "int64 \<Rightarrow> int32" where
  "to_int32 x = word_of_int (sint x)"

subsection \<open>The platform layer\<close>

definition RLIM_INFINITY :: nat where
  "RLIM_INFINITY = 2 ^ 64 - 1"

text \<open>\<^verbatim>\<open>getrlimit\<close> answers with the soft and the hard limit, or fails. The cast to \<^verbatim>\<open>int\<close> keeps 32 bits.\<close>

definition get_fd_limit :: "(nat \<times> nat) option \<Rightarrow> int32" where
  "get_fd_limit rl =
     (case rl of
        None \<Rightarrow> 1024
      | Some (cur, mx) \<Rightarrow>
          if cur = RLIM_INFINITY then (if mx = RLIM_INFINITY then 65536 else word_of_nat mx)
          else word_of_nat cur)"

definition get_fd_limit_windows :: int32 where
  "get_fd_limit_windows = 16384"

text \<open>\<^verbatim>\<open>sysinfo\<close> gives a number of units and their size; the product is taken in 64 bits.\<close>

definition get_system_memory_mb :: "(64 word \<times> 64 word) option \<Rightarrow> int32" where
  "get_system_memory_mb si =
     (case si of None \<Rightarrow> 1024 | Some (totalram, unit_size) \<Rightarrow> word_of_nat (unat (totalram * unit_size) div (1024 * 1024)))"

definition get_system_memory_mb_macos :: "64 word option \<Rightarrow> int32" where
  "get_system_memory_mb_macos m = (case m of None \<Rightarrow> 1024 | Some memsize \<Rightarrow> word_of_nat (unat memsize div (1024 * 1024)))"

definition get_thread_count :: "int32 \<Rightarrow> int32" where
  "get_thread_count hardware_concurrency = (if 0 < sint hardware_concurrency then hardware_concurrency else 1)"

definition get_worker_count :: "int32 \<Rightarrow> int32" where
  "get_worker_count hardware_concurrency = (if 0 < sint hardware_concurrency then hardware_concurrency else 1)"

text \<open>On macOS the same with another value for no limit.\<close>

definition RLIM_INFINITY_macos :: nat where
  "RLIM_INFINITY_macos = 2 ^ 63 - 1"

definition get_fd_limit_macos :: "(nat \<times> nat) option \<Rightarrow> int32" where
  "get_fd_limit_macos rl =
     (case rl of
        None \<Rightarrow> 1024
      | Some (cur, mx) \<Rightarrow>
          if cur = RLIM_INFINITY_macos then (if mx = RLIM_INFINITY_macos then 65536 else word_of_nat mx)
          else word_of_nat cur)"

text \<open>The socket options of the three platforms, on the result of \<^verbatim>\<open>setsockopt\<close>, and the warnings of
  \<^verbatim>\<open>HttpsServer::initialize\<close> for a worker.\<close>

datatype platform = Linux | MacOS | Windows

fun has_reuse_port :: "platform \<Rightarrow> bool" where
  "has_reuse_port Windows = False"
| "has_reuse_port _ = True"

fun has_defer_accept :: "platform \<Rightarrow> bool" where
  "has_defer_accept Linux = True"
| "has_defer_accept _ = False"

fun set_reuse_port :: "platform \<Rightarrow> int \<Rightarrow> bool" where
  "set_reuse_port Windows rc = False"
| "set_reuse_port _ rc = (rc = 0)"

fun set_defer_accept :: "platform \<Rightarrow> int \<Rightarrow> bool" where
  "set_defer_accept Linux rc = (rc = 0)"
| "set_defer_accept _ rc = False"

definition socket_warnings :: "platform \<Rightarrow> int \<Rightarrow> int \<Rightarrow> nat \<Rightarrow> string list" where
  "socket_warnings p reuse_rc defer_rc i =
     (if \<not> set_reuse_port p reuse_rc \<and> has_reuse_port p then [''SO_REUSEPORT setsockopt failed on worker '' @ show_nat i] else []) @
     (if \<not> set_defer_accept p defer_rc \<and> has_defer_accept p then [''TCP_DEFER_ACCEPT setsockopt failed on worker '' @ show_nat i] else [])"

text \<open>A platform without an option gives no warning for it, whatever the call would return.\<close>

lemma no_warning_without_support:
  "socket_warnings Windows a b i = []" "socket_warnings MacOS 0 b i = []"
  "socket_warnings Linux a b i = [] \<longleftrightarrow> a = 0 \<and> b = 0"
  by (simp_all add: socket_warnings_def)

subsection \<open>Memory budgets\<close>

definition compute_max_body_size :: "int32 \<Rightarrow> int32 \<Rightarrow> int32" where
  "compute_max_body_size ram_mb max_conn0 =
     (let kMinBody = 64 * 1024; kMaxBodyCap = 16 * 1024 * 1024;
          max_conn = (if sint max_conn0 \<le> 0 then 1 else max_conn0);
          ram_bytes = to_int64 ram_mb * 1024 * 1024;
          budget = sdiv_w (ram_bytes * 25) 100;
          per_conn = sdiv_w budget (to_int64 max_conn);
          per_conn = (if sint per_conn < sint (kMinBody :: int64) then kMinBody else per_conn);
          per_conn = (if sint per_conn > sint (kMaxBodyCap :: int64) then kMaxBodyCap else per_conn)
      in to_int32 per_conn)"

definition compute_max_header_size :: "int32 \<Rightarrow> int32 \<Rightarrow> int32" where
  "compute_max_header_size ram_mb max_conn0 =
     (let kMinHeader = 4 * 1024; kMaxHeaderCap = 32 * 1024;
          max_conn = (if sint max_conn0 \<le> 0 then 1 else max_conn0);
          ram_bytes = to_int64 ram_mb * 1024 * 1024;
          budget = sdiv_w (ram_bytes * 1) 100;
          per_conn = sdiv_w budget (to_int64 max_conn);
          per_conn = (if sint per_conn < sint (kMinHeader :: int64) then kMinHeader else per_conn);
          per_conn = (if sint per_conn > sint (kMaxHeaderCap :: int64) then kMaxHeaderCap else per_conn)
      in to_int32 per_conn)"

subsection \<open>The server state and its configuration\<close>

record tls_config =
  cert_file :: string
  key_file :: string
  ca_file :: string
  cert_pem :: string
  key_pem :: string
  conf :: "(string \<times> string) list"
  require_client_cert :: bool
  verify_client_cert :: bool
  handshake_timeout :: int

record 'c https_server =
  keep_alive_timeout :: int
  max_body_size :: int32
  max_header_size :: int32
  max_connections :: int32
  ssl_ctx :: "'c option"
  tls :: tls_config
  tls_config_from_user :: bool
  server_name :: string
  hsts_header :: string
  hsts_enabled :: bool
  static_headers :: string

definition CRLF :: string where
  "CRLF = [CHR 0x0D, CHR 0x0A]"

definition default_tls :: tls_config where
  "default_tls = \<lparr>cert_file = [], key_file = [], ca_file = [], cert_pem = [], key_pem = [], conf = [],
     require_client_cert = False, verify_client_cert = False, handshake_timeout = 15\<rparr>"

definition HttpsServer :: "'c https_server" where
  "HttpsServer = \<lparr>keep_alive_timeout = 60, max_body_size = 1024 * 1024, max_header_size = 8 * 1024,
     max_connections = 10000, ssl_ctx = None, tls = default_tls, tls_config_from_user = False,
     server_name = ''brazier'', hsts_header = ''max-age=31536000'', hsts_enabled = True, static_headers = []\<rparr>"

definition setTlsConfig :: "tls_config \<Rightarrow> 'c https_server \<Rightarrow> 'c https_server" where
  "setTlsConfig t s = s\<lparr>tls := t, tls_config_from_user := True\<rparr>"

definition HttpsServer_tls :: "tls_config \<Rightarrow> 'c https_server" where
  "HttpsServer_tls t = HttpsServer\<lparr>tls := t, tls_config_from_user := True\<rparr>"

text \<open>\<^verbatim>\<open>get<int>\<close>: the JSON library's conversion, then 32 bits.\<close>

definition get_int :: "json_lib \<Rightarrow> config \<Rightarrow> string \<Rightarrow> int \<Rightarrow> int32" where
  "get_int J c key d = word_of_int (get_as J (to_int J) c key d)"

definition get_bool :: "json_lib \<Rightarrow> config \<Rightarrow> string \<Rightarrow> bool \<Rightarrow> bool" where
  "get_bool J c key d = get_as J (to_bool J) c key d"

definition load_common_config_from_global :: "json_lib \<Rightarrow> config \<Rightarrow> 'c https_server \<Rightarrow> 'c https_server" where
  "load_common_config_from_global J g s =
     (let s1 = s\<lparr>keep_alive_timeout := sint (get_int J g ''protocol.keep_alive_timeout'' 60),
                server_name := get_str g ''protocol.server_name'' ''brazier'',
                hsts_enabled := get_bool J g ''https_server.hsts.enabled'' True,
                hsts_header := get_str g ''https_server.hsts.header'' ''max-age=31536000''\<rparr>
      in s1\<lparr>static_headers := ''Server: '' @ server_name s1 @ CRLF @
             (if hsts_enabled s1 then ''Strict-Transport-Security: '' @ hsts_header s1 @ CRLF else [])\<rparr>)"

text \<open>The entries of \<^verbatim>\<open>https_server.tls.conf\<close>: those before a malformed one stay, the exception is logged.\<close>

definition conf_item :: "json \<Rightarrow> (string \<times> string) result" where
  "conf_item item =
     (case item of
        JArr [a] \<Rightarrow> bind_result (get_string a) (\<lambda>cmd. Inr (cmd, []))
      | JArr [a, b] \<Rightarrow> bind_result (get_string a) (\<lambda>cmd. bind_result (get_string b) (\<lambda>val. Inr (cmd, val)))
      | _ \<Rightarrow> Inl (runtime_error ''https_server.tls.conf: each entry must be [command] or [command, value]''))"

fun load_conf_items :: "json list \<Rightarrow> (string \<times> string) list \<Rightarrow> (string \<times> string) list" where
  "load_conf_items [] acc = acc"
| "load_conf_items (item # items) acc =
     (case conf_item item of Inl e \<Rightarrow> acc | Inr p \<Rightarrow> load_conf_items items (acc @ [p]))"

definition load_conf :: "json_lib \<Rightarrow> config \<Rightarrow> (string \<times> string) list \<Rightarrow> (string \<times> string) list" where
  "load_conf J g acc =
     (case getJson J g ''https_server.tls.conf'' of
        Some (Inr (JArr items)) \<Rightarrow> load_conf_items items acc
      | _ \<Rightarrow> acc)"

definition load_tls_config_from_global :: "json_lib \<Rightarrow> config \<Rightarrow> 'c https_server \<Rightarrow> 'c https_server" where
  "load_tls_config_from_global J g s =
     (if tls_config_from_user s then s
      else s\<lparr>tls := (tls s)\<lparr>
        cert_pem := get_str g ''https_server.tls.cert_pem'' [],
        key_pem := get_str g ''https_server.tls.key_pem'' [],
        cert_file := get_str g ''https_server.tls.cert_file'' ''server.crt'',
        key_file := get_str g ''https_server.tls.key_file'' ''server.key'',
        ca_file := get_str g ''https_server.tls.ca_file'' [],
        require_client_cert := get_bool J g ''https_server.tls.require_client_cert'' False,
        verify_client_cert := get_bool J g ''https_server.tls.verify_client_cert'' False,
        handshake_timeout := sint (get_int J g ''https_server.tls.handshake_timeout'' 15),
        conf := load_conf J g (conf (tls s))\<rparr>\<rparr>)"

text \<open>One limit: the testing value, the configured one, or the computed one.\<close>

definition pick_limit :: "int32 \<Rightarrow> int32 \<Rightarrow> int32 \<Rightarrow> int32" where
  "pick_limit testing configured computed =
     (if 0 < sint testing then testing else if 0 < sint configured then configured else computed)"

definition load_limits_from_config :: "json_lib \<Rightarrow> config \<Rightarrow> int32 \<Rightarrow> int32 \<Rightarrow> 'c https_server \<Rightarrow> 'c https_server" where
  "load_limits_from_config J g ram_mb fd_limit s =
     (let conn = pick_limit (get_int J g ''protocol.max_connections_testing'' 0)
                   (get_int J g ''protocol.max_connections'' 0) (sdiv_w (fd_limit * 8) 10);
          body = pick_limit (get_int J g ''protocol.max_body_size_testing'' 0)
                   (get_int J g ''protocol.max_body_size'' 0) (compute_max_body_size ram_mb conn);
          hdr = pick_limit (get_int J g ''protocol.max_header_size_testing'' 0)
                   (get_int J g ''protocol.max_header_size'' 0) (compute_max_header_size ram_mb conn)
      in s\<lparr>max_connections := conn, max_body_size := body, max_header_size := hdr\<rparr>)"

subsection \<open>Registering the storage drivers\<close>

text \<open>The loop of \<^verbatim>\<open>initialize\<close> over \<^verbatim>\<open>filesystem.drivers\<close>: \<^verbatim>\<open>items()\<close> of a non-object gives the value itself
  under the empty name (nothing for null), of an array its elements under their indices.\<close>

fun json_items :: "json \<Rightarrow> (string \<times> json) list" where
  "json_items (JObj ms) = ms"
| "json_items (JArr js) = zip (map show_nat [0..<length js]) js"
| "json_items JNull = []"
| "json_items j = [([], j)]"

definition cfg_root :: "json \<Rightarrow> string result" where
  "cfg_root j =
     (case j of
        JObj ms \<Rightarrow> (case map_of ms ''root'' of None \<Rightarrow> Inr ''./'' | Some v \<Rightarrow> get_string v)
      | _ \<Rightarrow> Inl (json_error ''cannot use value()''))"

fun register_drivers :: "os \<Rightarrow> nat \<Rightarrow> (string \<times> json) list \<Rightarrow> file_driver storage_manager \<Rightarrow> fsys \<Rightarrow>
    exn option \<times> file_driver storage_manager \<times> fsys" where
  "register_drivers os n [] m fs = (None, m, fs)"
| "register_drivers os n ((name, c) # items) m fs =
     (if name = ''default'' then register_drivers os n items m fs
      else case cfg_root c of
             Inl e \<Rightarrow> (Some e, m, fs)
           | Inr root \<Rightarrow>
               (case FileDriver_setRootPath os root \<lparr>rootPath = [], ioPool = None\<rparr> fs of
                  (Inl e, _, fs') \<Rightarrow> (Some e, m, fs')
                | (Inr _, d, fs') \<Rightarrow>
                    register_drivers os n items (registerDriver name (Some (FileDriver_initAsync n d)) m) fs'))"

definition set_default :: "string \<Rightarrow> 'd storage_manager \<Rightarrow> 'd storage_manager" where
  "set_default def m = (if hasDriver def m then snd (setDefaultDriver def m) else m)"

subsection \<open>Arithmetic without wrap-around\<close>

lemma sint_int64: "- (2 ^ 63) \<le> x \<Longrightarrow> x < 2 ^ 63 \<Longrightarrow> sint (word_of_int x :: int64) = x"
  by (simp add: sint_sbintrunc' signed_take_bit_int_eq_self)

lemma sint_int64_abs: "\<bar>x\<bar> < 2 ^ 62 \<Longrightarrow> sint (word_of_int x :: int64) = x"
  by (rule sint_int64) simp_all

lemma sint_int32: "- (2 ^ 31) \<le> x \<Longrightarrow> x < 2 ^ 31 \<Longrightarrow> sint (word_of_int x :: int32) = x"
  by (simp add: sint_sbintrunc' signed_take_bit_int_eq_self)

lemma int32_range: "- (2 ^ 31) \<le> sint (x :: int32)" "sint (x :: int32) < 2 ^ 31"
  using sint_range_size [of x] by (simp_all add: word_size)

lemma sint_to_int64: "sint (to_int64 x) = sint x"
  unfolding to_int64_def using int32_range [of x] by (intro sint_int64) simp_all

lemma sint_to_int32: "- (2 ^ 31) \<le> sint x \<Longrightarrow> sint x < 2 ^ 31 \<Longrightarrow> sint (to_int32 x) = sint x"
  unfolding to_int32_def by (rule sint_int32)

lemma to_int64_word: "to_int64 r * 1024 * 1024 * word_of_int k = word_of_int (sint r * 1048576 * k)"
  by (simp add: to_int64_def)

lemma sdiv_bound: "0 < (b::int) \<Longrightarrow> \<bar>a sdiv b\<bar> \<le> \<bar>a\<bar>"
proof -
  assume "0 < b"
  then have "\<bar>a\<bar> div b \<le> \<bar>a\<bar>" using int_div_le_self [of "\<bar>a\<bar>" b] by (cases "a = 0") auto
  with \<open>0 < b\<close> show ?thesis by (cases "a = 0") (auto simp: signed_divide_int_def abs_mult pos_imp_zdiv_nonneg_iff)
qed

definition budget_of :: "int \<Rightarrow> int \<Rightarrow> int \<Rightarrow> int" where
  "budget_of pct ram_mb conns = (ram_mb * 1048576 * pct) sdiv 100 sdiv (if conns \<le> 0 then 1 else conns)"

definition clamp :: "int \<Rightarrow> int \<Rightarrow> int \<Rightarrow> int" where
  "clamp lo hi x = (if x < lo then lo else if hi < x then hi else x)"

lemma per_conn_exact:
  assumes "0 \<le> pct" "pct \<le> 25"
  shows "sint (sdiv_w (sdiv_w (word_of_int (sint (ram::int32) * 1048576 * pct)) 100)
            (to_int64 (if sint conns \<le> 0 then 1 else conns))) = budget_of pct (sint ram) (sint (conns::int32))"
proof -
  let ?x = "sint ram * 1048576 * pct" let ?c = "if sint conns \<le> 0 then 1 else sint conns"
  have "\<bar>sint ram\<bar> \<le> 2 ^ 31" using int32_range [of ram] by auto
  then have "\<bar>sint ram\<bar> * 1048576 * pct \<le> 2 ^ 31 * 1048576 * 25"
    using assms by (intro mult_mono) auto
  then have x: "\<bar>?x\<bar> < 2 ^ 62" using assms(1) by (simp add: abs_mult)
  have d: "\<bar>?x sdiv 100\<bar> < 2 ^ 62" using sdiv_bound [of 100 ?x] x by linarith
  have c: "0 < ?c" "?c < 2 ^ 31" using int32_range [of conns] by auto
  have dd: "\<bar>?x sdiv 100 sdiv ?c\<bar> < 2 ^ 62" using sdiv_bound [OF c(1), of "?x sdiv 100"] d by linarith
  have "sint (to_int64 (if sint conns \<le> 0 then 1 else conns)) = ?c"
    by (simp add: sint_to_int64)
  moreover have "sint (word_of_int ?x :: int64) = ?x" using x by (rule sint_int64_abs)
  moreover have "sint (word_of_int (?x sdiv 100) :: int64) = ?x sdiv 100" using d by (rule sint_int64_abs)
  moreover have "sint (word_of_int (?x sdiv 100 sdiv ?c) :: int64) = ?x sdiv 100 sdiv ?c"
    using dd by (rule sint_int64_abs)
  ultimately show ?thesis by (simp add: sdiv_w_def budget_of_def)
qed

lemma to_int32_clamp:
  assumes "sint x = b" "0 \<le> sint (lo::int64)" "sint lo \<le> sint hi" "sint hi < 2 ^ 31"
  shows "sint (to_int32 (let p = (if sint x < sint lo then lo else x)
           in if sint p > sint hi then hi else p)) = clamp (sint lo) (sint hi) b"
  using assms by (auto simp: Let_def clamp_def sint_to_int32)

lemma compute_max_body_size_exact:
  "sint (compute_max_body_size ram conns) = clamp 65536 16777216 (budget_of 25 (sint ram) (sint conns))"
proof -
  have w: "to_int64 ram * 1024 * 1024 * 25 = word_of_int (sint ram * 1048576 * 25)"
    using to_int64_word [of ram 25] by simp
  have k: "sint (64 * 1024 :: int64) = 65536" "sint (16 * 1024 * 1024 :: int64) = 16777216" by simp_all
  have e: "sint (sdiv_w (sdiv_w (word_of_int (sint ram * 1048576 * 25)) 100)
            (to_int64 (if sint conns \<le> 0 then 1 else conns))) = budget_of 25 (sint ram) (sint conns)"
    by (rule per_conn_exact) simp_all
  show ?thesis
    using to_int32_clamp [OF e, of "64 * 1024" "16 * 1024 * 1024"] unfolding k compute_max_body_size_def Let_def w by simp
qed

lemma compute_max_header_size_exact:
  "sint (compute_max_header_size ram conns) = clamp 4096 32768 (budget_of 1 (sint ram) (sint conns))"
proof -
  have w: "to_int64 ram * 1024 * 1024 * 1 = word_of_int (sint ram * 1048576 * 1)"
    using to_int64_word [of ram 1] by simp
  have k: "sint (4 * 1024 :: int64) = 4096" "sint (32 * 1024 :: int64) = 32768" by simp_all
  have e: "sint (sdiv_w (sdiv_w (word_of_int (sint ram * 1048576 * 1)) 100)
            (to_int64 (if sint conns \<le> 0 then 1 else conns))) = budget_of 1 (sint ram) (sint conns)"
    by (rule per_conn_exact) simp_all
  show ?thesis
    using to_int32_clamp [OF e, of "4 * 1024" "32 * 1024"] unfolding k compute_max_header_size_def Let_def w by simp
qed

text \<open>Above the minimum, all connections together stay within their share of the memory.\<close>

lemma budget_share:
  assumes "0 \<le> pct" "0 \<le> ram" "0 < conns"
  shows "conns * budget_of pct ram conns * 100 \<le> ram * 1048576 * pct"
proof -
  let ?x = "ram * 1048576 * pct"
  have x: "0 \<le> ?x" using assms by simp
  have nn: "0 \<le> ?x div 100" using x by (simp add: pos_imp_zdiv_nonneg_iff)
  have "budget_of pct ram conns = ?x div 100 div conns"
    using assms x nn by (auto simp: budget_of_def signed_divide_int_def sgn_if)
  moreover have "conns * (?x div 100 div conns) \<le> ?x div 100"
    using mult_div_mod_eq [of conns "?x div 100"] pos_mod_sign [OF assms(3), of "?x div 100"] by linarith
  moreover have "?x div 100 * 100 \<le> ?x" by simp
  ultimately show ?thesis by (metis mult_right_mono order_trans zero_le_numeral)
qed

lemma clamp_range: "lo \<le> hi \<Longrightarrow> lo \<le> clamp lo hi x" "lo \<le> hi \<Longrightarrow> clamp lo hi x \<le> hi"
  by (simp_all add: clamp_def)

lemma clamp_share:
  assumes "0 < c" "0 < k" "c * x * k \<le> b" "lo \<le> hi"
  shows "clamp lo hi x = lo \<or> c * clamp lo hi x * k \<le> (b::int)"
proof (cases "clamp lo hi x = lo")
  case False
  then have "clamp lo hi x \<le> x" by (simp add: clamp_def split: if_splits)
  then have "c * clamp lo hi x * k \<le> c * x * k" using assms(1,2) by (intro mult_right_mono mult_left_mono) auto
  with assms(3) show ?thesis by simp
qed simp

lemma sdiv_w_limit:
  assumes "2 \<le> sint fd" "sint fd \<le> 268435455"
  shows "0 < sint (sdiv_w (fd * 8) (10::int32))"
proof -
  have "fd * 8 = word_of_int (sint fd * 8)" by simp
  moreover have "sint (word_of_int (sint fd * 8) :: int32) = sint fd * 8" using assms by (intro sint_int32) simp_all
  ultimately have "sdiv_w (fd * 8) (10::int32) = word_of_int (sint fd * 8 div 10)"
    using assms by (simp add: sdiv_w_def signed_divide_int_def sgn_if)
  moreover have "0 < sint fd * 8 div 10" "sint fd * 8 div 10 < 2 ^ 31" using assms by auto
  ultimately show ?thesis by (simp add: sint_int32)
qed

subsection \<open>Properties\<close>

lemma budget_of_div:
  assumes "0 \<le> pct" "0 \<le> ram" "0 < conns"
  shows "budget_of pct ram conns = ram * 1048576 * pct div 100 div conns"
  using assms by (auto simp: budget_of_def signed_divide_int_def sgn_if pos_imp_zdiv_nonneg_iff)

text \<open>C17: For a memory size that is not negative and a positive number of connections, the body limit is exactly the
  quarter of the memory divided by the number of connections, computed without bounds on the integers, so no step of the
  machine computation overflows, kept between 64 KB and 16 MB; the header limit is exactly one
  percent of the memory divided by the number of connections, kept between 4 KB and 32 KB. Unless a limit is
  its minimum, all connections together stay within that share of the memory.\<close>

theorem https_memory_budget:
  assumes "0 \<le> sint ram" "0 < sint conns"
  shows "sint (compute_max_body_size ram conns) = max 65536 (min 16777216 (sint ram * 1048576 * 25 div 100 div sint conns))
    \<and> sint (compute_max_header_size ram conns) = max 4096 (min 32768 (sint ram * 1048576 div 100 div sint conns))
    \<and> (sint (compute_max_body_size ram conns) = 65536
         \<or> sint conns * sint (compute_max_body_size ram conns) * 4 \<le> sint ram * 1048576)
    \<and> (sint (compute_max_header_size ram conns) = 4096
         \<or> sint conns * sint (compute_max_header_size ram conns) * 100 \<le> sint ram * 1048576)"
proof -
  have "sint conns * budget_of 25 (sint ram) (sint conns) * 4 \<le> sint ram * 1048576"
    using assms budget_share [of 25 "sint ram" "sint conns"] by simp
  moreover have "sint conns * budget_of 1 (sint ram) (sint conns) * 100 \<le> sint ram * 1048576"
    using assms budget_share [of 1 "sint ram" "sint conns"] by simp
  moreover have "clamp lo hi x = max lo (min hi x)" if "lo \<le> hi" for lo hi x using that by (auto simp: clamp_def)
  moreover have "budget_of 25 (sint ram) (sint conns) = sint ram * 1048576 * 25 div 100 div sint conns"
    "budget_of 1 (sint ram) (sint conns) = sint ram * 1048576 div 100 div sint conns"
    using budget_of_div [of 25, OF _ assms] budget_of_div [of 1, OF _ assms] by simp_all
  ultimately show ?thesis
    unfolding compute_max_body_size_exact compute_max_header_size_exact
    using assms(2) by (intro conjI clamp_share) simp_all
qed

text \<open>Every limit the server ends up with is positive, whatever the configuration says, when the
  descriptor limit is between 2 and 268435455.\<close>

theorem https_limits_positive:
  assumes "2 \<le> sint fd" "sint fd \<le> 268435455"
  shows "0 < sint (max_connections (load_limits_from_config J g ram fd s))
    \<and> 0 < sint (max_body_size (load_limits_from_config J g ram fd s))
    \<and> 0 < sint (max_header_size (load_limits_from_config J g ram fd s))"
proof -
  have pick: "0 < sint (pick_limit a b c)" if "0 < sint c" for a b c
    using that by (simp add: pick_limit_def)
  have "0 < sint (compute_max_body_size ram x)" "0 < sint (compute_max_header_size ram x)" for x
    by (simp_all add: compute_max_body_size_exact compute_max_header_size_exact clamp_def)
  then show ?thesis using sdiv_w_limit [OF assms] by (simp add: load_limits_from_config_def Let_def pick)
qed

text \<open>A descriptor limit of 1073741816, a common hard limit of Linux systems, overflows the computation of the
  connection limit: without a configured value the limit becomes negative.\<close>

theorem https_limit_overflow:
  assumes "get_int J g ''protocol.max_connections_testing'' 0 = 0" "get_int J g ''protocol.max_connections'' 0 = 0"
  shows "sint (max_connections (load_limits_from_config J g ram (get_fd_limit (Some (1073741816, 1073741816))) s)) = - 6"
proof -
  have "sint (sdiv_w (get_fd_limit (Some (1073741816, 1073741816)) * 8) 10) = - 6"
    by (simp add: get_fd_limit_def RLIM_INFINITY_def sdiv_w_def signed_divide_int_def)
  with assms show ?thesis by (simp add: load_limits_from_config_def Let_def pick_limit_def)
qed

theorem https_memory_budget_witness:
  "sint (compute_max_body_size 8192 10000) = 214748 \<and> sint (10000::int32) * sint (compute_max_body_size 8192 10000) * 4 \<le> sint (8192::int32) * 1048576"
proof -
  have "sint (compute_max_body_size 8192 10000) = 214748" using https_memory_budget [of 8192 10000] by simp
  then show ?thesis using https_memory_budget [of 8192 10000] by simp
qed

theorem https_limits_positive_witness:
  "0 < sint (max_connections (load_limits_from_config sample_json sample_config 8192 1024 (HttpsServer :: unit https_server)))"
  using https_limits_positive [of 1024 sample_json sample_config 8192 "HttpsServer :: unit https_server"] by simp

theorem https_limit_overflow_witness:
  "sint (max_connections (load_limits_from_config sample_json sample_config 8192
     (get_fd_limit (Some (1073741816, 1073741816))) (HttpsServer :: unit https_server))) = - 6"
  by (rule https_limit_overflow) code_simp+

end
