(* ===== verification/TicketKeyStore.thy ===== *)
theory TicketKeyStore
  imports Prelude
begin

text \<open>
  \<^verbatim>\<open>src/TLS/TicketKeyStore.cpp\<close>: the rotating keys that protect TLS session tickets. The key deque is
  a list with the current key in front. The clock (\<^verbatim>\<open>now_provider_\<close>) and OpenSSL (\<^verbatim>\<open>RAND_bytes\<close>, the
  cipher and MAC initialisers) are parameters, functions on an abstract world. Times are counted in
  nanoseconds, as \<^verbatim>\<open>steady_clock\<close> does. Each operation holds the store's mutex for its whole body,
  so the operations of different threads are a sequence of the steps below.
\<close>

subsection \<open>State\<close>

record key =
  kname :: string
  aes_key :: string
  hmac_key :: string
  created_at :: int

definition kRotationInterval :: int where "kRotationInterval = 12 * 3600 * 10 ^ 9"
definition kKeyLifetime :: int where "kKeyLifetime = 48 * 3600 * 10 ^ 9"
definition kNameSize :: nat where "kNameSize = 16"
definition kAesKeySize :: nat where "kAesKeySize = 32"
definition kHmacKeySize :: nat where "kHmacKeySize = 32"
definition EVP_MAX_IV_LENGTH :: nat where "EVP_MAX_IV_LENGTH = 16"

text \<open>The environment: the clock and OpenSSL.\<close>

record 'w ticket_env =
  now_provider :: "'w \<Rightarrow> int \<times> 'w"
  rand_bytes :: "nat \<Rightarrow> 'w \<Rightarrow> string option \<times> 'w"
  encrypt_init :: "string \<Rightarrow> string \<Rightarrow> 'w \<Rightarrow> bool \<times> 'w"
  decrypt_init :: "string \<Rightarrow> string \<Rightarrow> 'w \<Rightarrow> bool \<times> 'w"
  hmac_init :: "string \<Rightarrow> 'w \<Rightarrow> bool \<times> 'w"

subsection \<open>Operations\<close>

definition rand_error :: exn where
  "rand_error = runtime_error ''TicketKeyStore: RAND_bytes failed''"

definition generate_key :: "'w ticket_env \<Rightarrow> int \<Rightarrow> 'w \<Rightarrow> key result \<times> 'w" where
  "generate_key E now w =
     (case rand_bytes E kNameSize w of (None, w1) \<Rightarrow> (Inl rand_error, w1)
      | (Some n, w1) \<Rightarrow> (case rand_bytes E kAesKeySize w1 of (None, w2) \<Rightarrow> (Inl rand_error, w2)
      | (Some a, w2) \<Rightarrow> (case rand_bytes E kHmacKeySize w2 of (None, w3) \<Rightarrow> (Inl rand_error, w3)
      | (Some h, w3) \<Rightarrow>
          (Inr \<lparr>kname = n, aes_key = a, hmac_key = h, created_at = now\<rparr>, w3))))"

text \<open>\<^verbatim>\<open>keys_.push_front(generate_key(now))\<close>; an exception leaves the deque alone.\<close>

definition push_key :: "'w ticket_env \<Rightarrow> int \<Rightarrow> key list \<Rightarrow> 'w \<Rightarrow> unit result \<times> key list \<times> 'w" where
  "push_key E now ks w =
     (case generate_key E now w of
        (Inl e, w') \<Rightarrow> (Inl e, ks, w')
      | (Inr k, w') \<Rightarrow> (Inr (), k # ks, w'))"

text \<open>\<^verbatim>\<open>while (!keys_.empty() && now - keys_.back().created_at > kKeyLifetime) keys_.pop_back();\<close>\<close>

definition expire :: "int \<Rightarrow> key list \<Rightarrow> key list" where
  "expire now ks = rev (dropWhile (\<lambda>k. now - created_at k > kKeyLifetime) (rev ks))"

definition ensure_initialized :: "'w ticket_env \<Rightarrow> key list \<Rightarrow> 'w \<Rightarrow> unit result \<times> key list \<times> 'w" where
  "ensure_initialized E ks w =
     (if ks = [] then (let (now, w1) = now_provider E w in push_key E now ks w1)
      else (Inr (), ks, w))"

definition rotate_now :: "'w ticket_env \<Rightarrow> key list \<Rightarrow> 'w \<Rightarrow> unit result \<times> key list \<times> 'w" where
  "rotate_now E ks w =
     (let (now, w1) = now_provider E w
      in case push_key E now ks w1 of
           (Inl e, ks', w') \<Rightarrow> (Inl e, ks', w')
         | (Inr _, ks', w') \<Rightarrow> (Inr (), expire now ks', w'))"

definition maybe_rotate_locked ::
  "'w ticket_env \<Rightarrow> int \<Rightarrow> key list \<Rightarrow> 'w \<Rightarrow> unit result \<times> key list \<times> 'w" where
  "maybe_rotate_locked E now ks w =
     (if ks = [] then push_key E now ks w
      else if now - created_at (hd ks) < kRotationInterval then (Inr (), ks, w)
      else case push_key E now ks w of
             (Inl e, ks', w') \<Rightarrow> (Inl e, ks', w')
           | (Inr _, ks', w') \<Rightarrow> (Inr (), expire now ks', w'))"

text \<open>What \<^verbatim>\<open>handle\<close> leaves behind: its return code, the key name and the IV buffers, and the keys the
  cipher and MAC contexts were initialised with.\<close>

record handle_out =
  code :: int
  out_name :: string
  out_iv :: string
  used :: "key option"

fun find_key :: "key list \<Rightarrow> string \<Rightarrow> nat \<Rightarrow> (nat \<times> key) option" where
  "find_key [] n i = None"
| "find_key (k # ks) n i = (if kname k \<noteq> n then find_key ks n (Suc i) else Some (i, k))"

definition handle_encrypt ::
  "'w ticket_env \<Rightarrow> key list \<Rightarrow> string \<Rightarrow> string \<Rightarrow> 'w \<Rightarrow> handle_out result \<times> key list \<times> 'w" where
  "handle_encrypt E ks name iv w =
     (let (now, w1) = now_provider E w
      in case maybe_rotate_locked E now ks w1 of
           (Inl e, ks', w2) \<Rightarrow> (Inl e, ks', w2)
         | (Inr _, ks', w2) \<Rightarrow>
             (let cur = hd ks';
                  (r, w3) = rand_bytes E EVP_MAX_IV_LENGTH w2;
                  iv' = (case r of None \<Rightarrow> iv | Some b \<Rightarrow> b);
                  (ok1, w4) = encrypt_init E (aes_key cur) iv' w3
              in if \<not> ok1 then (Inr \<lparr>code = -1, out_name = kname cur, out_iv = iv', used = None\<rparr>, ks', w4)
                 else let (ok2, w5) = hmac_init E (hmac_key cur) w4
                      in if \<not> ok2
                         then (Inr \<lparr>code = -1, out_name = kname cur, out_iv = iv', used = None\<rparr>, ks', w5)
                         else (Inr \<lparr>code = 1, out_name = kname cur, out_iv = iv', used = Some cur\<rparr>, ks', w5)))"

definition handle_decrypt ::
  "'w ticket_env \<Rightarrow> key list \<Rightarrow> string \<Rightarrow> string \<Rightarrow> 'w \<Rightarrow> handle_out result \<times> key list \<times> 'w" where
  "handle_decrypt E ks name iv w =
     (case find_key ks name 0 of
        None \<Rightarrow> (Inr \<lparr>code = 0, out_name = name, out_iv = iv, used = None\<rparr>, ks, w)
      | Some (i, k) \<Rightarrow>
          (let (ok1, w1) = decrypt_init E (aes_key k) iv w
           in if \<not> ok1 then (Inr \<lparr>code = -1, out_name = name, out_iv = iv, used = None\<rparr>, ks, w1)
              else let (ok2, w2) = hmac_init E (hmac_key k) w1
                   in if \<not> ok2 then (Inr \<lparr>code = -1, out_name = name, out_iv = iv, used = None\<rparr>, ks, w2)
                      else (Inr \<lparr>code = (if i = 0 then 1 else 2), out_name = name, out_iv = iv,
                                 used = Some k\<rparr>, ks, w2)))"

definition handle ::
  "'w ticket_env \<Rightarrow> key list \<Rightarrow> string \<Rightarrow> string \<Rightarrow> int \<Rightarrow> 'w \<Rightarrow> handle_out result \<times> key list \<times> 'w" where
  "handle E ks name iv enc w =
     (case ensure_initialized E ks w of
        (Inl e, ks', w') \<Rightarrow> (Inl e, ks', w')
      | (Inr _, ks', w') \<Rightarrow>
          if enc = 1 then handle_encrypt E ks' name iv w' else handle_decrypt E ks' name iv w')"

definition snapshot :: "key list \<Rightarrow> key list" where
  "snapshot ks = ks"

text \<open>The constructors: the store is empty; a null clock is refused.\<close>

definition TicketKeyStore_default :: "key list" where
  "TicketKeyStore_default = []"

definition TicketKeyStore_new :: "('w \<Rightarrow> int \<times> 'w) option \<Rightarrow> (key list) result" where
  "TicketKeyStore_new clock =
     (case clock of None \<Rightarrow> Inl (invalid_argument ''TicketKeyStore: now_provider is null'') | Some _ \<Rightarrow> Inr [])"

definition key_count :: "key list \<Rightarrow> nat" where
  "key_count ks = length ks"

text \<open>\<^verbatim>\<open>attach_to\<close>: the store is put into the SSL context's ex-data slot. A context is its slot's
  content (\<open>None\<close>: a null pointer), \<open>this\<close> the identity of the store.\<close>

definition attach_to :: "nat \<Rightarrow> int \<Rightarrow> nat option option \<Rightarrow> nat option result" where
  "attach_to this idx ctx =
     (case ctx of
        None \<Rightarrow> Inl (invalid_argument ''TicketKeyStore::attach_to: ctx is null'')
      | Some existing \<Rightarrow>
          if idx < 0 then Inl (runtime_error ''TicketKeyStore::attach_to: ex_data index not available'')
          else if existing \<noteq> None \<and> existing \<noteq> Some this
          then Inl (runtime_error ''TicketKeyStore::attach_to: SSL_CTX already has a different store'')
          else Inr (Some this))"

text \<open>\<^verbatim>\<open>ticket_store_ex_index\<close>: the slot is asked of OpenSSL once; \<open>None\<close> is the flag of \<^verbatim>\<open>call_once\<close> before the call.
  A failed request leaves the negative index for good.\<close>

definition ticket_store_ex_index :: "('w \<Rightarrow> int \<times> 'w) \<Rightarrow> int option \<Rightarrow> 'w \<Rightarrow> int \<times> int option \<times> 'w" where
  "ticket_store_ex_index get_ex_new_index once w =
     (case once of
        Some i \<Rightarrow> (i, once, w)
      | None \<Rightarrow> (case get_ex_new_index w of (i, w') \<Rightarrow> (i, Some i, w')))"

lemma ex_index_stable:
  assumes "ticket_store_ex_index f once w = (i, once', w')"
  shows "ticket_store_ex_index g once' v = (i, once', v)"
  using assms by (auto simp: ticket_store_ex_index_def split: option.splits prod.splits)

lemma attach_failed_index:
  assumes "ticket_store_ex_index f once w = (i, once', w')" "i < 0"
  shows "attach_to this (fst (ticket_store_ex_index g once' v)) (Some slot) =
    Inl (runtime_error ''TicketKeyStore::attach_to: ex_data index not available'')"
  using assms(2) by (simp add: ex_index_stable [OF assms(1)] attach_to_def)

text \<open>\<^verbatim>\<open>ticket_key_cb\<close>, the callback OpenSSL calls: without a store in the slot it declines.\<close>

definition ticket_key_cb ::
  "'w ticket_env \<Rightarrow> key list option \<Rightarrow> string \<Rightarrow> string \<Rightarrow> int \<Rightarrow> 'w \<Rightarrow>
     handle_out result \<times> key list option \<times> 'w" where
  "ticket_key_cb E store name iv enc w =
     (case store of
        None \<Rightarrow> (Inr \<lparr>code = 0, out_name = name, out_iv = iv, used = None\<rparr>, None, w)
      | Some ks \<Rightarrow> (case handle E ks name iv enc w of (r, ks', w') \<Rightarrow> (r, Some ks', w')))"

subsection \<open>Well-formed key lists\<close>

text \<open>Newest key first, no key from the future.\<close>

definition keys_ok :: "int \<Rightarrow> key list \<Rightarrow> bool" where
  "keys_ok now ks \<longleftrightarrow> sorted_wrt (\<lambda>a b. created_at a \<ge> created_at b) ks \<and> (\<forall>k \<in> set ks. created_at k \<le> now)"

text \<open>Consecutive keys at least a rotation interval apart, and none more than a lifetime older than
  the newest: what the automatic rotation keeps.\<close>

definition spaced :: "key list \<Rightarrow> bool" where
  "spaced ks \<longleftrightarrow> sorted_wrt (\<lambda>a b. created_at a - created_at b \<ge> kRotationInterval) ks \<and>
     (\<forall>k \<in> set ks. created_at (hd ks) - created_at k \<le> kKeyLifetime)"

text \<open>A monotone clock, observed through \<open>clk\<close>: reading it gives a time between the clock before and
  after, and no operation of the environment turns it back.\<close>

definition monotone_env :: "('w \<Rightarrow> int) \<Rightarrow> 'w ticket_env \<Rightarrow> bool" where
  "monotone_env clk E \<longleftrightarrow>
     (\<forall>w. clk w \<le> fst (now_provider E w) \<and> fst (now_provider E w) \<le> clk (snd (now_provider E w))) \<and>
     (\<forall>n w. clk w \<le> clk (snd (rand_bytes E n w))) \<and>
     (\<forall>a b w. clk w \<le> clk (snd (encrypt_init E a b w))) \<and>
     (\<forall>a b w. clk w \<le> clk (snd (decrypt_init E a b w))) \<and>
     (\<forall>a w. clk w \<le> clk (snd (hmac_init E a w)))"

lemmas monotone_envD =
  monotone_env_def [THEN iffD1, THEN conjunct1, rule_format, THEN conjunct1]
  monotone_env_def [THEN iffD1, THEN conjunct1, rule_format, THEN conjunct2]
  monotone_env_def [THEN iffD1, THEN conjunct2, THEN conjunct1, rule_format]
  monotone_env_def [THEN iffD1, THEN conjunct2, THEN conjunct2, THEN conjunct1, rule_format]
  monotone_env_def [THEN iffD1, THEN conjunct2, THEN conjunct2, THEN conjunct2, THEN conjunct1, rule_format]
  monotone_env_def [THEN iffD1, THEN conjunct2, THEN conjunct2, THEN conjunct2, THEN conjunct2, rule_format]

lemma intervals: "0 < kRotationInterval" "4 * kRotationInterval = kKeyLifetime"
  by (simp_all add: kRotationInterval_def kKeyLifetime_def)

subsection \<open>Expiry removes exactly the keys past their lifetime\<close>

lemma expire_filter:
  "sorted_wrt (\<lambda>a b. created_at a \<ge> created_at b) ks \<Longrightarrow>
     expire now ks = filter (\<lambda>k. now - created_at k \<le> kKeyLifetime) ks"
proof (induction ks rule: rev_induct)
  case (snoc k ks)
  then have sorted: "sorted_wrt (\<lambda>a b. created_at a \<ge> created_at b) ks"
    and older: "\<forall>a \<in> set ks. created_at a \<ge> created_at k"
    by (auto simp: sorted_wrt_append)
  show ?case
  proof (cases "now - created_at k > kKeyLifetime")
    case True
    with snoc.IH [OF sorted] show ?thesis by (simp add: expire_def)
  next
    case False
    with older have "\<forall>a \<in> set ks. now - created_at a \<le> kKeyLifetime" by fastforce
    with False show ?thesis by (simp add: expire_def filter_id_conv)
  qed
qed (simp add: expire_def)

lemma keys_ok_mono: "keys_ok now ks \<Longrightarrow> now \<le> now' \<Longrightarrow> keys_ok now' ks"
  by (fastforce simp: keys_ok_def)

lemma keys_ok_Nil [simp]: "keys_ok now []"
  by (simp add: keys_ok_def)

lemma keys_ok_push: "keys_ok now ks \<Longrightarrow> created_at k = now \<Longrightarrow> keys_ok now (k # ks)"
  by (auto simp: keys_ok_def)

lemma keys_ok_expire: "keys_ok now ks \<Longrightarrow> keys_ok now' (expire t ks) \<or> \<not> now \<le> now'"
  by (auto simp: keys_ok_def expire_filter sorted_wrt_filter intro: order_trans)

subsection \<open>Keys are generated at the current time\<close>

lemma generate_key_time:
  assumes "monotone_env clk E" "generate_key E now w = (r, w')"
  shows "clk w \<le> clk w'" "r = Inr k \<Longrightarrow> created_at k = now"
  using assms(2) monotone_envD(3) [OF assms(1)]
  by (auto simp: generate_key_def split: prod.splits option.splits)
    (metis order_trans snd_conv)+

lemma push_key_cases:
  assumes "monotone_env clk E" "push_key E now ks w = (r, ks', w')"
  shows "clk w \<le> clk w' \<and> ((\<exists>e. r = Inl e) \<and> ks' = ks \<or> r = Inr () \<and> (\<exists>k. created_at k = now \<and> ks' = k # ks))"
proof -
  obtain g w1 where g: "generate_key E now w = (g, w1)" by force
  with generate_key_time [OF assms(1) g] assms(2) show ?thesis
    by (cases g) (auto simp: push_key_def)
qed

lemma expire_front: "now - created_at k \<le> kKeyLifetime \<Longrightarrow> \<exists>ks'. expire now (k # ks) = k # ks'"
  by (auto simp: expire_def dropWhile_append) (metis rev_rev_ident)

subsection \<open>How an operation changes the key list\<close>

text \<open>The automatic operations leave the list alone, put the first key into an empty list, or rotate
  when the newest key has reached the rotation interval.\<close>

definition auto_change :: "int \<Rightarrow> int \<Rightarrow> key list \<Rightarrow> key list \<Rightarrow> bool" where
  "auto_change lo hi ks ks' \<longleftrightarrow> ks' = ks \<or>
     (\<exists>k. lo \<le> created_at k \<and> created_at k \<le> hi \<and>
        (ks = [] \<and> ks' = [k] \<or>
         ks \<noteq> [] \<and> kRotationInterval \<le> created_at k - created_at (hd ks) \<and>
           ks' = expire (created_at k) (k # ks)))"

lemma ensure_initialized_change:
  assumes "monotone_env clk E" "ensure_initialized E ks w = (r, ks', w')"
  shows "clk w \<le> clk w' \<and> auto_change (clk w) (clk w') ks ks' \<and> (r = Inr () \<longrightarrow> ks' \<noteq> [])"
proof (cases "ks = []")
  case True
  obtain now w1 where n: "now_provider E w = (now, w1)" by force
  with True assms(2) have p: "push_key E now [] w1 = (r, ks', w')"
    by (simp add: ensure_initialized_def)
  have "clk w \<le> now" "now \<le> clk w1"
    using monotone_envD(1,2) [OF assms(1), of w] n by simp_all
  with push_key_cases [OF assms(1) p] True show ?thesis
    by (auto simp: auto_change_def)
next
  case False
  with assms(2) show ?thesis by (auto simp: ensure_initialized_def auto_change_def)
qed

lemma maybe_rotate_change:
  assumes "monotone_env clk E" "maybe_rotate_locked E now ks w = (r, ks', w')"
    and "lo \<le> now" "now \<le> clk w"
  shows "clk w \<le> clk w' \<and> auto_change lo (clk w') ks ks' \<and>
    (r = Inr () \<longrightarrow> ks' \<noteq> [] \<and> now - created_at (hd ks') < kRotationInterval)"
proof -
  obtain r1 ks1 w1 where p: "push_key E now ks w = (r1, ks1, w1)" by (metis prod_cases3)
  note pc = push_key_cases [OF assms(1) p]
  have ex: "\<exists>t. expire now (k # ks) = k # t" if "created_at k = now" for k
    using that expire_front [of now k ks] by (simp add: kKeyLifetime_def)
  show ?thesis
  proof (cases "ks = [] \<or> now - created_at (hd ks) < kRotationInterval")
    case True
    with pc p assms show ?thesis
      using intervals(1)
      by (auto simp: maybe_rotate_locked_def auto_change_def split: if_splits)
  next
    case False
    with pc p assms show ?thesis
      using intervals(1) ex
      by (fastforce simp: maybe_rotate_locked_def auto_change_def split: sum.splits)
  qed
qed

lemma handle_change:
  assumes "monotone_env clk E" "handle E ks name iv enc w = (r, ks', w')"
  shows "clk w \<le> clk w' \<and>
    (\<exists>mid t. clk w \<le> t \<and> t \<le> clk w' \<and> auto_change (clk w) t ks mid \<and> auto_change t (clk w') mid ks')"
proof -
  obtain r1 ks1 w1 where e: "ensure_initialized E ks w = (r1, ks1, w1)" by (metis prod_cases3)
  note ec = ensure_initialized_change [OF assms(1) e]
  consider (failed) x where "r1 = Inl x" | (enc) "r1 = Inr ()" "enc = 1" | (dec) "r1 = Inr ()" "enc \<noteq> 1"
    by (cases r1) auto
  then show ?thesis
  proof cases
    case failed
    with assms(2) e ec show ?thesis by (auto simp: handle_def auto_change_def)
  next
    case enc
    obtain now w2 where n: "now_provider E w1 = (now, w2)" by force
    obtain r3 ks3 w3 where m: "maybe_rotate_locked E now ks1 w2 = (r3, ks3, w3)" by (metis prod_cases3)
    have t: "clk w1 \<le> now" "now \<le> clk w2"
      using monotone_envD(1,2) [OF assms(1), of w1] n by simp_all
    note mc = maybe_rotate_change [OF assms(1) m t]
    have "ks' = ks3 \<and> clk w3 \<le> clk w'"
      using assms(2) e enc n m monotone_envD(3,4,6) [OF assms(1)]
      by (auto simp: handle_def handle_encrypt_def Let_def split: sum.splits prod.splits if_splits)
        (metis order_trans snd_conv)+
    with ec mc t show ?thesis by (auto simp: auto_change_def intro!: exI [of _ ks1] exI [of _ "clk w1"])
  next
    case dec
    have "ks' = ks1 \<and> clk w1 \<le> clk w'"
      using assms(2) e dec monotone_envD(5,6) [OF assms(1)]
      by (auto simp: handle_def handle_decrypt_def Let_def split: option.splits prod.splits if_splits)
        (metis order_trans snd_conv)+
    with ec show ?thesis by (auto simp: auto_change_def)
  qed
qed

subsection \<open>Runs of the store\<close>

datatype ticket_op = Ensure | Rotate | Handle string string int

fun ticket_step :: "'w ticket_env \<Rightarrow> ticket_op \<Rightarrow> key list \<times> 'w \<Rightarrow> key list \<times> 'w" where
  "ticket_step E Ensure (ks, w) = snd (ensure_initialized E ks w)"
| "ticket_step E Rotate (ks, w) = snd (rotate_now E ks w)"
| "ticket_step E (Handle name iv enc) (ks, w) = snd (handle E ks name iv enc w)"

text \<open>What every operation keeps: time does not run backwards, the order and dating of the keys, and
  every key that is still within its lifetime.\<close>

definition key_rel :: "('w \<Rightarrow> int) \<Rightarrow> key list \<times> 'w \<Rightarrow> key list \<times> 'w \<Rightarrow> bool" where
  "key_rel clk s t \<longleftrightarrow> clk (snd s) \<le> clk (snd t) \<and>
     (keys_ok (clk (snd s)) (fst s) \<longrightarrow> keys_ok (clk (snd t)) (fst t) \<and>
        (\<forall>k \<in> set (fst s). clk (snd t) - created_at k \<le> kKeyLifetime \<longrightarrow> k \<in> set (fst t)))"

lemma key_rel_refl: "key_rel clk s s"
  by (simp add: key_rel_def)

lemma key_rel_trans: "key_rel clk s t \<Longrightarrow> key_rel clk t u \<Longrightarrow> key_rel clk s u"
  by (fastforce simp: key_rel_def)

lemma rotate_rel:
  assumes "keys_ok t ks" "t \<le> created_at k" "created_at k \<le> t'"
  shows "keys_ok t' (expire (created_at k) (k # ks)) \<and>
    (\<forall>a \<in> set ks. t' - created_at a \<le> kKeyLifetime \<longrightarrow> a \<in> set (expire (created_at k) (k # ks)))"
proof -
  have ok: "keys_ok (created_at k) (k # ks)"
    using keys_ok_mono [OF assms(1,2)] by (simp add: keys_ok_push)
  then have "expire (created_at k) (k # ks) =
      filter (\<lambda>a. created_at k - created_at a \<le> kKeyLifetime) (k # ks)"
    by (auto simp: keys_ok_def expire_filter)
  then have "\<forall>a \<in> set ks. t' - created_at a \<le> kKeyLifetime \<longrightarrow> a \<in> set (expire (created_at k) (k # ks))"
    using assms(3) by auto
  moreover have "keys_ok t' (expire (created_at k) (k # ks))"
    using keys_ok_expire [OF ok, of t'] assms(3) by blast
  ultimately show ?thesis by blast
qed

lemma auto_change_rel:
  assumes "auto_change t t' ks ks'" "keys_ok t ks" "t \<le> t'"
  shows "keys_ok t' ks' \<and> (\<forall>k \<in> set ks. t' - created_at k \<le> kKeyLifetime \<longrightarrow> k \<in> set ks')"
proof -
  from assms(1) consider "ks' = ks" | k where "ks = []" "ks' = [k]" "created_at k \<le> t'"
    | k where "t \<le> created_at k" "created_at k \<le> t'" "ks' = expire (created_at k) (k # ks)"
    by (auto simp: auto_change_def)
  then show ?thesis
  proof cases
    case 3
    with rotate_rel [OF assms(2)] show ?thesis by blast
  qed (use assms in \<open>auto simp: keys_ok_def intro: order_trans\<close>)
qed

lemma ticket_step_rel:
  assumes "monotone_env clk E"
  shows "key_rel clk s (ticket_step E op s)"
proof -
  obtain ks w where s: "s = (ks, w)" by force
  show ?thesis
  proof (cases op)
    case Ensure
    obtain r ks' w' where e: "ensure_initialized E ks w = (r, ks', w')" by (metis prod_cases3)
    with ensure_initialized_change [OF assms e] auto_change_rel s Ensure show ?thesis
      by (auto simp: key_rel_def)
  next
    case Rotate
    obtain now w1 where n: "now_provider E w = (now, w1)" by force
    obtain r ks1 w2 where p: "push_key E now ks w1 = (r, ks1, w2)" by (metis prod_cases3)
    have t: "clk w \<le> now" "now \<le> clk w1"
      using monotone_envD(1,2) [OF assms, of w] n by simp_all
    from push_key_cases [OF assms p] t n p s Rotate rotate_rel keys_ok_mono show ?thesis
      by (auto simp: key_rel_def rotate_now_def intro: order_trans)
  next
    case (Handle name iv enc)
    obtain r ks' w' where h: "handle E ks name iv enc w = (r, ks', w')" by (metis prod_cases3)
    obtain mid t where m: "clk w \<le> clk w'" "clk w \<le> t" "t \<le> clk w'" "auto_change (clk w) t ks mid"
      "auto_change t (clk w') mid ks'"
      using handle_change [OF assms h] by blast
    have "keys_ok (clk w') ks' \<and> (\<forall>k \<in> set ks. clk w' - created_at k \<le> kKeyLifetime \<longrightarrow> k \<in> set ks')"
      if "keys_ok (clk w) ks"
      using auto_change_rel [OF m(4) that m(2)] auto_change_rel [OF m(5) _ m(3)] m(3) by fastforce
    with m(1) h s Handle show ?thesis by (auto simp: key_rel_def)
  qed
qed

interpretation tickets: rel_machine "ticket_step E" "\<lambda>s t. monotone_env clk E \<longrightarrow> key_rel clk s t"
  for E clk
  by unfold_locales (auto simp: key_rel_refl ticket_step_rel intro: key_rel_trans)

text \<open>C7: under a monotone clock, no sequence of \<^verbatim>\<open>ensure_initialized\<close>, \<^verbatim>\<open>rotate_now\<close> and \<^verbatim>\<open>handle\<close> calls
  (whether or not OpenSSL fails in them) breaks the key deque: the keys stay ordered newest first
  and none is dated in the future, and a key that was in the store is still there as long as its
  lifetime of 48 hours has not passed.\<close>

theorem ticket_keys_kept:
  assumes "monotone_env clk E" "keys_ok (clk w) ks"
    and "fold (ticket_step E) ops (ks, w) = (ks', w')"
  shows "keys_ok (clk w') ks' \<and> clk w \<le> clk w' \<and>
    (\<forall>k \<in> set ks. clk w' - created_at k \<le> kKeyLifetime \<longrightarrow> k \<in> set ks')"
  using tickets.run_rel [of clk E "(ks, w)" ops] assms by (auto simp: key_rel_def)

text \<open>An example environment: the world is the clock, random bytes are derived from it.\<close>

definition sample_ticket_env :: "int ticket_env" where
  "sample_ticket_env = \<lparr>now_provider = (\<lambda>w. (w, w + 1)),
     rand_bytes = (\<lambda>n w. (Some (replicate n (char_of (nat w))), w + 1)),
     encrypt_init = (\<lambda>a b w. (True, w)), decrypt_init = (\<lambda>a b w. (True, w)),
     hmac_init = (\<lambda>a w. (True, w))\<rparr>"

lemma sample_ticket_env_monotone: "monotone_env (\<lambda>w. w) sample_ticket_env"
  by (simp add: monotone_env_def sample_ticket_env_def)

theorem ticket_keys_kept_witness:
  "\<exists>ks' w' k. fold (ticket_step sample_ticket_env) [Handle [] [] 1, Rotate, Handle [] [] 0] ([], 5) = (ks', w') \<and>
     length ks' = 2 \<and> keys_ok w' ks' \<and> k \<in> set ks' \<and>
     (\<forall>x \<in> set [k]. w' - created_at x \<le> kKeyLifetime \<longrightarrow> x \<in> set ks')"
proof -
  obtain ks1 w1 where one: "fold (ticket_step sample_ticket_env) [Handle [] [] 1] ([], 5) = (ks1, w1)" by force
  obtain ks' w' where run: "fold (ticket_step sample_ticket_env) [Handle [] [] 1, Rotate, Handle [] [] 0] ([], 5) = (ks', w')"
    by force
  have len: "length (fst (fold (ticket_step sample_ticket_env) [Handle [] [] 1, Rotate, Handle [] [] 0] ([], 5))) = 2"
    by code_simp
  then have l: "length ks' = 2" using run by simp
  then obtain k where k: "k \<in> set ks'" by (cases ks') auto
  from ticket_keys_kept [OF sample_ticket_env_monotone _ run] have "keys_ok w' ks'" by simp
  with run l k show ?thesis by auto
qed

subsection \<open>How many keys the store can hold\<close>

lemma spaced_gap:
  "sorted_wrt (\<lambda>a b. created_at a - created_at b \<ge> kRotationInterval) ks \<Longrightarrow> i < length ks \<Longrightarrow>
     int i * kRotationInterval \<le> created_at (hd ks) - created_at (ks ! i)"
proof (induction ks arbitrary: i)
  case (Cons k ks)
  show ?case
  proof (cases i)
    case (Suc j)
    with Cons.prems have j: "j < length ks" and ne: "ks \<noteq> []" by auto
    with Cons have "int j * kRotationInterval \<le> created_at (hd ks) - created_at (ks ! j)" by auto
    moreover have "kRotationInterval \<le> created_at k - created_at (hd ks)"
      using Cons.prems(1) ne by auto
    ultimately show ?thesis using Suc by (simp add: algebra_simps)
  qed simp
qed simp

lemma spaced_length:
  assumes "spaced ks"
  shows "length ks \<le> 5"
proof (rule ccontr)
  assume "\<not> ?thesis"
  then have five: "5 < length ks" by simp
  then have "5 * kRotationInterval \<le> created_at (hd ks) - created_at (ks ! 5)"
    using spaced_gap [of ks 5] assms by (simp add: spaced_def)
  moreover have "created_at (hd ks) - created_at (ks ! 5) \<le> kKeyLifetime"
    using assms five by (simp add: spaced_def)
  ultimately show False using intervals by simp
qed

lemma spaced_change:
  assumes "auto_change t t' ks ks'" "spaced ks"
  shows "spaced ks'"
proof -
  from assms(1) consider "ks' = ks" | k where "ks' = [k]"
    | k where "ks \<noteq> []" "kRotationInterval \<le> created_at k - created_at (hd ks)"
        "ks' = expire (created_at k) (k # ks)"
    by (auto simp: auto_change_def)
  then show ?thesis
  proof cases
    case 3
    have "kRotationInterval \<le> created_at k - created_at a" if "a \<in> set ks" for a
    proof -
      have "created_at a \<le> created_at (hd ks)"
        using that assms(2) intervals(1) by (cases ks) (fastforce simp: spaced_def)+
      with 3(2) show ?thesis by simp
    qed
    then have sw: "sorted_wrt (\<lambda>a b. created_at a - created_at b \<ge> kRotationInterval) (k # ks)"
      using assms(2) by (simp add: spaced_def)
    then have "sorted_wrt (\<lambda>a b. created_at a \<ge> created_at b) (k # ks)"
      by (rule sorted_wrt_mono_rel [rotated]) (use intervals(1) in simp)
    then have "ks' = filter (\<lambda>a. created_at k - created_at a \<le> kKeyLifetime) (k # ks)"
      using 3(3) by (simp only: expire_filter)
    moreover have "created_at k - created_at k \<le> kKeyLifetime" by (simp add: kKeyLifetime_def)
    ultimately show ?thesis
      using sw sorted_wrt_filter [OF sw, of "\<lambda>a. created_at k - created_at a \<le> kKeyLifetime"]
      by (simp add: spaced_def)
  qed (use assms(2) in \<open>auto simp: spaced_def kKeyLifetime_def\<close>)
qed

fun automatic :: "ticket_op \<Rightarrow> bool" where
  "automatic Rotate = False"
| "automatic _ = True"

lemma spaced_step:
  assumes "monotone_env clk E" "automatic op" "spaced ks"
  shows "spaced (fst (ticket_step E op (ks, w)))"
proof (cases op)
  case Ensure
  obtain r ks' w' where e: "ensure_initialized E ks w = (r, ks', w')" by (metis prod_cases3)
  with ensure_initialized_change [OF assms(1) e] assms(3) Ensure show ?thesis
    by (auto intro: spaced_change)
next
  case (Handle name iv enc)
  obtain r ks' w' where h: "handle E ks name iv enc w = (r, ks', w')" by (metis prod_cases3)
  with handle_change [OF assms(1) h] assms(3) Handle show ?thesis
    by (auto intro: spaced_change)
qed (use assms(2) in simp)

text \<open>C8: without manual rotation the store never holds more than five keys: every sequence of
  \<^verbatim>\<open>ensure_initialized\<close> and \<^verbatim>\<open>handle\<close> calls from the empty store keeps consecutive keys at least twelve
  hours apart and none more than 48 hours older than the newest.\<close>

theorem ticket_key_bound:
  assumes "monotone_env clk E" "\<forall>op \<in> set ops. automatic op"
  shows "spaced (fst (fold (ticket_step E) ops ([], w))) \<and>
    key_count (fst (fold (ticket_step E) ops ([], w))) \<le> 5"
proof -
  have "spaced (fst (fold (ticket_step E) ops (ks, w)))" if "spaced ks" for ks w
    using assms(2) that
  proof (induction ops arbitrary: ks w)
    case (Cons op ops)
    obtain ks' w' where s: "ticket_step E op (ks, w) = (ks', w')" by force
    with spaced_step [OF assms(1), of op ks w] Cons.prems have "spaced ks'" by simp
    with Cons s show ?case by simp
  qed simp
  moreover have "spaced []" by (simp add: spaced_def)
  ultimately show ?thesis by (simp add: key_count_def spaced_length)
qed

theorem ticket_key_bound_witness:
  "key_count (fst (fold (ticket_step sample_ticket_env) [Ensure, Handle [] [] 1] ([], 5))) = 1 \<and>
   spaced (fst (fold (ticket_step sample_ticket_env) [Ensure, Handle [] [] 1] ([], 5)))"
proof -
  have "key_count (fst (fold (ticket_step sample_ticket_env) [Ensure, Handle [] [] 1] ([], 5))) = 1"
    by code_simp
  then show ?thesis
    using ticket_key_bound [OF sample_ticket_env_monotone, of "[Ensure, Handle [] [] 1]" 5]
    by simp
qed

subsection \<open>Tickets stay decryptable\<close>

lemma find_key_distinct:
  "distinct (map kname ks) \<Longrightarrow> k \<in> set ks \<Longrightarrow>
     \<exists>j. find_key ks (kname k) i = Some (j, k) \<and> i \<le> j \<and> (j = i \<longleftrightarrow> k = hd ks)"
proof (induction ks arbitrary: i)
  case (Cons x ks)
  show ?case
  proof (cases "x = k")
    case False
    with Cons.prems have k: "k \<in> set ks" by auto
    with Cons.prems have ne: "kname x \<noteq> kname k" by force
    from Cons.IH [of "Suc i"] Cons.prems k obtain j where
      "find_key ks (kname k) (Suc i) = Some (j, k)" "Suc i \<le> j" by auto
    with ne False show ?thesis by auto
  qed simp
qed simp

lemma handle_encrypt_issues:
  assumes "monotone_env clk E" "handle E ks name iv 1 w = (Inr out, ks', w')" "code out = 1"
  shows "\<exists>k. used out = Some k \<and> kname k = out_name out \<and> k \<in> set ks' \<and>
    clk w - created_at k < kRotationInterval"
proof -
  obtain r1 ks1 w1 where e: "ensure_initialized E ks w = (r1, ks1, w1)" by (metis prod_cases3)
  obtain now w2 where n: "now_provider E w1 = (now, w2)" by force
  obtain r3 ks3 w3 where m: "maybe_rotate_locked E now ks1 w2 = (r3, ks3, w3)" by (metis prod_cases3)
  have t: "clk w1 \<le> now" "now \<le> clk w2"
    using monotone_envD(1,2) [OF assms(1), of w1] n by simp_all
  have ok: "r1 = Inr ()" "r3 = Inr ()"
    using assms(2) e n m
    by (auto simp: handle_def handle_encrypt_def split: sum.splits)
  with maybe_rotate_change [OF assms(1) m t] ensure_initialized_change [OF assms(1) e] t
  have ks3: "ks3 \<noteq> []" "now - created_at (hd ks3) < kRotationInterval" "clk w \<le> now" by auto
  have "used out = Some (hd ks3) \<and> out_name out = kname (hd ks3) \<and> ks' = ks3"
    using assms(2,3) e n m ok
    by (auto simp: handle_def handle_encrypt_def Let_def split: prod.splits if_splits)
  with ks3 show ?thesis by (intro exI [of _ "hd ks3"]) auto
qed

text \<open>C6: a ticket is accepted for at least 36 hours. When \<^verbatim>\<open>handle\<close> issues a ticket (return code 1), then
  after any sequence of store operations that ends within 36 hours, presenting the ticket's key
  name selects the very key the ticket was issued with, and the callback answers 1 when that key
  is still the current one and 2 (accept and renew) otherwise; the store is not changed by it.
  Key names must be distinct, and the OpenSSL initialisers of the last call must succeed.\<close>

theorem ticket_roundtrip:
  assumes "monotone_env clk E" "keys_ok (clk w) ks"
    and "handle E ks name iv 1 w = (Inr out, ks1, w1)" "code out = 1"
    and "fold (ticket_step E) ops (ks1, w1) = (ks2, w2)"
    and "clk w2 - clk w \<le> kKeyLifetime - kRotationInterval"
    and "distinct (map kname ks2)"
    and "\<forall>a b w. fst (decrypt_init E a b w)" "\<forall>a w. fst (hmac_init E a w)"
  shows "\<exists>k out2 w3. used out = Some k \<and> kname k = out_name out \<and>
    handle E ks2 (out_name out) (out_iv out) 0 w2 = (Inr out2, ks2, w3) \<and>
    used out2 = Some k \<and> code out2 = (if k = hd ks2 then 1 else 2)"
proof -
  obtain k where k: "used out = Some k" "kname k = out_name out" "k \<in> set ks1"
    "clk w - created_at k < kRotationInterval"
    using handle_encrypt_issues [OF assms(1,3,4)] by blast
  have "key_rel clk (ks, w) (ks1, w1)"
    using ticket_step_rel [OF assms(1), of "(ks, w)" "Handle name iv 1"] assms(3) by simp
  moreover have "key_rel clk (ks1, w1) (ks2, w2)"
    using tickets.run_rel [of clk E "(ks1, w1)" ops] assms(1,5) by simp
  ultimately have "k \<in> set ks2"
    using assms(2,6) k(3,4) by (auto simp: key_rel_def)
  then obtain j where j: "find_key ks2 (kname k) 0 = Some (j, k)" "j = 0 \<longleftrightarrow> k = hd ks2"
    using find_key_distinct [OF assms(7)] by blast
  have "ks2 \<noteq> []" using \<open>k \<in> set ks2\<close> by auto
  with j k assms(8,9) show ?thesis
    by (auto simp: handle_def ensure_initialized_def handle_decrypt_def Let_def split: prod.splits)
      (metis fst_conv)+
qed

theorem ticket_roundtrip_witness:
  "\<exists>k out2 w3. kname k = replicate 16 (char_of (6::nat)) \<and>
    handle sample_ticket_env
      (fst (fold (ticket_step sample_ticket_env) [Rotate] (snd (handle sample_ticket_env [] [] [] 1 5))))
      (replicate 16 (char_of (6::nat))) (replicate 16 (char_of (10::nat))) 0
      (snd (fold (ticket_step sample_ticket_env) [Rotate] (snd (handle sample_ticket_env [] [] [] 1 5)))) =
      (Inr out2, fst (fold (ticket_step sample_ticket_env) [Rotate] (snd (handle sample_ticket_env [] [] [] 1 5))), w3) \<and>
    used out2 = Some k \<and> code out2 = 2"
proof -
  let ?h = "handle sample_ticket_env [] [] [] 1 5"
  let ?r = "fold (ticket_step sample_ticket_env) [Rotate] (snd ?h)"
  have f: "fst ?h = Inr \<lparr>code = 1, out_name = replicate 16 (char_of (6::nat)),
      out_iv = replicate 16 (char_of (10::nat)),
      used = Some \<lparr>kname = replicate 16 (char_of (6::nat)), aes_key = replicate 32 (char_of (7::nat)),
        hmac_key = replicate 32 (char_of (8::nat)), created_at = 5\<rparr>\<rparr>"
    by code_simp
  then obtain out ks1 w1 where h: "?h = (Inr out, ks1, w1)"
    by (metis prod.collapse)
  then have o: "code out = 1" "out_name out = replicate 16 (char_of (6::nat))"
    "out_iv out = replicate 16 (char_of (10::nat))" "used out = Some \<lparr>kname = replicate 16 (char_of (6::nat)),
        aes_key = replicate 32 (char_of (7::nat)), hmac_key = replicate 32 (char_of (8::nat)), created_at = 5\<rparr>"
    using f by simp_all
  obtain ks2 w2 where r: "?r = (ks2, w2)" by force
  have d: "distinct (map kname (fst ?r))" "snd ?r - 5 \<le> kKeyLifetime - kRotationInterval"
    "hd (fst ?r) \<noteq> \<lparr>kname = replicate 16 (char_of (6::nat)), aes_key = replicate 32 (char_of (7::nat)),
        hmac_key = replicate 32 (char_of (8::nat)), created_at = 5\<rparr>"
    by code_simp+
  have c: "\<forall>a b w. fst (decrypt_init sample_ticket_env a b w)" "\<forall>a w. fst (hmac_init sample_ticket_env a w)"
    by (simp_all add: sample_ticket_env_def)
  from ticket_roundtrip [OF sample_ticket_env_monotone _ h o(1), of "[Rotate]" ks2 w2] c d r h o
  show ?thesis by auto
qed

end
