(* ===== verification/HttpsTls.thy ===== *)
theory HttpsTls
  imports HttpsConfig TicketKeyStore
begin

text \<open>
  \<^verbatim>\<open>src/HttpsServerTLS.cpp\<close>: configuring an SSL context from the TLS settings, and replacing the active
  context at run time. OpenSSL and Asio's wrapper are parameters (\<open>ssl_lib\<close>) on an opaque context
  \<open>'c\<close>; the objects the code allocates and frees around them are recorded in a trace, so that the
  absence of leaks is a statement about the model.
\<close>

datatype resource = ConfCtx | Bio | X509 | Pkey

record 'c ssl_state =
  ctx :: 'c
  slot :: "nat option" \<comment> \<open>the context's ex-data slot: the attached ticket store\<close>
  trace :: "resource res_event list"

record 'c ssl_lib =
  new_context :: 'c
  set_options :: "'c \<Rightarrow> 'c"
  set_ignore_eof :: "'c \<Rightarrow> 'c"
  session_cache_off :: "'c \<Rightarrow> 'c"
  conf_ctx_new :: bool
  conf_cmd :: "string \<Rightarrow> string option \<Rightarrow> 'c \<Rightarrow> int \<times> 'c"
  conf_finish :: "'c \<Rightarrow> int \<times> 'c"
  bio_new :: "string \<Rightarrow> bool"
  pem_certs :: "string \<Rightarrow> string list" \<comment> \<open>what repeated \<^verbatim>\<open>PEM_read_bio_X509\<close> yields\<close>
  pem_key :: "string \<Rightarrow> string option"
  use_certificate :: "string \<Rightarrow> 'c \<Rightarrow> int \<times> 'c"
  add_extra_chain_cert :: "string \<Rightarrow> 'c \<Rightarrow> int \<times> 'c"
  use_private_key :: "string \<Rightarrow> 'c \<Rightarrow> int \<times> 'c"
  check_private_key :: "'c \<Rightarrow> int"
  use_certificate_chain_file :: "string \<Rightarrow> 'c \<Rightarrow> unit result \<times> 'c"
  use_private_key_file :: "string \<Rightarrow> 'c \<Rightarrow> unit result \<times> 'c"
  load_verify_file :: "string \<Rightarrow> 'c \<Rightarrow> unit result \<times> 'c"
  set_verify_mode :: "bool \<Rightarrow> bool \<Rightarrow> 'c \<Rightarrow> 'c" \<comment> \<open>\<^verbatim>\<open>verify_peer\<close>, \<^verbatim>\<open>verify_fail_if_no_peer_cert\<close>\<close>
  ticket_idx :: int

definition emit :: "resource res_event \<Rightarrow> 'c ssl_state \<Rightarrow> 'c ssl_state" where
  "emit e s = s\<lparr>trace := trace s @ [e]\<rparr>"

definition upd :: "'c \<Rightarrow> 'c ssl_state \<Rightarrow> 'c ssl_state" where
  "upd c s = s\<lparr>ctx := c\<rparr>"

definition live :: "resource \<Rightarrow> 'c ssl_state \<Rightarrow> int" where
  "live r s = balance r (trace s)"

subsection \<open>The SSL configuration commands\<close>

fun run_conf :: "'c ssl_lib \<Rightarrow> (string \<times> string) list \<Rightarrow> 'c ssl_state \<Rightarrow> unit result \<times> 'c ssl_state" where
  "run_conf L [] s =
     (let (rv, c) = conf_finish L (ctx s); s' = emit (Release ConfCtx) (upd c s)
      in if rv \<noteq> 1 then (Inl (runtime_error ''SSL_CONF_CTX_finish failed''), s') else (Inr (), s'))"
| "run_conf L ((cmd, val) # cs) s =
     (let (rv, c) = conf_cmd L cmd (if val = [] then None else Some val) (ctx s); s' = upd c s
      in if rv \<le> 0
         then (Inl (runtime_error (''SSL_CONF_cmd failed for '' @ [CHR 0x27] @ cmd @
                 (if val = [] then [] else ''='' @ val) @ [CHR 0x27])),
               emit (Release ConfCtx) s')
         else run_conf L cs s')"

definition apply_ssl_conf :: "'c ssl_lib \<Rightarrow> tls_config \<Rightarrow> 'c ssl_state \<Rightarrow> unit result \<times> 'c ssl_state" where
  "apply_ssl_conf L t s =
     (if conf t = [] then (Inr (), s)
      else if \<not> conf_ctx_new L then (Inl (runtime_error ''SSL_CONF_CTX_new failed''), s)
      else run_conf L (conf t) (emit (Acquire ConfCtx) s))"

subsection \<open>Certificates from memory\<close>

text \<open>OpenSSL's error string, appended to two of the messages, is left out.\<close>

text \<open>The loop over the rest of the chain; a certificate that was added belongs to the context.\<close>

fun add_chain :: "'c ssl_lib \<Rightarrow> string list \<Rightarrow> 'c ssl_state \<Rightarrow> unit result \<times> 'c ssl_state" where
  "add_chain L [] s = (Inr (), s)"
| "add_chain L (x # xs) s =
     (let (rv, c) = add_extra_chain_cert L x (ctx s); s' = upd c (emit (Acquire X509) s)
      in if rv \<noteq> 1
         then (Inl (runtime_error ''SSL_CTX_add_extra_chain_cert failed''), emit (Release Bio) (emit (Release X509) s'))
         else add_chain L xs (emit (Transfer X509) s'))"

definition load_key :: "'c ssl_lib \<Rightarrow> string \<Rightarrow> 'c ssl_state \<Rightarrow> unit result \<times> 'c ssl_state" where
  "load_key L kpem s =
     (if \<not> bio_new L kpem then (Inl (runtime_error ''BIO_new_mem_buf (key) failed''), s)
      else let s1 = emit (Acquire Bio) s in
        case pem_key L kpem of
          None \<Rightarrow> (Inl (runtime_error ''PEM_read_bio_PrivateKey failed: ''), emit (Release Bio) s1)
        | Some k \<Rightarrow>
            (let s2 = emit (Release Bio) (emit (Acquire Pkey) s1);
                 (rv, c) = use_private_key L k (ctx s2);
                 s3 = emit (Release Pkey) (upd c s2)
             in if rv \<noteq> 1 then (Inl (runtime_error ''SSL_CTX_use_PrivateKey failed''), s3)
                else if check_private_key L (ctx s3) \<noteq> 1
                then (Inl (runtime_error ''Certificate and private key do not match''), s3)
                else (Inr (), s3)))"

definition load_cert_from_memory ::
  "'c ssl_lib \<Rightarrow> string \<Rightarrow> string \<Rightarrow> 'c ssl_state \<Rightarrow> unit result \<times> 'c ssl_state" where
  "load_cert_from_memory L cpem kpem s =
     (if cpem = [] \<or> kpem = [] then (Inl (runtime_error ''load_cert_from_memory: empty PEM''), s)
      else if \<not> bio_new L cpem then (Inl (runtime_error ''BIO_new_mem_buf (cert) failed''), s)
      else let s1 = emit (Acquire Bio) s in
        case pem_certs L cpem of
          [] \<Rightarrow> (Inl (runtime_error ''PEM_read_bio_X509 failed: ''), emit (Release Bio) s1)
        | leaf # chain \<Rightarrow>
            (let s2 = emit (Acquire X509) s1; (rv, c) = use_certificate L leaf (ctx s2); s3 = upd c s2
             in if rv \<noteq> 1
                then (Inl (runtime_error ''SSL_CTX_use_certificate failed''), emit (Release Bio) (emit (Release X509) s3))
                else case add_chain L chain (emit (Release X509) s3) of
                       (Inl e, s4) \<Rightarrow> (Inl e, s4)
                     | (Inr _, s4) \<Rightarrow> load_key L kpem (emit (Release Bio) s4)))"

subsection \<open>A whole context\<close>

definition load_cert_from_files :: "'c ssl_lib \<Rightarrow> tls_config \<Rightarrow> 'c ssl_state \<Rightarrow> unit result \<times> 'c ssl_state" where
  "load_cert_from_files L t s =
     (case use_certificate_chain_file L (cert_file t) (ctx s) of
        (Inl e, c) \<Rightarrow> (Inl e, upd c s)
      | (Inr _, c) \<Rightarrow>
          (case use_private_key_file L (key_file t) c of
             (Inl e, c') \<Rightarrow> (Inl e, upd c' s)
           | (Inr _, c') \<Rightarrow>
               if check_private_key L c' \<noteq> 1
               then (Inl (runtime_error (''Certificate/private key mismatch: '' @ cert_file t @ '' / '' @ key_file t)), upd c' s)
               else (Inr (), upd c' s)))"

definition set_verification :: "'c ssl_lib \<Rightarrow> tls_config \<Rightarrow> 'c ssl_state \<Rightarrow> unit result \<times> 'c ssl_state" where
  "set_verification L t s =
     (if require_client_cert t \<or> verify_client_cert t
      then case (if ca_file t \<noteq> [] then load_verify_file L (ca_file t) (ctx s) else (Inr (), ctx s)) of
             (Inl e, c) \<Rightarrow> (Inl e, upd c s)
           | (Inr _, c) \<Rightarrow> (Inr (), upd (set_verify_mode L True (require_client_cert t) c) s)
      else (Inr (), upd (set_verify_mode L False False (ctx s)) s))"

definition configure_ssl_ctx ::
  "'c ssl_lib \<Rightarrow> 'w ticket_env \<Rightarrow> nat \<Rightarrow> tls_config \<Rightarrow> key list \<Rightarrow> 'w \<Rightarrow> 'c ssl_state \<Rightarrow>
     unit result \<times> 'c ssl_state \<times> key list \<times> 'w" where
  "configure_ssl_ctx L E this t ks w s =
     (let s1 = upd (session_cache_off L (set_ignore_eof L (set_options L (ctx s)))) s
      in case ensure_initialized E ks w of
           (Inl e, ks', w') \<Rightarrow> (Inl e, s1, ks', w')
         | (Inr _, ks', w') \<Rightarrow>
             (case attach_to this (ticket_idx L) (Some (slot s1)) of
                Inl e \<Rightarrow> (Inl e, s1, ks', w')
              | Inr sl \<Rightarrow>
                  (case apply_ssl_conf L t (s1\<lparr>slot := sl\<rparr>) of
                     (Inl e, s2) \<Rightarrow> (Inl e, s2, ks', w')
                   | (Inr _, s2) \<Rightarrow>
                       (case (if cert_pem t \<noteq> [] \<and> key_pem t \<noteq> []
                              then load_cert_from_memory L (cert_pem t) (key_pem t) s2
                              else load_cert_from_files L t s2) of
                          (Inl e, s3) \<Rightarrow> (Inl e, s3, ks', w')
                        | (Inr _, s3) \<Rightarrow> (case set_verification L t s3 of (r, s4) \<Rightarrow> (r, s4, ks', w'))))))"

subsection \<open>The active context of the server\<close>

definition fresh_ctx :: "'c ssl_lib \<Rightarrow> 'c ssl_state" where
  "fresh_ctx L = \<lparr>ctx = new_context L, slot = None, trace = []\<rparr>"

type_synonym 'c server = "'c ssl_state https_server"

definition get_ssl_ctx :: "'c server \<Rightarrow> 'c ssl_state option" where
  "get_ssl_ctx s = ssl_ctx s"

text \<open>\<^verbatim>\<open>configure_tls\<close> configures the context that \<^verbatim>\<open>ssl_ctx_\<close> points to.\<close>

definition configure_tls ::
  "'c ssl_lib \<Rightarrow> 'w ticket_env \<Rightarrow> nat \<Rightarrow> 'c server \<Rightarrow> key list \<Rightarrow> 'w \<Rightarrow> unit result \<times> 'c server \<times> key list \<times> 'w" where
  "configure_tls L E this s ks w =
     (case ssl_ctx s of
        None \<Rightarrow> (Inl (runtime_error ''configure_tls: ssl_ctx_ not initialized''), s, ks, w)
      | Some c \<Rightarrow>
          (case configure_ssl_ctx L E this (tls s) ks w c of
             (r, c', ks', w') \<Rightarrow> (r, s\<lparr>ssl_ctx := Some c'\<rparr>, ks', w')))"

definition reloadTls_with ::
  "'c ssl_lib \<Rightarrow> 'w ticket_env \<Rightarrow> nat \<Rightarrow> tls_config \<Rightarrow> 'c server \<Rightarrow> key list \<Rightarrow> 'w \<Rightarrow>
     bool \<times> 'c server \<times> key list \<times> 'w" where
  "reloadTls_with L E this new_tls s ks w =
     (let saved = tls s; s1 = s\<lparr>tls := new_tls\<rparr>
      in case configure_ssl_ctx L E this (tls s1) ks w (fresh_ctx L) of
           (Inl e, _, ks', w') \<Rightarrow> (False, s1\<lparr>tls := saved\<rparr>, ks', w')
         | (Inr _, c, ks', w') \<Rightarrow> (True, s1\<lparr>ssl_ctx := Some c\<rparr>, ks', w'))"

definition reloadTls ::
  "'c ssl_lib \<Rightarrow> 'w ticket_env \<Rightarrow> nat \<Rightarrow> (string \<Rightarrow> string option) \<Rightarrow> 'c server \<Rightarrow> key list \<Rightarrow> 'w \<Rightarrow>
     bool \<times> 'c server \<times> key list \<times> 'w" where
  "reloadTls L E this slurp s ks w =
     (if cert_file (tls s) \<noteq> [] \<and> key_file (tls s) \<noteq> []
      then (case (slurp (cert_file (tls s)), slurp (key_file (tls s))) of
              (Some c, Some k) \<Rightarrow> reloadTls_with L E this ((tls s)\<lparr>cert_pem := c, key_pem := k\<rparr>) s ks w
            | _ \<Rightarrow> (False, s, ks, w))
      else (False, s, ks, w))"

subsection \<open>No path leaks\<close>

lemma live_emit [simp]: "live r (emit e s) = live r s + effect r e"
  by (simp add: live_def emit_def)

lemma live_upd [simp]: "live r (upd c s) = live r s" "live r (s\<lparr>slot := x\<rparr>) = live r s"
  by (simp_all add: live_def upd_def)

lemma run_conf_live: "live r (snd (run_conf L cs s)) = live r s - effect r (Acquire ConfCtx)"
proof (induction cs arbitrary: s)
  case (Cons c cs)
  then show ?case by (cases c; cases r) (simp_all add: Let_def case_prod_unfold)
qed (simp add: Let_def case_prod_unfold)

lemma apply_ssl_conf_live: "live r (snd (apply_ssl_conf L t s)) = live r s"
  by (auto simp: apply_ssl_conf_def run_conf_live)

lemma add_chain_live:
  "live r (snd (add_chain L xs s)) = live r s - (if isl (fst (add_chain L xs s)) then effect r (Acquire Bio) else 0)"
proof (induction xs arbitrary: s)
  case (Cons x xs)
  then show ?case by (cases r) (simp_all add: Let_def case_prod_unfold)
qed simp

lemma load_key_live: "live r (snd (load_key L k s)) = live r s"
  by (auto simp: load_key_def Let_def case_prod_unfold split: option.splits)

lemma load_cert_from_memory_live: "live r (snd (load_cert_from_memory L c k s)) = live r s"
proof -
  have step: "live r (snd (case add_chain L xs u of (Inl e, v) \<Rightarrow> (Inl e, v) | (Inr _, v) \<Rightarrow> load_key L k (emit (Release Bio) v)))
    = live r u - effect r (Acquire Bio)" for xs u
    using add_chain_live [of r L xs u] by (auto simp: load_key_live split: prod.splits sum.splits)
  show ?thesis
  proof (cases "pem_certs L c")
    case (Cons leaf chain)
    let ?s = "emit (Acquire X509) (emit (Acquire Bio) s)"
    obtain rv d where "use_certificate L leaf (ctx ?s) = (rv, d)" by force
    with Cons show ?thesis by (simp add: load_cert_from_memory_def Let_def step)
  qed (simp add: load_cert_from_memory_def Let_def)
qed

lemma load_cert_from_files_live: "live r (snd (load_cert_from_files L t s)) = live r s"
  by (simp add: load_cert_from_files_def split: prod.splits sum.splits)

lemma set_verification_live: "live r (snd (set_verification L t s)) = live r s"
  by (simp add: set_verification_def split: prod.splits sum.splits)

lemma configure_ssl_ctx_cases:
  assumes "configure_ssl_ctx L E this t ks w s = (r, s', ks', w')"
  shows "(\<exists>e. r = Inl e \<and> (\<forall>k. live k s' = live k s)) \<or>
    (\<exists>s3. set_verification L t s3 = (r, s') \<and> (\<forall>k. live k s3 = live k s))"
proof -
  let ?s1 = "upd (session_cache_off L (set_ignore_eof L (set_options L (ctx s)))) s"
  have conf: "live k s2 = live k u" if "apply_ssl_conf L t u = (x, s2)" for k u x s2
    using apply_ssl_conf_live [of k L t u] that by simp
  have cert: "live k s3 = live k u"
    if "(if cert_pem t \<noteq> [] \<and> key_pem t \<noteq> [] then load_cert_from_memory L (cert_pem t) (key_pem t) u
         else load_cert_from_files L t u) = (x, s3)" for k u x s3
    using that load_cert_from_memory_live [of k L "cert_pem t" "key_pem t" u] load_cert_from_files_live [of k L t u]
    by (simp split: if_splits)
  obtain ri ks1 w1 where ens: "ensure_initialized E ks w = (ri, ks1, w1)" by (metis prod.collapse)
  show ?thesis
  proof (cases "\<exists>sl. ri = Inr () \<and> attach_to this (ticket_idx L) (Some (slot ?s1)) = Inr sl")
    case False
    then show ?thesis using assms ens
      by (cases ri; cases "attach_to this (ticket_idx L) (Some (slot ?s1))")
         (auto simp: configure_ssl_ctx_def Let_def)
  next
    case True
    then obtain sl where sl: "ri = Inr ()" "attach_to this (ticket_idx L) (Some (slot ?s1)) = Inr sl" by blast
    obtain rc s2 where c: "apply_ssl_conf L t (?s1\<lparr>slot := sl\<rparr>) = (rc, s2)" by (metis prod.collapse)
    obtain rl s3 where l: "(if cert_pem t \<noteq> [] \<and> key_pem t \<noteq> []
        then load_cert_from_memory L (cert_pem t) (key_pem t) s2 else load_cert_from_files L t s2) = (rl, s3)"
      by (metis prod.collapse)
    have l2: "live k s2 = live k s" for k using conf [OF c, of k] by simp
    then have l3: "live k s3 = live k s" for k using cert [OF l, of k] by simp
    show ?thesis using assms ens sl c l l2 l3
      by (cases rc; cases rl) (auto simp: configure_ssl_ctx_def Let_def split: prod.splits)
  qed
qed

subsection \<open>Properties\<close>

text \<open>C14: Configuring a context frees every OpenSSL object it allocates, on success and on every error path;
  a chain certificate that was handed to the context is not freed again.\<close>

theorem tls_no_leak:
  "live r (fst (snd (configure_ssl_ctx L E this t ks w s))) = live r s"
proof -
  obtain a s' ks' w' where eq: "configure_ssl_ctx L E this t ks w s = (a, s', ks', w')"
    by (cases "configure_ssl_ctx L E this t ks w s") auto
  from configure_ssl_ctx_cases [OF eq] show ?thesis
  proof
    assume "\<exists>s3. set_verification L t s3 = (a, s') \<and> (\<forall>k. live k s3 = live k s)"
    then obtain s3 where "set_verification L t s3 = (a, s')" "live r s3 = live r s" by blast
    with set_verification_live [of r L t s3] eq show ?thesis by simp
  qed (use eq in auto)
qed

text \<open>After a successful configuration the last call on the context set the verification mode: a required
  client certificate makes the handshake fail without one, no client certificate setting turns
  verification off.\<close>

theorem tls_verify_mode:
  assumes "configure_ssl_ctx L E this t ks w s = (Inr (), s', ks', w')"
  shows "\<exists>c. ctx s' = set_verify_mode L (require_client_cert t \<or> verify_client_cert t) (require_client_cert t) c"
proof -
  from configure_ssl_ctx_cases [OF assms] obtain s3 where "set_verification L t s3 = (Inr (), s')" by auto
  then show ?thesis
    by (auto simp: set_verification_def upd_def split: if_splits prod.splits sum.splits)
qed

definition sample_ssl :: "string ssl_lib" where
  "sample_ssl = \<lparr>new_context = [], set_options = (\<lambda>c. c), set_ignore_eof = (\<lambda>c. c), session_cache_off = (\<lambda>c. c),
     conf_ctx_new = True, conf_cmd = (\<lambda>_ _ c. (1, c)), conf_finish = (\<lambda>c. (1, c)), bio_new = (\<lambda>_. True),
     pem_certs = (\<lambda>s. [s]), pem_key = (\<lambda>s. Some s), use_certificate = (\<lambda>x c. (1, x @ c)),
     add_extra_chain_cert = (\<lambda>x c. (1, c)), use_private_key = (\<lambda>k c. (1, k @ c)), check_private_key = (\<lambda>_. 1),
     use_certificate_chain_file = (\<lambda>f c. (Inr (), c)), use_private_key_file = (\<lambda>f c. (Inr (), c)),
     load_verify_file = (\<lambda>f c. (Inr (), c)),
     set_verify_mode = (\<lambda>p f c. (if p then ''P'' else ''N'') @ (if f then ''F'' else []) @ c), ticket_idx = 0\<rparr>"

definition sample_tls :: tls_config where
  "sample_tls = default_tls\<lparr>cert_pem := ''c'', key_pem := ''k'', require_client_cert := True\<rparr>"

theorem tls_verify_mode_witness:
  "\<exists>c. ctx (fst (snd (configure_ssl_ctx sample_ssl sample_ticket_env 1 sample_tls [] 0 (fresh_ctx sample_ssl)))) =
     set_verify_mode sample_ssl True True c"
proof -
  let ?r = "configure_ssl_ctx sample_ssl sample_ticket_env 1 sample_tls [] 0 (fresh_ctx sample_ssl)"
  have "fst ?r = Inr ()" by code_simp
  then have "?r = (Inr (), fst (snd ?r), fst (snd (snd ?r)), snd (snd (snd ?r)))" by (metis prod.collapse)
  from tls_verify_mode [OF this] show ?thesis by (simp add: sample_tls_def)
qed

end
