(* ===== verification/Http.thy ===== *)
theory Http
  imports Prelude
begin

text \<open>
  The HTTP messages the framework handles (Boost.Beast's \<^verbatim>\<open>http::request\<close> and \<^verbatim>\<open>http::response\<close>
  with a string body) as data, and the Beast operations the sources call as a record of parameters,
  \<open>beast\<close>: the code under verification never looks inside them. The laws some properties rest on
  are Beast's documented ones.
\<close>

datatype verb = GET | POST | PUT | PATCH | DELETE | OPTIONS | OtherVerb string

type_synonym fields = "(string \<times> string) list"
type_synonym params = "(string, string) umap"

record request =
  req_method :: verb
  req_target :: string
  req_version :: nat
  req_keep_alive :: bool
  req_fields :: fields
  req_body :: string

record response =
  status :: nat
  res_version :: nat
  res_keep_alive :: bool
  res_fields :: fields
  res_body :: string

text \<open>Beast's operations on messages: parameters of every definition that uses them. \<^verbatim>\<open>prepare_payload\<close> throws only for
  a body in a response whose status forbids one (1xx, 204, 304); such responses are left out.\<close>

record beast =
  set_field :: "string \<Rightarrow> string \<Rightarrow> fields \<Rightarrow> fields"
  insert_field :: "string \<Rightarrow> string \<Rightarrow> fields \<Rightarrow> fields"
  field_value :: "fields \<Rightarrow> string \<Rightarrow> string"
  prepare_payload :: "response \<Rightarrow> response"
  prepare_request :: "request \<Rightarrow> request" \<comment> \<open>\<^verbatim>\<open>prepare_payload\<close> of a request\<close>
  clear_res :: "response \<Rightarrow> response" \<comment> \<open>\<^verbatim>\<open>basic_fields::clear\<close>\<close>
  set_keep_alive :: "bool \<Rightarrow> response \<Rightarrow> response"
  reason :: "response \<Rightarrow> string"
  count_field :: "fields \<Rightarrow> string \<Rightarrow> nat"

text \<open>A handler is a coroutine that mutates the response; it may throw after it has done so.\<close>

type_synonym handler = "request \<Rightarrow> response \<Rightarrow> params \<Rightarrow> response \<times> exn option"

definition set_res :: "beast \<Rightarrow> string \<Rightarrow> string \<Rightarrow> response \<Rightarrow> response" where
  "set_res B f v r = r\<lparr>res_fields := set_field B f v (res_fields r)\<rparr>"

text \<open>The documented law of \<^verbatim>\<open>basic_fields::set\<close> and \<^verbatim>\<open>operator[]\<close>: a field that was set reads back,
  other fields are not touched.\<close>

definition set_field_law :: "beast \<Rightarrow> bool" where
  "set_field_law B \<longleftrightarrow> (\<forall>f v fs g. field_value B (set_field B f v fs) g =
     (if g = f then v else field_value B fs g))"

text \<open>The documented law of \<^verbatim>\<open>prepare_payload\<close>: it adjusts framing headers only.\<close>

definition prepare_payload_law :: "beast \<Rightarrow> bool" where
  "prepare_payload_law B \<longleftrightarrow> (\<forall>r. status (prepare_payload B r) = status r \<and>
     res_body (prepare_payload B r) = res_body r)"

text \<open>The documented law of \<^verbatim>\<open>basic_fields::clear\<close> (it removes all fields, nothing else) and of
  \<^verbatim>\<open>message::keep_alive\<close> (it changes the \<^verbatim>\<open>Connection\<close> field only).\<close>

definition clear_law :: "beast \<Rightarrow> bool" where
  "clear_law B \<longleftrightarrow> (\<forall>r. clear_res B r = r\<lparr>res_fields := []\<rparr>)"

definition keep_alive_law :: "beast \<Rightarrow> bool" where
  "keep_alive_law B \<longleftrightarrow> (\<forall>b r. status (set_keep_alive B b r) = status r \<and>
     res_body (set_keep_alive B b r) = res_body r)"

text \<open>A concrete instance of the parameters, for examples: fields as association lists.\<close>

definition sample_beast :: beast where
  "sample_beast = \<lparr>set_field = (\<lambda>f v fs. umap_put f v fs),
     insert_field = (\<lambda>f v fs. fs @ [(f, v)]),
     field_value = (\<lambda>fs f. case map_of fs f of None \<Rightarrow> [] | Some v \<Rightarrow> v),
     prepare_payload = (\<lambda>r. r), prepare_request = (\<lambda>r. r), clear_res = (\<lambda>r. r\<lparr>res_fields := []\<rparr>), set_keep_alive = (\<lambda>b r. r\<lparr>res_keep_alive := b\<rparr>),
     reason = (\<lambda>r. ''reason''), count_field = (\<lambda>fs f. length (filter (\<lambda>p. fst p = f) fs))\<rparr>"

lemma sample_beast_laws: "set_field_law sample_beast" "prepare_payload_law sample_beast"
  "clear_law sample_beast" "keep_alive_law sample_beast"
  by (auto simp: sample_beast_def set_field_law_def prepare_payload_law_def clear_law_def keep_alive_law_def kv_simps)

definition sample_request :: "verb \<Rightarrow> string \<Rightarrow> request" where
  "sample_request m t = \<lparr>req_method = m, req_target = t, req_version = 11, req_keep_alive = True,
     req_fields = [], req_body = []\<rparr>"

definition sample_response :: response where
  "sample_response = \<lparr>status = 200, res_version = 11, res_keep_alive = True, res_fields = [],
     res_body = []\<rparr>"

text \<open>The constructor of an acceptor for an endpoint: the calls it makes and what each answers. Asio sets the
  address to be reusable before it binds; the constructors of the servers set the option once more.\<close>

datatype acceptor_call = MakeAddress | OpenSocket | ReuseAddress | Bind | Listen

fun acceptor_calls :: "(acceptor_call \<Rightarrow> exn option) \<Rightarrow> acceptor_call list \<Rightarrow> unit result" where
  "acceptor_calls answer [] = Inr ()"
| "acceptor_calls answer (c # cs) = (case answer c of Some e \<Rightarrow> Inl e | None \<Rightarrow> acceptor_calls answer cs)"

definition open_acceptor :: "(acceptor_call \<Rightarrow> exn option) \<Rightarrow> unit result" where
  "open_acceptor answer = acceptor_calls answer [MakeAddress, OpenSocket, ReuseAddress, Bind, Listen, ReuseAddress]"

lemma open_acceptor_iff: "open_acceptor answer = Inr () \<longleftrightarrow> (\<forall>c. answer c = None)"
  by (auto simp: open_acceptor_def split: option.splits) (metis acceptor_call.exhaust)

text \<open>An example handler: it answers with the values of its parameters.\<close>

definition echo_handler :: handler where
  "echo_handler req res ps = (res\<lparr>res_body := concat (map snd ps)\<rparr>, None)"

end
