(* ===== verification/Regex.thy ===== *)
theory Regex
  imports Prelude
begin

text \<open>
  The part of \<^verbatim>\<open>std::regex\<close> (ECMAScript grammar) the sources use: the routes build their patterns at
  run time, the URL parser and the e-mail check use fixed ones. \<open>regex_compile\<close> reads a pattern
  string, \<open>regex_match\<close> is the backtracking match of the whole subject with its captures.
  Outside the modelled grammar (look-ahead, back references, lazy quantifiers, class escapes, named
  classes, lone closing brackets) \<open>regex_compile\<close> gives \<open>None\<close>, as for a malformed pattern.
\<close>

subsection \<open>Syntax trees\<close>

datatype re =
    Emp
  | Chr char
  | Dot
  | Cls bool "(char \<times> char) list" \<comment> \<open>negated?, ranges\<close>
  | Bol
  | Eol
  | Grp nat re
  | Cat re re
  | Alt re re
  | Star re

definition in_class :: "(char \<times> char) list \<Rightarrow> char \<Rightarrow> bool" where
  "in_class rs c \<longleftrightarrow> list_ex (\<lambda>(lo, hi). lo \<le> c \<and> c \<le> hi) rs"

definition line_end :: "char \<Rightarrow> bool" where
  "line_end c \<longleftrightarrow> c = CHR 0x0A \<or> c = CHR 0x0D"

subsection \<open>Matching\<close>

type_synonym caps = "(nat \<times> string) list"

text \<open>All ways to match a prefix, in the order backtracking tries them: the remaining subject and
  the captures, newest first. \<open>n\<close> is the length of the whole subject. A repetition that consumed
  nothing is not repeated, as ECMAScript demands.\<close>

function mt :: "nat \<Rightarrow> re \<Rightarrow> string \<Rightarrow> caps \<Rightarrow> (string \<times> caps) list" where
  "mt n Emp s cs = [(s, cs)]"
| "mt n (Chr c) s cs = (case s of x # xs \<Rightarrow> if x = c then [(xs, cs)] else [] | [] \<Rightarrow> [])"
| "mt n Dot s cs = (case s of x # xs \<Rightarrow> if line_end x then [] else [(xs, cs)] | [] \<Rightarrow> [])"
| "mt n (Cls neg rs) s cs =
     (case s of x # xs \<Rightarrow> if in_class rs x \<noteq> neg then [(xs, cs)] else [] | [] \<Rightarrow> [])"
| "mt n Bol s cs = (if length s = n then [(s, cs)] else [])"
| "mt n Eol s cs = (if s = [] then [(s, cs)] else [])"
| "mt n (Grp i r) s cs =
     map (\<lambda>(s', cs'). (s', (i, take (length s - length s') s) # cs')) (mt n r s cs)"
| "mt n (Cat r1 r2) s cs = concat (map (\<lambda>(s', cs'). mt n r2 s' cs') (mt n r1 s cs))"
| "mt n (Alt r1 r2) s cs = mt n r1 s cs @ mt n r2 s cs"
| "mt n (Star r) s cs =
     concat (map (\<lambda>(s', cs'). if length s' < length s then mt n (Star r) s' cs' else [])
       (mt n r s cs)) @ [(s, cs)]"
  by pat_completeness auto
termination
  by (relation "measures [\<lambda>(n, r, s, cs). size r, \<lambda>(n, r, s, cs). length s]") auto

declare mt.simps(10) [simp del]

text \<open>The match of the whole subject: the first way that leaves nothing.\<close>

definition regex_match :: "re \<Rightarrow> string \<Rightarrow> caps option" where
  "regex_match r s = map_option snd (find (\<lambda>(s', cs). s' = []) (mt (length s) r s []))"

text \<open>\<^verbatim>\<open>match[i]\<close>: an unmatched group reads as the empty string.\<close>

definition sub_match :: "caps \<Rightarrow> nat \<Rightarrow> string" where
  "sub_match cs i = (case map_of cs i of None \<Rightarrow> [] | Some s \<Rightarrow> s)"

subsection \<open>Reading a pattern\<close>

definition special :: "char \<Rightarrow> bool" where
  "special c \<longleftrightarrow> c \<in> set ''^$.*+?()[]{}|'' \<or> c = CHR 0x5C \<or> c = CHR 0x00"

definition alnum :: "char \<Rightarrow> bool" where
  "alnum c \<longleftrightarrow> (CHR ''0'' \<le> c \<and> c \<le> CHR ''9'') \<or> (CHR ''A'' \<le> c \<and> c \<le> CHR ''Z'') \<or>
     (CHR ''a'' \<le> c \<and> c \<le> CHR ''z'')"

fun cls_items :: "string \<Rightarrow> (char \<times> char) list option" where
  "cls_items [] = Some []"
| "cls_items (a # m # b # s) =
     (if a = CHR 0x5C \<or> a = CHR ''['' then None
      else if m = CHR ''-'' then
        (if b = CHR 0x5C \<or> b = CHR ''['' \<or> b < a then None
         else map_option ((#) (a, b)) (cls_items s))
      else map_option ((#) (a, a)) (cls_items (m # b # s)))"
| "cls_items (a # s) =
     (if a = CHR 0x5C \<or> a = CHR ''['' then None else map_option ((#) (a, a)) (cls_items s))"

definition mk_class :: "string \<Rightarrow> re option" where
  "mk_class body = (case body of
       [] \<Rightarrow> Some (Cls False [])
     | c # s \<Rightarrow> if c = CHR ''^'' then map_option (Cls True) (cls_items s)
                else map_option (Cls False) (cls_items body))"

fun opt_times :: "nat \<Rightarrow> re \<Rightarrow> re" where
  "opt_times 0 r = Emp"
| "opt_times (Suc n) r = Alt (Cat r (opt_times n r)) Emp"

fun times :: "nat \<Rightarrow> re \<Rightarrow> re \<Rightarrow> re" where
  "times 0 r rest = rest"
| "times (Suc n) r rest = Cat r (times n r rest)"

fun read_nat :: "nat \<Rightarrow> string \<Rightarrow> nat option" where
  "read_nat a [] = Some a"
| "read_nat a (c # s) =
     (if CHR ''0'' \<le> c \<and> c \<le> CHR ''9'' then read_nat (10 * a + (of_char c - 48)) s else None)"

text \<open>The text between the braces of \<^verbatim>\<open>{n}\<close>, \<^verbatim>\<open>{n,}\<close> and \<^verbatim>\<open>{n,m}\<close>.\<close>

definition brace :: "string \<Rightarrow> re \<Rightarrow> re option" where
  "brace body r =
     (let lo = takeWhile (\<lambda>c. c \<noteq> CHR '','') body; rest = dropWhile (\<lambda>c. c \<noteq> CHR '','') body
      in if lo = [] then None else
         case read_nat 0 lo of None \<Rightarrow> None | Some n \<Rightarrow>
           (case rest of
              [] \<Rightarrow> Some (times n r Emp)
            | _ # [] \<Rightarrow> Some (times n r (Star r))
            | _ # hi \<Rightarrow> (case read_nat 0 hi of None \<Rightarrow> None | Some m \<Rightarrow>
                if m < n then None else Some (times n r (opt_times (m - n) r)))))"

text \<open>The terms read so far of the current alternative (last first, with whether a quantifier may
  follow), the alternatives before it, and the enclosing groups.\<close>

type_synonym terms = "(re \<times> bool) list"
type_synonym frame = "nat option \<times> re option \<times> terms"

definition cat_all :: "terms \<Rightarrow> re" where
  "cat_all ts = fold (\<lambda>(r, _) acc. Cat r acc) ts Emp"

definition close_alt :: "re option \<Rightarrow> terms \<Rightarrow> re" where
  "close_alt alts ts = (case alts of None \<Rightarrow> cat_all ts | Some a \<Rightarrow> Alt a (cat_all ts))"

fun quantify :: "(re \<Rightarrow> re option) \<Rightarrow> terms \<Rightarrow> terms option" where
  "quantify f ((r, True) # ts) = map_option (\<lambda>r'. (r', False) # ts) (f r)"
| "quantify f ts = None"

function parse_re ::
  "nat \<Rightarrow> frame list \<Rightarrow> re option \<Rightarrow> terms \<Rightarrow> string \<Rightarrow> re option" where
  "parse_re g st alts ts [] = (if st = [] then Some (close_alt alts ts) else None)"
| "parse_re g st alts ts (c # s) =
    (if c = CHR ''^'' then parse_re g st alts ((Bol, False) # ts) s
     else if c = CHR ''$'' then parse_re g st alts ((Eol, False) # ts) s
     else if c = CHR ''.'' then parse_re g st alts ((Dot, True) # ts) s
     else if c = CHR ''|'' then parse_re g st (Some (close_alt alts ts)) [] s
     else if c = CHR ''('' then
       (if take 2 s = ''?:'' then parse_re g ((None, alts, ts) # st) None [] (drop 2 s)
        else if take 1 s = ''?'' then None
        else parse_re (Suc g) ((Some g, alts, ts) # st) None [] s)
     else if c = CHR '')'' then
       (case st of [] \<Rightarrow> None
        | (gi, a0, t0) # st' \<Rightarrow>
            (let r = close_alt alts ts
             in parse_re g st' a0 (((case gi of None \<Rightarrow> r | Some i \<Rightarrow> Grp i r), True) # t0) s))
     else if c = CHR ''['' then
       (case dropWhile (\<lambda>x. x \<noteq> CHR '']'') s of [] \<Rightarrow> None
        | _ # s' \<Rightarrow> (case mk_class (takeWhile (\<lambda>x. x \<noteq> CHR '']'') s) of None \<Rightarrow> None
            | Some r \<Rightarrow> parse_re g st alts ((r, True) # ts) s'))
     else if c = CHR ''{'' then
       (case dropWhile (\<lambda>x. x \<noteq> CHR ''}'') s of [] \<Rightarrow> None
        | _ # s' \<Rightarrow> (case quantify (brace (takeWhile (\<lambda>x. x \<noteq> CHR ''}'') s)) ts of None \<Rightarrow> None
            | Some ts' \<Rightarrow> parse_re g st alts ts' s'))
     else if c = CHR ''*'' then
       (case quantify (\<lambda>r. Some (Star r)) ts of None \<Rightarrow> None
        | Some ts' \<Rightarrow> parse_re g st alts ts' s)
     else if c = CHR ''+'' then
       (case quantify (\<lambda>r. Some (Cat r (Star r))) ts of None \<Rightarrow> None
        | Some ts' \<Rightarrow> parse_re g st alts ts' s)
     else if c = CHR ''?'' then
       (case quantify (\<lambda>r. Some (Alt r Emp)) ts of None \<Rightarrow> None
        | Some ts' \<Rightarrow> parse_re g st alts ts' s)
     else if c = CHR 0x5C then
       (case s of [] \<Rightarrow> None
        | e # s' \<Rightarrow> if alnum e \<or> e = CHR 0x00 then None
                    else parse_re g st alts ((Chr e, True) # ts) s')
     else if special c then None
     else parse_re g st alts ((Chr c, True) # ts) s)"
  by pat_completeness auto
termination
  by (relation "measure (\<lambda>(g, st, alts, ts, s). length s)") (auto dest: dropWhile_Cons_length)

declare parse_re.simps(2) [simp del]

definition regex_compile :: "string \<Rightarrow> re option" where
  "regex_compile p = parse_re 1 [] None [] p"

subsection \<open>What the matcher accepts\<close>

named_theorems re_simps \<comment> \<open>membership in the results of the matcher, per constructor\<close>

lemma mt_Emp [re_simps]: "(s', cs') \<in> set (mt n Emp s cs) \<longleftrightarrow> s' = s \<and> cs' = cs"
  by auto

lemma mt_Chr [re_simps]: "(s', cs') \<in> set (mt n (Chr c) s cs) \<longleftrightarrow> s = c # s' \<and> cs' = cs"
  by (auto split: list.splits)

lemma mt_Cls [re_simps]:
  "(s', cs') \<in> set (mt n (Cls neg rs) s cs) \<longleftrightarrow> (\<exists>c. s = c # s' \<and> in_class rs c \<noteq> neg) \<and> cs' = cs"
  by (auto split: list.splits)

lemma mt_Dot [re_simps]:
  "(s', cs') \<in> set (mt n Dot s cs) \<longleftrightarrow> (\<exists>c. s = c # s' \<and> \<not> line_end c) \<and> cs' = cs"
  by (auto split: list.splits)

lemma mt_Bol [re_simps]: "(s', cs') \<in> set (mt n Bol s cs) \<longleftrightarrow> length s = n \<and> s' = s \<and> cs' = cs"
  by auto

lemma mt_Eol [re_simps]: "(s', cs') \<in> set (mt n Eol s cs) \<longleftrightarrow> s = [] \<and> s' = s \<and> cs' = cs"
  by auto

lemma mt_Cat [re_simps]:
  "(s', cs') \<in> set (mt n (Cat r1 r2) s cs) \<longleftrightarrow>
     (\<exists>s1 cs1. (s1, cs1) \<in> set (mt n r1 s cs) \<and> (s', cs') \<in> set (mt n r2 s1 cs1))"
  by fastforce

lemma mt_Alt [re_simps]:
  "(s', cs') \<in> set (mt n (Alt r1 r2) s cs) \<longleftrightarrow>
     (s', cs') \<in> set (mt n r1 s cs) \<or> (s', cs') \<in> set (mt n r2 s cs)"
  by auto

lemma mt_Grp [re_simps]:
  "(s', cs') \<in> set (mt n (Grp i r) s cs) \<longleftrightarrow>
     (\<exists>cs1. (s', cs1) \<in> set (mt n r s cs) \<and> cs' = (i, take (length s - length s') s) # cs1)"
  by force

text \<open>A run of characters of a class.\<close>

definition all_cls :: "bool \<Rightarrow> (char \<times> char) list \<Rightarrow> string \<Rightarrow> bool" where
  "all_cls neg rs p \<longleftrightarrow> (\<forall>c \<in> set p. in_class rs c \<noteq> neg)"

lemma all_cls_simps [simp]:
  "all_cls neg rs []"
  "all_cls neg rs (c # p) \<longleftrightarrow> in_class rs c \<noteq> neg \<and> all_cls neg rs p"
  "all_cls neg rs (p @ q) \<longleftrightarrow> all_cls neg rs p \<and> all_cls neg rs q"
  by (auto simp: all_cls_def)

lemma mt_Star_Cls [re_simps]:
  "(s', cs') \<in> set (mt n (Star (Cls neg rs)) s cs) \<longleftrightarrow>
     (\<exists>p. s = p @ s' \<and> all_cls neg rs p) \<and> cs' = cs"
proof (induction s)
  case Nil
  then show ?case by (auto simp: mt.simps(10))
next
  case (Cons c s)
  have "(s', cs') \<in> set (mt n (Star (Cls neg rs)) (c # s) cs) \<longleftrightarrow>
      (in_class rs c \<noteq> neg \<and> (s', cs') \<in> set (mt n (Star (Cls neg rs)) s cs)) \<or> s' = c # s \<and> cs' = cs"
    by (subst mt.simps(10)) auto
  also have "\<dots> \<longleftrightarrow> (\<exists>p. c # s = p @ s' \<and> all_cls neg rs p) \<and> cs' = cs"
    unfolding Cons.IH by (auto simp: Cons_eq_append_conv)
  finally show ?case .
qed

lemma mt_Star_Dot [re_simps]:
  "(s', cs') \<in> set (mt n (Star Dot) s cs) \<longleftrightarrow> (\<exists>p. s = p @ s' \<and> (\<forall>c \<in> set p. \<not> line_end c)) \<and> cs' = cs"
proof (induction s)
  case Nil
  then show ?case by (auto simp: mt.simps(10))
next
  case (Cons c s)
  have "(s', cs') \<in> set (mt n (Star Dot) (c # s) cs) \<longleftrightarrow>
      (\<not> line_end c \<and> (s', cs') \<in> set (mt n (Star Dot) s cs)) \<or> s' = c # s \<and> cs' = cs"
    by (subst mt.simps(10)) auto
  also have "\<dots> \<longleftrightarrow> (\<exists>p. c # s = p @ s' \<and> (\<forall>c \<in> set p. \<not> line_end c)) \<and> cs' = cs"
    unfolding Cons.IH by (auto simp: Cons_eq_append_conv)
  finally show ?case .
qed

text \<open>One or more characters of a class, captured; and an optional part.\<close>

lemma mt_plus_group [re_simps]:
  "(s', cs') \<in> set (mt n (Grp i (Cat (Cat (Cls neg rs) (Star (Cls neg rs))) Emp)) s cs) \<longleftrightarrow>
     (\<exists>v. s = v @ s' \<and> v \<noteq> [] \<and> all_cls neg rs v \<and> cs' = (i, v) # cs)"
proof -
  have "(s', cs1) \<in> set (mt n (Cat (Cat (Cls neg rs) (Star (Cls neg rs))) Emp) s cs) \<longleftrightarrow>
      (\<exists>v. s = v @ s' \<and> v \<noteq> [] \<and> all_cls neg rs v) \<and> cs1 = cs" for cs1
    unfolding mt_Cat mt_Emp mt_Star_Cls mt_Cls by (auto simp: neq_Nil_conv)
  then show ?thesis unfolding mt_Grp by auto
qed

lemma mt_optional [re_simps]:
  "(s', cs') \<in> set (mt n (Alt r Emp) s cs) \<longleftrightarrow> (s', cs') \<in> set (mt n r s cs) \<or> s' = s \<and> cs' = cs"
  by auto

lemma regex_match_Some: "regex_match r s = Some cs \<Longrightarrow> ([], cs) \<in> set (mt (length s) r s [])"
  by (auto simp: regex_match_def find_Some_iff dest: nth_mem)

lemma regex_match_None: "regex_match r s = None \<longleftrightarrow> (\<forall>cs. ([], cs) \<notin> set (mt (length s) r s []))"
  by (auto simp: regex_match_def find_None_iff)

text \<open>Where the captures of a full match are determined, the match returns them.\<close>

lemma regex_match_unique:
  assumes "\<And>cs. ([], cs) \<in> set (mt (length s) r s []) \<longleftrightarrow> P cs"
    and "\<And>cs cs'. P cs \<Longrightarrow> P cs' \<Longrightarrow> cs = cs'"
  shows "regex_match r s = Some cs \<longleftrightarrow> P cs"
  using assms regex_match_Some [of r s cs] regex_match_None [of r s]
  by (metis not_Some_eq regex_match_Some)

subsection \<open>What the reader builds\<close>

lemma cat_all_Cons: "cat_all (ts @ [t]) = Cat (fst t) (cat_all ts)"
  by (simp add: cat_all_def split: prod.splits)

lemma cat_all_Nil [simp]: "cat_all [] = Emp"
  by (simp add: cat_all_def)

lemma special_simps [simp]: "special CHR ''/'' \<longleftrightarrow> False"
  by (simp add: special_def)

lemma parse_re_literal:
  "\<not> special c \<Longrightarrow> parse_re g st alts ts (c # s) = parse_re g st alts ((Chr c, True) # ts) s"
  by (subst parse_re.simps) (auto simp: special_def)

lemma parse_re_literals:
  "\<forall>c \<in> set w. \<not> special c \<Longrightarrow>
     parse_re g st alts ts (w @ s) = parse_re g st alts (rev (map (\<lambda>c. (Chr c, True)) w) @ ts) s"
  by (induction w arbitrary: ts) (auto simp: parse_re_literal)

lemma parse_re_bol: "parse_re g st alts ts (CHR ''^'' # s) = parse_re g st alts ((Bol, False) # ts) s"
  by (subst parse_re.simps) simp

lemma parse_re_eol: "parse_re g st alts ts (CHR ''$'' # s) = parse_re g st alts ((Eol, False) # ts) s"
  by (subst parse_re.simps) simp

text \<open>One or more characters other than a slash, as the routes capture them.\<close>

definition not_slash :: re where
  "not_slash = Cls True [(CHR ''/'', CHR ''/'')]"

definition segment_re :: "nat \<Rightarrow> re" where
  "segment_re i = Grp i (Cat (Cat not_slash (Star not_slash)) Emp)"

lemma parse_re_segment:
  "parse_re g st alts ts (''([^/]+)'' @ s) =
     parse_re (Suc g) st alts ((segment_re g, True) # ts) s"
  by (simp add: parse_re.simps mk_class_def close_alt_def cat_all_def segment_re_def not_slash_def)

lemma in_class_slash [simp]: "in_class [(CHR ''/'', CHR ''/'')] c \<longleftrightarrow> c = CHR ''/''"
  by (auto simp: in_class_def)

lemma mt_segment [re_simps]:
  "(s', cs') \<in> set (mt n (segment_re i) s cs) \<longleftrightarrow>
     (\<exists>v. s = v @ s' \<and> v \<noteq> [] \<and> CHR ''/'' \<notin> set v \<and> cs' = (i, v) # cs)"
proof -
  have all: "all_cls True [(CHR ''/'', CHR ''/'')] p \<longleftrightarrow> CHR ''/'' \<notin> set p" for p
    by (auto simp: all_cls_def)
  have plus: "(s', cs1) \<in> set (mt n (Cat (Cat not_slash (Star not_slash)) Emp) s cs) \<longleftrightarrow>
      (\<exists>v. s = v @ s' \<and> v \<noteq> [] \<and> CHR ''/'' \<notin> set v) \<and> cs1 = cs" for cs1
    unfolding not_slash_def mt_Cat mt_Emp mt_Star_Cls mt_Cls all in_class_slash
    by (auto simp: neq_Nil_conv)
  show ?thesis
    unfolding segment_re_def mt_Grp plus by auto
qed

end
