(* ===== verification/Route.thy ===== *)
theory Route
  imports Http Regex
begin

text \<open>
  \<^verbatim>\<open>src/Router/Route.cpp\<close> and \<^verbatim>\<open>src/Router/Router.cpp\<close>: a path with \<^verbatim>\<open>:name\<close> segments is turned into
  a regular expression, requests are matched against it and the captured segments become the
  handler's parameters; the router runs the first route of the request's method that matches.
  The reference \<open>match_path\<close> compares the segments of pattern and request one by one; the regular
  expression is proved equivalent to it for patterns without regular expression operators.
\<close>

subsection \<open>Route\<close>

record route =
  pathRegex :: re
  paramNames :: "string list"
  originalPath :: string
  route_handler :: "handler option" \<comment> \<open>\<open>None\<close>: an empty \<^verbatim>\<open>std::function\<close>\<close>

fun convert_tokens :: "string \<Rightarrow> string list \<Rightarrow> string" where
  "convert_tokens regexStr [] = regexStr"
| "convert_tokens regexStr (token # ts) =
     (if token = [] then convert_tokens regexStr ts
      else if hd token = CHR '':'' then convert_tokens (regexStr @ ''/([^/]+)'') ts
      else convert_tokens (regexStr @ ''/'' @ token) ts)"

definition regex_of_path :: "string \<Rightarrow> string" where
  "regex_of_path path =
     (let regexStr = convert_tokens ''^'' (getline_split CHR ''/'' path)
      in if regexStr = ''^'' then regexStr @ ''/?$'' else regexStr @ ''$'')"

definition convertPathToRegex :: "string \<Rightarrow> re result" where
  "convertPathToRegex path =
     (case regex_compile (regex_of_path path) of
        None \<Rightarrow> Inl (runtime_error ''regex_error'') | Some r \<Rightarrow> Inr r)"

fun extract_tokens :: "string list \<Rightarrow> string list" where
  "extract_tokens [] = []"
| "extract_tokens (token # ts) =
     (if token \<noteq> [] \<and> hd token = CHR '':'' then tl token # extract_tokens ts
      else extract_tokens ts)"

definition extractParamNames :: "string \<Rightarrow> string list" where
  "extractParamNames path = extract_tokens (getline_split CHR ''/'' path)"

definition Route :: "string \<Rightarrow> handler option \<Rightarrow> route result" where
  "Route path h = bind_result (convertPathToRegex path) (\<lambda>re.
     Inr \<lparr>pathRegex = re, paramNames = extractParamNames path, originalPath = path, route_handler = h\<rparr>)"

definition path_only :: "string \<Rightarrow> string" where
  "path_only target = (case find_char CHR ''?'' target of None \<Rightarrow> target | Some i \<Rightarrow> take i target)"

fun store_params :: "string list \<Rightarrow> nat \<Rightarrow> caps \<Rightarrow> params \<Rightarrow> params" where
  "store_params [] i m out = out"
| "store_params (n # ns) i m out = store_params ns (Suc i) m (umap_put n (sub_match m (i + 1)) out)"

definition route_match :: "route \<Rightarrow> string \<Rightarrow> params \<Rightarrow> bool \<times> params" where
  "route_match r target out =
     (case regex_match (pathRegex r) (path_only target) of
        None \<Rightarrow> (False, out)
      | Some m \<Rightarrow> (True, store_params (paramNames r) 0 m out))"

definition process :: "route \<Rightarrow> request \<Rightarrow> response \<Rightarrow> params \<Rightarrow> response \<times> exn option" where
  "process r req res ps = (case route_handler r of None \<Rightarrow> (res, None) | Some h \<Rightarrow> h req res ps)"

definition route_path :: "route \<Rightarrow> string" where
  "route_path r = originalPath r"

subsection \<open>Router\<close>

type_synonym routes = "verb \<rightharpoonup> route list"

text \<open>\<^verbatim>\<open>routes_[method].emplace_back(path, handler)\<close>: the entry of the method exists afterwards even
  when the constructor of the route throws.\<close>

definition add :: "verb \<Rightarrow> string \<Rightarrow> handler option \<Rightarrow> routes \<Rightarrow> routes \<times> exn option" where
  "add m path h rs =
     (let v = (case rs m of None \<Rightarrow> [] | Some v \<Rightarrow> v)
      in case Route path h of
           Inl e \<Rightarrow> (rs(m \<mapsto> v), Some e)
         | Inr r \<Rightarrow> (rs(m \<mapsto> v @ [r]), None))"

fun scan_routes :: "route list \<Rightarrow> string \<Rightarrow> params \<Rightarrow> (nat \<times> params) option" where
  "scan_routes [] target ps = None"
| "scan_routes (r # rs) target ps =
     (let (hit, out) = route_match r target ps
      in if hit then Some (0, out)
         else map_option (\<lambda>(i, q). (Suc i, q)) (scan_routes rs target ps))"

definition not_found :: "beast \<Rightarrow> response \<Rightarrow> response" where
  "not_found B res = prepare_payload B (res\<lparr>status := 404, res_body := ''404 Not Found''\<rparr>)"

definition handle_request :: "beast \<Rightarrow> routes \<Rightarrow> request \<Rightarrow> response \<Rightarrow> response \<times> exn option" where
  "handle_request B rs req res =
     (case rs (req_method req) of
        None \<Rightarrow> (not_found B res, None)
      | Some v \<Rightarrow>
          (case scan_routes v (req_target req) [] of
             None \<Rightarrow> (not_found B res, None)
           | Some (i, ps) \<Rightarrow> process (v ! i) req res ps))"

subsection \<open>The reference: segment by segment\<close>

datatype seg = Lit string | Par string

definition path_segs :: "string \<Rightarrow> seg list" where
  "path_segs path = map (\<lambda>t. if hd t = CHR '':'' then Par (tl t) else Lit t)
     (filter (\<lambda>t. t \<noteq> []) (getline_split CHR ''/'' path))"

fun par_names :: "seg list \<Rightarrow> string list" where
  "par_names [] = []"
| "par_names (Lit _ # ss) = par_names ss"
| "par_names (Par n # ss) = n # par_names ss"

fun match_segs :: "seg list \<Rightarrow> string \<Rightarrow> string list option" where
  "match_segs [] s = (if s = [] then Some [] else None)"
| "match_segs (sg # ss) [] = None"
| "match_segs (sg # ss) (c # s) =
     (if c \<noteq> CHR ''/'' then None
      else let w = takeWhile (\<lambda>x. x \<noteq> CHR ''/'') s; rest = dropWhile (\<lambda>x. x \<noteq> CHR ''/'') s
           in case sg of
                Lit l \<Rightarrow> (if w = l then match_segs ss rest else None)
              | Par _ \<Rightarrow> (if w = [] then None else map_option ((#) w) (match_segs ss rest)))"

definition match_path :: "string \<Rightarrow> string \<Rightarrow> string list option" where
  "match_path path s =
     (if path_segs path = [] then (if s = [] \<or> s = ''/'' then Some [] else None)
      else match_segs (path_segs path) s)"

text \<open>A pattern whose literal segments hold no operator of the regular expression syntax.\<close>

definition plain_path :: "string \<Rightarrow> bool" where
  "plain_path path \<longleftrightarrow> (\<forall>t \<in> set (getline_split CHR ''/'' path).
     t = [] \<or> hd t = CHR '':'' \<or> (\<forall>c \<in> set t. \<not> special c))"

subsection \<open>The regular expression of a path\<close>

fun seg_terms :: "nat \<Rightarrow> seg list \<Rightarrow> re list" where
  "seg_terms g [] = []"
| "seg_terms g (Lit w # ss) = Chr CHR ''/'' # map Chr w @ seg_terms g ss"
| "seg_terms g (Par n # ss) = Chr CHR ''/'' # segment_re g # seg_terms (Suc g) ss"

fun seg_string :: "seg \<Rightarrow> string" where
  "seg_string (Lit w) = ''/'' @ w"
| "seg_string (Par n) = ''/([^/]+)''"

definition segs_ok :: "seg list \<Rightarrow> bool" where
  "segs_ok ss \<longleftrightarrow> (\<forall>s \<in> set ss. case s of Lit w \<Rightarrow> w \<noteq> [] \<and> CHR ''/'' \<notin> set w \<and> (\<forall>c \<in> set w. \<not> special c)
     | Par _ \<Rightarrow> True)"

lemma convert_tokens_segs:
  "convert_tokens acc ts = acc @ concat (map seg_string
     (map (\<lambda>t. if hd t = CHR '':'' then Par (tl t) else Lit t) (filter (\<lambda>t. t \<noteq> []) ts)))"
  by (induction ts arbitrary: acc) auto

lemma convert_path_segs:
  "convert_tokens ''^'' (getline_split CHR ''/'' path) = ''^'' @ concat (map seg_string (path_segs path))"
  by (simp add: convert_tokens_segs path_segs_def)

lemma extract_par_names: "extractParamNames path = par_names (path_segs path)"
proof -
  have "extract_tokens ts = par_names (map (\<lambda>t. if hd t = CHR '':'' then Par (tl t) else Lit t)
      (filter (\<lambda>t. t \<noteq> []) ts))" for ts
    by (induction ts) auto
  then show ?thesis by (simp add: extractParamNames_def path_segs_def)
qed

lemma plain_path_segs_ok: "plain_path path \<Longrightarrow> segs_ok (path_segs path)"
  by (fastforce simp: plain_path_def segs_ok_def path_segs_def dest: getline_split_no_delim)

lemma parse_segs:
  "segs_ok ss \<Longrightarrow> parse_re g [] None ts (concat (map seg_string ss) @ ''$'') =
     Some (cat_all ((Eol, False) # rev (map (\<lambda>r. (r, True)) (seg_terms g ss)) @ ts))"
proof (induction ss arbitrary: g ts)
  case Nil
  then show ?case by (simp add: parse_re_eol close_alt_def)
next
  case (Cons sg ss)
  show ?case
  proof (cases sg)
    case (Lit w)
    with Cons.prems have w: "\<forall>c \<in> set w. \<not> special c" and ss: "segs_ok ss"
      by (auto simp: segs_ok_def)
    show ?thesis
      using Cons.IH [OF ss] Lit
      by (simp add: parse_re_literal parse_re_literals [OF w] rev_map comp_def)
  next
    case (Par n)
    with Cons.prems have ss: "segs_ok ss" by (auto simp: segs_ok_def)
    have "parse_re g [] None ts (''/'' @ ''([^/]+)'' @ concat (map seg_string ss) @ ''$'') =
        parse_re (Suc g) [] None ((segment_re g, True) # (Chr CHR ''/'', True) # ts)
          (concat (map seg_string ss) @ ''$'')"
      by (simp add: parse_re_literal parse_re_segment [simplified])
    with Cons.IH [OF ss] Par show ?thesis by simp
  qed
qed

lemma cat_all_rev: "cat_all (rev ts) = foldr (\<lambda>(r, _). Cat r) ts Emp"
  by (simp add: cat_all_def foldr_conv_fold)

lemma foldr_fst: "foldr (\<lambda>(r, _). Cat r) (map (\<lambda>r. (r, b)) rs) k = foldr Cat rs k"
  by (induction rs) auto

lemma compile_segs:
  assumes "segs_ok ss" "ss \<noteq> []"
  shows "regex_compile (''^'' @ concat (map seg_string ss) @ ''$'') =
     Some (Cat Bol (foldr Cat (seg_terms 1 ss) (Cat Eol Emp)))"
proof -
  have "cat_all ((Eol, False) # rev (map (\<lambda>r. (r, True)) (seg_terms 1 ss)) @ [(Bol, False)]) =
      cat_all (rev ([(Bol, False)] @ map (\<lambda>r. (r, True)) (seg_terms 1 ss) @ [(Eol, False)]))"
    by simp
  also have "\<dots> = Cat Bol (foldr Cat (seg_terms 1 ss) (Cat Eol Emp))"
    unfolding cat_all_rev by (simp add: foldr_fst)
  finally show ?thesis
    using parse_segs [OF assms(1), of 1 "[(Bol, False)]"] by (simp add: regex_compile_def parse_re_bol)
qed

lemma compile_root: "regex_compile ''^/?$'' = Some (Cat Bol (Cat (Alt (Chr CHR ''/'') Emp) (Cat Eol Emp)))"
  by (simp add: regex_compile_def parse_re.simps close_alt_def cat_all_def special_def)

subsection \<open>Matching the expression is matching the segments\<close>

lemma take_drop_segment:
  assumes "CHR ''/'' \<notin> set w" "s = [] \<or> hd s = CHR ''/''"
  shows "takeWhile (\<lambda>x. x \<noteq> CHR ''/'') (w @ s) = w" "dropWhile (\<lambda>x. x \<noteq> CHR ''/'') (w @ s) = s"
  using assms by (cases s; induction w; auto)+

lemma match_segs_head: "match_segs ss s = Some vs \<Longrightarrow> s = [] \<or> hd s = CHR ''/''"
  by (cases "(ss, s)" rule: match_segs.cases) (auto split: if_splits)

lemma match_segs_Lit:
  assumes "CHR ''/'' \<notin> set w"
  shows "match_segs (Lit w # ss) s = Some vs \<longleftrightarrow> (\<exists>s'. s = CHR ''/'' # w @ s' \<and> match_segs ss s' = Some vs)"
    (is "?l \<longleftrightarrow> ?r")
proof
  assume ?l
  then obtain t where t: "s = CHR ''/'' # t" "takeWhile (\<lambda>x. x \<noteq> CHR ''/'') t = w"
    "match_segs ss (dropWhile (\<lambda>x. x \<noteq> CHR ''/'') t) = Some vs"
    by (cases s) (auto simp: Let_def split: if_splits)
  with takeWhile_dropWhile_id [of "\<lambda>x. x \<noteq> CHR ''/''" t] show ?r by metis
next
  assume ?r
  then obtain t where "s = CHR ''/'' # w @ t" "match_segs ss t = Some vs" by blast
  with take_drop_segment [OF assms match_segs_head [of ss t vs]] show ?l by simp
qed

lemma match_segs_Par:
  "match_segs (Par n # ss) s = Some vs \<longleftrightarrow>
     (\<exists>v s' vs'. s = CHR ''/'' # v @ s' \<and> v \<noteq> [] \<and> CHR ''/'' \<notin> set v \<and> vs = v # vs' \<and>
        match_segs ss s' = Some vs')" (is "?l \<longleftrightarrow> ?r")
proof
  assume ?l
  then obtain t vs' where t: "s = CHR ''/'' # t" "takeWhile (\<lambda>x. x \<noteq> CHR ''/'') t \<noteq> []"
    "vs = takeWhile (\<lambda>x. x \<noteq> CHR ''/'') t # vs'"
    "match_segs ss (dropWhile (\<lambda>x. x \<noteq> CHR ''/'') t) = Some vs'"
    by (cases s) (auto simp: Let_def split: if_splits)
  moreover have "CHR ''/'' \<notin> set (takeWhile (\<lambda>x. x \<noteq> CHR ''/'') t)"
    by (auto dest: set_takeWhileD)
  ultimately show ?r
    using takeWhile_dropWhile_id [of "\<lambda>x. x \<noteq> CHR ''/''" t] by metis
next
  assume ?r
  then obtain v t vs' where "s = CHR ''/'' # v @ t" "v \<noteq> []" "CHR ''/'' \<notin> set v" "vs = v # vs'"
    "match_segs ss t = Some vs'" by blast
  with take_drop_segment [of v t] match_segs_head [of ss t vs'] show ?l by (simp add: Let_def)
qed

lemma mt_literals:
  "(s', cs') \<in> set (mt n (foldr Cat (map Chr w) k) s cs) \<longleftrightarrow>
     (\<exists>t. s = w @ t \<and> (s', cs') \<in> set (mt n k t cs))"
proof (induction w arbitrary: s)
  case (Cons c w)
  have "(s', cs') \<in> set (mt n (foldr Cat (map Chr (c # w)) k) s cs) \<longleftrightarrow>
      (\<exists>s1. s = c # s1 \<and> (s', cs') \<in> set (mt n (foldr Cat (map Chr w) k) s1 cs))"
    by (simp only: list.map foldr.simps comp_apply mt_Cat mt_Chr) blast
  then show ?case unfolding Cons.IH by auto
qed simp

lemma upt_zip_Cons: "zip [g..<Suc (g + n)] (v # vs) = (g, v) # zip [Suc g..<Suc (g + n)] vs"
  by (simp add: upt_conv_Cons del: upt_Suc)

lemma mt_segs:
  "segs_ok ss \<Longrightarrow> ([], cs') \<in> set (mt n (foldr Cat (seg_terms g ss) (Cat Eol Emp)) s cs) \<longleftrightarrow>
     (\<exists>vs. match_segs ss s = Some vs \<and> cs' = rev (zip [g..<g + length vs] vs) @ cs)"
proof (induction g ss arbitrary: s cs rule: seg_terms.induct)
  case (1 g)
  show ?case by (auto simp: re_simps simp del: mt.simps)
next
  case (2 g w ss)
  then have ok: "segs_ok ss" and w: "CHR ''/'' \<notin> set w" by (auto simp: segs_ok_def)
  have "foldr Cat (seg_terms g (Lit w # ss)) k =
      foldr Cat (map Chr (CHR ''/'' # w)) (foldr Cat (seg_terms g ss) k)" for k
    by simp
  with "2.IH" [OF ok] show ?case
    by (simp add: mt_literals match_segs_Lit [OF w] del: foldr.simps list.map mt.simps) blast
next
  case (3 g n' ss)
  then have ok: "segs_ok ss" by (auto simp: segs_ok_def)
  let ?k = "foldr Cat (seg_terms (Suc g) ss) (Cat Eol Emp)"
  have "([], cs') \<in> set (mt n (Cat (Chr CHR ''/'') (Cat (segment_re g) ?k)) s cs) \<longleftrightarrow>
      (\<exists>v t. s = CHR ''/'' # v @ t \<and> v \<noteq> [] \<and> CHR ''/'' \<notin> set v \<and>
         ([], cs') \<in> set (mt n ?k t ((g, v) # cs)))"
    unfolding mt_Cat mt_Chr mt_segment by blast
  also have "\<dots> \<longleftrightarrow> (\<exists>vs. match_segs (Par n' # ss) s = Some vs \<and>
      cs' = rev (zip [g..<g + length vs] vs) @ cs)"
    (is "?l \<longleftrightarrow> ?r")
  proof
    assume ?l
    then show ?r unfolding "3.IH" [OF ok] match_segs_Par
      by (elim exE conjE) (rule exI, rule conjI, blast, simp add: upt_zip_Cons del: upt_Suc)
  next
    assume ?r
    then obtain v t vs where "s = CHR ''/'' # v @ t" "v \<noteq> []" "CHR ''/'' \<notin> set v"
      "match_segs ss t = Some vs" "cs' = rev (zip [g..<g + length (v # vs)] (v # vs)) @ cs"
      unfolding match_segs_Par by blast
    then show ?l unfolding "3.IH" [OF ok]
      by (intro exI [of _ v] exI [of _ t]) (simp add: upt_zip_Cons del: upt_Suc)
  qed
  finally show ?case by simp
qed

definition seg_caps :: "string list \<Rightarrow> caps" where
  "seg_caps vs = rev (zip [1..<1 + length vs] vs)"

lemma sub_match_seg_caps: "i < length vs \<Longrightarrow> sub_match (seg_caps vs) (Suc i) = vs ! i"
proof -
  assume i: "i < length vs"
  have "map_of (seg_caps vs) (Suc i) = Some (vs ! i)"
    unfolding seg_caps_def
    by (rule map_of_is_SomeI)
      (use i in \<open>auto simp: rev_map [symmetric] set_zip simp del: upt_Suc intro!: exI [of _ i]\<close>)
  then show ?thesis by (simp add: sub_match_def)
qed

lemma root_re_match:
  "regex_match (Cat Bol (Cat (Alt (Chr CHR ''/'') Emp) (Cat Eol Emp))) s = Some cs \<longleftrightarrow>
     (s = [] \<or> s = ''/'') \<and> cs = []"
proof (rule regex_match_unique)
  show "([], cs) \<in> set (mt (length s) (Cat Bol (Cat (Alt (Chr CHR ''/'') Emp) (Cat Eol Emp))) s []) \<longleftrightarrow>
      (s = [] \<or> s = ''/'') \<and> cs = []" for cs
    unfolding mt_Cat mt_Bol mt_Alt mt_Chr mt_Emp mt_Eol by blast
qed blast

lemma segs_re_match:
  assumes "segs_ok ss"
  shows "regex_match (Cat Bol (foldr Cat (seg_terms 1 ss) (Cat Eol Emp))) s = Some cs \<longleftrightarrow>
     (\<exists>vs. match_segs ss s = Some vs \<and> cs = seg_caps vs)"
proof (rule regex_match_unique)
  show "([], cs) \<in> set (mt (length s) (Cat Bol (foldr Cat (seg_terms 1 ss) (Cat Eol Emp))) s []) \<longleftrightarrow>
      (\<exists>vs. match_segs ss s = Some vs \<and> cs = seg_caps vs)" for cs
    unfolding mt_Cat [of _ _ _ Bol] mt_Bol using mt_segs [OF assms, of cs "length s" 1 s "[]"]
    unfolding seg_caps_def by simp
qed force

lemma option_eqI: "(\<And>x. a = Some x \<longleftrightarrow> b = Some x) \<Longrightarrow> a = b"
  by (cases a; cases b) auto

lemma convert_matches:
  assumes "plain_path path"
  shows "\<exists>r. convertPathToRegex path = Inr r \<and>
    (\<forall>s. regex_match r s = map_option seg_caps (match_path path s))"
proof (cases "path_segs path = []")
  case True
  have "convertPathToRegex path = Inr (Cat Bol (Cat (Alt (Chr CHR ''/'') Emp) (Cat Eol Emp)))"
    using True compile_root
    by (simp add: convertPathToRegex_def regex_of_path_def convert_path_segs)
  moreover have "regex_match (Cat Bol (Cat (Alt (Chr CHR ''/'') Emp) (Cat Eol Emp))) s =
      map_option seg_caps (match_path path s)" for s
    by (rule option_eqI, subst root_re_match) (use True in \<open>auto simp: match_path_def seg_caps_def\<close>)
  ultimately show ?thesis by blast
next
  case False
  have ok: "segs_ok (path_segs path)" using assms by (rule plain_path_segs_ok)
  have ne: "concat (map seg_string (path_segs path)) \<noteq> []"
  proof (cases "path_segs path")
    case (Cons a as)
    then show ?thesis by (cases a) simp_all
  qed (use False in simp)
  have "convertPathToRegex path = Inr (Cat Bol (foldr Cat (seg_terms 1 (path_segs path)) (Cat Eol Emp)))"
    using compile_segs [OF ok False] ne
    by (simp add: convertPathToRegex_def regex_of_path_def convert_path_segs Let_def
        del: concat_eq_Nil_conv)
  moreover have "regex_match (Cat Bol (foldr Cat (seg_terms 1 (path_segs path)) (Cat Eol Emp))) s =
      map_option seg_caps (match_path path s)" for s
    by (rule option_eqI, subst segs_re_match [OF ok]) (use False in \<open>auto simp: match_path_def\<close>)
  ultimately show ?thesis by blast
qed

lemma match_segs_length: "match_segs ss s = Some vs \<Longrightarrow> length vs = length (par_names ss)"
proof (induction ss arbitrary: s vs)
  case (Cons sg ss)
  show ?case
  proof (cases s)
    case (Cons c t)
    then obtain vs' where "match_segs ss (dropWhile (\<lambda>x. x \<noteq> CHR ''/'') t) = Some vs'"
      "length vs = (case sg of Lit _ \<Rightarrow> length vs' | Par _ \<Rightarrow> Suc (length vs'))"
      using Cons.prems by (cases sg) (auto simp: Let_def split: if_splits)
    with Cons.IH show ?thesis by (cases sg) auto
  qed (use Cons.prems in simp)
qed (simp split: if_splits)

lemma match_path_length: "match_path path s = Some vs \<Longrightarrow> length vs = length (extractParamNames path)"
  by (auto simp: match_path_def extract_par_names dest: match_segs_length split: if_splits)

lemma store_params_drop:
  "length ns + i = length vs \<Longrightarrow>
     store_params ns i (seg_caps vs) out = fold (\<lambda>(n, v) m. umap_put n v m) (zip ns (drop i vs)) out"
  by (induction ns arbitrary: i out)
    (auto simp: sub_match_seg_caps Cons_nth_drop_Suc [symmetric])

lemma store_params_seg_caps:
  "length ns = length vs \<Longrightarrow>
     store_params ns 0 (seg_caps vs) out = fold (\<lambda>(n, v) m. umap_put n v m) (zip ns vs) out"
  using store_params_drop [of ns 0 vs out] by simp

text \<open>C1: for every route path whose literal segments hold no regular expression operator, the
  constructor succeeds and matching a request target (its query string cut off) is exactly the
  segment-wise comparison of the reference; on a match each parameter name is stored with the
  segment at its position, in order, and on a failure the output parameters are left alone.\<close>

theorem route_match_reference:
  assumes "plain_path path"
  shows "\<exists>r. Route path h = Inr r \<and> (\<forall>target out. route_match r target out =
     (case match_path path (path_only target) of
        None \<Rightarrow> (False, out)
      | Some vs \<Rightarrow> (True, fold (\<lambda>(n, v) m. umap_put n v m) (zip (extractParamNames path) vs) out)))"
proof -
  obtain re where re: "convertPathToRegex path = Inr re"
    "\<And>s. regex_match re s = map_option seg_caps (match_path path s)"
    using convert_matches [OF assms] by blast
  show ?thesis
    by (simp add: Route_def re route_match_def store_params_seg_caps match_path_length
        split: option.splits)
qed

theorem route_match_reference_witness:
  "plain_path ''/users/:id/posts/:post'' \<and>
   (\<exists>r. Route ''/users/:id/posts/:post'' None = Inr r \<and>
     route_match r ''/users/42/posts/7?page=2'' [] = (True, [(''id'', ''42''), (''post'', ''7'')]))"
proof -
  have p: "plain_path ''/users/:id/posts/:post''" by code_simp
  obtain r where r: "Route ''/users/:id/posts/:post'' None = Inr r" "\<And>target out. route_match r target out =
     (case match_path ''/users/:id/posts/:post'' (path_only target) of
        None \<Rightarrow> (False, out)
      | Some vs \<Rightarrow> (True, fold (\<lambda>(n, v) m. umap_put n v m)
          (zip (extractParamNames ''/users/:id/posts/:post'') vs) out))"
    using route_match_reference [OF p, of None] by blast
  have "(case match_path ''/users/:id/posts/:post'' (path_only ''/users/42/posts/7?page=2'') of
        None \<Rightarrow> (False, [])
      | Some vs \<Rightarrow> (True, fold (\<lambda>(n, v) m. umap_put n v m)
          (zip (extractParamNames ''/users/:id/posts/:post'') vs) [])) =
      (True, [(''id'', ''42''), (''post'', ''7'')])" by code_simp
  with p r show ?thesis by metis
qed

text \<open>The request path a list of segment values spells out.\<close>

fun fill_segs :: "seg list \<Rightarrow> string list \<Rightarrow> string" where
  "fill_segs [] vs = []"
| "fill_segs (Lit w # ss) vs = CHR ''/'' # w @ fill_segs ss vs"
| "fill_segs (Par n # ss) (v # vs) = CHR ''/'' # v @ fill_segs ss vs"
| "fill_segs (Par n # ss) [] = []"

definition segment_value :: "string \<Rightarrow> bool" where
  "segment_value v \<longleftrightarrow> v \<noteq> [] \<and> CHR ''/'' \<notin> set v"

lemma match_fill:
  "segs_ok ss \<Longrightarrow> length vs = length (par_names ss) \<Longrightarrow> \<forall>v \<in> set vs. segment_value v \<Longrightarrow>
     match_segs ss (fill_segs ss vs) = Some vs"
proof (induction ss vs rule: fill_segs.induct)
  case (2 w ss vs)
  then have "CHR ''/'' \<notin> set w" "match_segs ss (fill_segs ss vs) = Some vs"
    by (auto simp: segs_ok_def)
  then show ?case using match_segs_Lit [of w ss] by (simp del: match_segs.simps)
next
  case (3 n ss v vs)
  then have "segment_value v" "match_segs ss (fill_segs ss vs) = Some vs"
    by (auto simp: segs_ok_def)
  then show ?case using match_segs_Par [of n ss] by (auto simp: segment_value_def simp del: match_segs.simps)
qed auto

subsection \<open>Scanning a route table\<close>

text \<open>The loop both routers run over their tables: the first route that matches wins.\<close>

locale route_scan =
  fixes matches :: "'r \<Rightarrow> string \<Rightarrow> params \<Rightarrow> bool \<times> params"
    and scan :: "'r list \<Rightarrow> string \<Rightarrow> params \<Rightarrow> (nat \<times> params) option"
  assumes scan_Nil: "scan [] t ps = None"
    and scan_hit: "fst (matches r t ps) \<Longrightarrow> scan (r # rs) t ps = Some (0, snd (matches r t ps))"
    and scan_miss: "\<not> fst (matches r t ps) \<Longrightarrow>
      scan (r # rs) t ps = map_option (\<lambda>(i, q). (Suc i, q)) (scan rs t ps)"
begin

lemma scan_None: "scan rs t ps = None \<longleftrightarrow> (\<forall>r \<in> set rs. \<not> fst (matches r t ps))"
proof (induction rs)
  case (Cons r rs)
  then show ?case by (cases "fst (matches r t ps)") (auto simp: scan_hit scan_miss)
qed (simp add: scan_Nil)

lemma scan_Some:
  "scan rs t ps = Some (i, q) \<longleftrightarrow>
     i < length rs \<and> matches (rs ! i) t ps = (True, q) \<and> (\<forall>j < i. \<not> fst (matches (rs ! j) t ps))"
proof (induction rs arbitrary: i)
  case (Cons r rs)
  show ?case
  proof (cases "fst (matches r t ps)")
    case True
    then show ?thesis
      by (cases i) (auto simp: scan_hit split: prod.splits intro: prod_eqI)
  next
    case False
    then show ?thesis
      using Cons.IH by (cases i) (auto simp: scan_miss less_Suc_eq_0_disj)
  qed
qed (simp add: scan_Nil)

lemma scan_append_miss:
  assumes "\<forall>r \<in> set rs. \<not> fst (matches r t ps)"
  shows "scan (rs @ [r]) t ps = (if fst (matches r t ps) then Some (length rs, snd (matches r t ps)) else None)"
  using assms by (induction rs) (auto simp: scan_hit scan_miss scan_Nil)

end

interpretation http: route_scan route_match scan_routes
  by unfold_locales (auto simp: split_beta)

text \<open>C3: the router answers a request with the first registered route of its method that matches,
  called with the parameters of that match on a fresh map; when the method has no table or no route
  of it matches, the answer is the 404 response and no handler runs.\<close>

theorem handle_request_first_match:
  "handle_request B rs req res =
     (case rs (req_method req) of
        None \<Rightarrow> (not_found B res, None)
      | Some v \<Rightarrow>
          if \<exists>r \<in> set v. fst (route_match r (req_target req) [])
          then (let i = LEAST i. i < length v \<and> fst (route_match (v ! i) (req_target req) [])
                in process (v ! i) req res (snd (route_match (v ! i) (req_target req) [])))
          else (not_found B res, None))"
proof (cases "rs (req_method req)")
  case (Some v)
  let ?t = "req_target req"
  show ?thesis
  proof (cases "scan_routes v ?t []")
    case None
    then have "\<not> (\<exists>r \<in> set v. fst (route_match r ?t []))"
      using http.scan_None by blast
    with Some None show ?thesis by (simp add: handle_request_def)
  next
    case (Some p)
    obtain i q where p: "p = (i, q)" by force
    with Some have i: "i < length v" "route_match (v ! i) ?t [] = (True, q)"
      "\<forall>j < i. \<not> fst (route_match (v ! j) ?t [])"
      using http.scan_Some by blast+
    then have "(LEAST i. i < length v \<and> fst (route_match (v ! i) ?t [])) = i"
      by (intro Least_equality) (auto simp: not_less [symmetric])
    moreover have "\<exists>r \<in> set v. fst (route_match r ?t [])"
      using i by (metis fst_conv nth_mem)
    ultimately show ?thesis
      using i Some p \<open>rs (req_method req) = Some v\<close> by (simp add: handle_request_def)
  qed
qed (simp add: handle_request_def)

lemma set_fill_segs: "set (fill_segs ss vs) \<subseteq> {CHR ''/''} \<union> \<Union> (set ` set vs) \<union>
    (\<Union>sg \<in> set ss. case sg of Lit w \<Rightarrow> set w | Par _ \<Rightarrow> {})"
  by (induction ss vs rule: fill_segs.induct) auto

lemma path_only_query:
  "CHR ''?'' \<notin> set s \<Longrightarrow> q = [] \<or> hd q = CHR ''?'' \<Longrightarrow> path_only (s @ q) = s"
  using find_char_None [of "CHR ''?''" s]
  by (cases q) (auto simp: path_only_def find_char_append)

lemma fill_no_query:
  assumes "segs_ok ss" "\<forall>v \<in> set vs. CHR ''?'' \<notin> set v"
  shows "CHR ''?'' \<notin> set (fill_segs ss vs)"
proof
  assume "CHR ''?'' \<in> set (fill_segs ss vs)"
  with set_fill_segs [of ss vs] assms(2) obtain sg where "sg \<in> set ss"
    "CHR ''?'' \<in> (case sg of Lit w \<Rightarrow> set w | Par _ \<Rightarrow> {})" by fastforce
  with assms(1) have "\<not> special CHR ''?''"
    by (cases sg) (auto simp: segs_ok_def)
  then show False by (simp add: special_def)
qed

text \<open>A request finds a handler with these parameters in a table.\<close>

definition reached :: "routes \<Rightarrow> request \<Rightarrow> handler \<Rightarrow> params \<Rightarrow> bool" where
  "reached rs req h ps \<longleftrightarrow> (\<exists>v i. rs (req_method req) = Some v \<and> scan_routes v (req_target req) [] = Some (i, ps)
     \<and> route_handler (v ! i) = Some h)"

lemma reached_handled: "reached rs req h ps \<Longrightarrow> handle_request B rs req res = h req res ps"
  by (auto simp: reached_def handle_request_def process_def)

lemma reached_add: "reached rs req h ps \<Longrightarrow> reached (fst (add m path h' rs)) req h ps"
  by (auto simp: reached_def add_def Let_def http.scan_Some nth_append split: sum.splits)

lemma added_route_reached:
  assumes "plain_path path" "path_segs path \<noteq> []" "distinct (extractParamNames path)"
    and "length vs = length (extractParamNames path)"
    and "\<forall>v \<in> set vs. segment_value v \<and> CHR ''?'' \<notin> set v"
    and "query = [] \<or> hd query = CHR ''?''"
    and "req_target req = fill_segs (path_segs path) vs @ query"
    and "\<forall>v. rs (req_method req) = Some v \<longrightarrow> (\<forall>r \<in> set v. \<not> fst (route_match r (req_target req) []))"
  shows "\<exists>rs'. add (req_method req) path (Some h) rs = (rs', None) \<and> reached rs' req h (zip (extractParamNames path) vs)"
proof -
  obtain r where r: "Route path (Some h) = Inr r" "\<And>t out. route_match r t out =
      (case match_path path (path_only t) of None \<Rightarrow> (False, out)
       | Some vs \<Rightarrow> (True, fold (\<lambda>(n, v) m. umap_put n v m) (zip (extractParamNames path) vs) out))"
    and rh: "route_handler r = Some h"
    using convert_matches [OF assms(1)]
    by (auto simp: Route_def route_match_def store_params_seg_caps match_path_length
        split: option.splits)
  have ok: "segs_ok (path_segs path)" using assms(1) by (rule plain_path_segs_ok)
  have "path_only (req_target req) = fill_segs (path_segs path) vs"
    using fill_no_query [OF ok] assms(5,6,7) by (simp add: path_only_query)
  moreover have "match_segs (path_segs path) (fill_segs (path_segs path) vs) = Some vs"
    using ok assms(4,5) by (intro match_fill) (auto simp: extract_par_names)
  moreover have "distinct (map fst (zip (extractParamNames path) vs))"
    using assms(3,4) by (simp add: map_fst_zip)
  ultimately have hit: "route_match r (req_target req) [] = (True, zip (extractParamNames path) vs)"
    using assms(2) umap_put_all_fresh [of "[]" "zip (extractParamNames path) vs"]
    by (simp add: r match_path_def)
  let ?v = "case rs (req_method req) of None \<Rightarrow> [] | Some v \<Rightarrow> v"
  have "scan_routes (?v @ [r]) (req_target req) [] =
      Some (length ?v, zip (extractParamNames path) vs)"
    using http.scan_append_miss [of ?v "req_target req" "[]" r] assms(8) hit
    by (auto split: option.splits)
  with r(1) rh show ?thesis
    by (simp add: add_def Let_def reached_def)
qed

lemma added_route_hit:
  assumes "plain_path path" "path_segs path \<noteq> []" "distinct (extractParamNames path)"
    and "length vs = length (extractParamNames path)"
    and "\<forall>v \<in> set vs. segment_value v \<and> CHR ''?'' \<notin> set v"
    and "query = [] \<or> hd query = CHR ''?''"
    and "req_target req = fill_segs (path_segs path) vs @ query"
    and "\<forall>v. rs (req_method req) = Some v \<longrightarrow> (\<forall>r \<in> set v. \<not> fst (route_match r (req_target req) []))"
  shows "\<exists>rs'. add (req_method req) path (Some h) rs = (rs', None) \<and>
     handle_request B rs' req res = h req res (zip (extractParamNames path) vs)"
  using added_route_reached [OF assms(1-7), of rs h] assms(8) reached_handled by blast

text \<open>a handler registered under a plain path is reached by every request that spells the path
  out: filling the parameter segments with non-empty values (and appending any query string) and
  sending the request calls the handler with exactly those values under the declared names, unless
  a route registered earlier for the method already matches.\<close>

theorem registered_route_reached:
  assumes "plain_path path" "path_segs path \<noteq> []" "distinct (extractParamNames path)"
    and "length vs = length (extractParamNames path)"
    and "\<forall>v \<in> set vs. segment_value v \<and> CHR ''?'' \<notin> set v"
    and "query = [] \<or> hd query = CHR ''?''"
    and "req_target req = fill_segs (path_segs path) vs @ query"
    and "\<forall>v. rs (req_method req) = Some v \<longrightarrow> (\<forall>r \<in> set v. \<not> fst (route_match r (req_target req) []))"
  shows "\<exists>rs'. add (req_method req) path (Some h) rs = (rs', None) \<and>
     handle_request B rs' req res = h req res (zip (extractParamNames path) vs)"
  using added_route_hit [OF assms(1-7)] assms(8) by blast

theorem registered_route_reached_witness:
  "\<exists>rs'. add GET ''/users/:id'' (Some echo_handler) Map.empty = (rs', None) \<and>
     handle_request sample_beast rs' (sample_request GET ''/users/42?x=1'') sample_response =
       echo_handler (sample_request GET ''/users/42?x=1'') sample_response [(''id'', ''42'')]"
proof -
  have a: "plain_path ''/users/:id''" "path_segs ''/users/:id'' \<noteq> []"
    "distinct (extractParamNames ''/users/:id'')"
    "length [''42''] = length (extractParamNames ''/users/:id'')"
    "\<forall>v \<in> set [''42'']. segment_value v \<and> CHR ''?'' \<notin> set v"
    "''?x=1'' = [] \<or> hd ''?x=1'' = CHR ''?''"
    "req_target (sample_request GET ''/users/42?x=1'') = fill_segs (path_segs ''/users/:id'') [''42''] @ ''?x=1''"
    by code_simp+
  have n: "extractParamNames ''/users/:id'' = [''id'']" by code_simp
  have m: "req_method (sample_request GET ''/users/42?x=1'') = GET" by (simp add: sample_request_def)
  show ?thesis
    using registered_route_reached [OF a, of Map.empty echo_handler sample_beast sample_response]
    by (simp add: n m)
qed

end
