(* ===== verification/HttpsConnection.thy ===== *)
theory HttpsConnection
  imports Route HttpsConfig
begin

text \<open>
  \<^verbatim>\<open>src/HttpsServerConnection.cpp\<close>, \<^verbatim>\<open>handle_connection\<close>: one TLS connection, from the handshake through
  the keep-alive loop to the shutdown. What the peer and the timers do is a script, one item for every
  round of the loop; where the script ends, the coroutine is suspended in a read. The response object
  lives across the rounds, as in the source.
\<close>

subsection \<open>The environment of a connection\<close>

datatype read_event = BodyLimit | HeaderLimit | EndOfStream | ReadError | Request request

record round =
  it_read :: read_event \<comment> \<open>how \<^verbatim>\<open>async_read\<close> completes\<close>
  it_write_ok :: bool \<comment> \<open>whether \<^verbatim>\<open>async_write\<close> succeeds\<close>
  it_timed_out :: bool \<comment> \<open>the idle timer has fired when the loop condition is evaluated next\<close>

datatype sent = Raw string | Message response

datatype conn_end = Suspended | Closed

subsection \<open>Responses\<close>

definition limit_response :: "beast \<Rightarrow> nat \<Rightarrow> string \<Rightarrow> response" where
  "limit_response B code text =
     (let err = \<lparr>status = code, res_version = 11, res_keep_alive = True, res_fields = [], res_body = []\<rparr>;
          err = set_res B ''Connection'' ''close'' (set_res B ''Content-Type'' ''text/plain'' err)
      in prepare_payload B (err\<lparr>res_body := text\<rparr>))"

definition flat_response :: "beast \<Rightarrow> string \<Rightarrow> bool \<Rightarrow> response \<Rightarrow> string" where
  "flat_response B static_hdrs keep_alive res =
     ''HTTP/1.1 '' @ show_nat (status res) @ '' '' @ reason B res @ CRLF @ static_hdrs @
     ''Connection: '' @ (if keep_alive then ''keep-alive'' @ CRLF else ''close'' @ CRLF) @
     concat (map (\<lambda>(name, value). name @ '': '' @ value @ CRLF) (res_fields res)) @
     CRLF @ res_body res"

definition router_error_body :: string where
  "router_error_body = [CHR ''{'', CHR 0x22] @ ''error'' @ [CHR 0x22, CHR '':'', CHR 0x22] @
     ''internal server error'' @ [CHR 0x22, CHR ''}'']"

text \<open>From the reset of the response object to \<^verbatim>\<open>prepare_payload\<close>: the response and whether the connection
  stays open.\<close>

definition serve :: "beast \<Rightarrow> routes \<Rightarrow> request \<Rightarrow> response \<Rightarrow> response \<times> bool" where
  "serve B rs req res =
     (let keep_alive = req_keep_alive req;
          res1 = set_keep_alive B keep_alive ((clear_res B res)\<lparr>res_version := req_version req\<rparr>)
      in case handle_request B rs req res1 of
           (res2, None) \<Rightarrow> (prepare_payload B res2, keep_alive)
         | (res2, Some e) \<Rightarrow>
             (prepare_payload B ((set_res B ''Content-Type'' ''application/json'' (res2\<lparr>status := 500\<rparr>))
                \<lparr>res_body := router_error_body\<rparr>), False))"

subsection \<open>The keep-alive loop\<close>

record conn_out =
  outs :: "sent list"
  requests :: nat \<comment> \<open>what was added to \<^verbatim>\<open>total_requests_\<close>\<close>
  conn_state :: conn_end

definition finish_with :: "sent list \<Rightarrow> conn_out" where
  "finish_with os = \<lparr>outs = os, requests = 0, conn_state = Closed\<rparr>"

fun conn_loop :: "beast \<Rightarrow> routes \<Rightarrow> string \<Rightarrow> response \<Rightarrow> round list \<Rightarrow> conn_out" where
  "conn_loop B rs static_hdrs res [] = \<lparr>outs = [], requests = 0, conn_state = Suspended\<rparr>"
| "conn_loop B rs static_hdrs res (it # its) =
     (case it_read it of
        BodyLimit \<Rightarrow> finish_with [Message (limit_response B 413 ''Payload too large'')]
      | HeaderLimit \<Rightarrow> finish_with [Message (limit_response B 431 ''Header too large'')]
      | EndOfStream \<Rightarrow> finish_with []
      | ReadError \<Rightarrow> finish_with []
      | Request req \<Rightarrow>
          (let (res', keep_alive) = serve B rs req res;
               out = Raw (flat_response B static_hdrs keep_alive res')
           in if \<not> it_write_ok it \<or> \<not> keep_alive \<or> it_timed_out it
              then \<lparr>outs = [out], requests = 1, conn_state = Closed\<rparr>
              else let r = conn_loop B rs static_hdrs res' its
                   in r\<lparr>outs := out # outs r, requests := Suc (requests r)\<rparr>))"

definition new_response :: response where
  "new_response = \<lparr>status = 200, res_version = 11, res_keep_alive = True, res_fields = [], res_body = []\<rparr>"

text \<open>The whole coroutine. \<open>setup_ok\<close>: the socket options could be set; \<open>handshake_ok\<close>: the TLS handshake
  succeeded within its timeout; \<open>idle_at_start\<close>: the idle timer fired before the first round.\<close>

definition handle_connection :: "beast \<Rightarrow> routes \<Rightarrow> 'c https_server \<Rightarrow> bool \<Rightarrow> bool \<Rightarrow> bool \<Rightarrow> round list \<Rightarrow> conn_out" where
  "handle_connection B rs s setup_ok handshake_ok idle_at_start its =
     (if \<not> setup_ok \<or> \<not> handshake_ok \<or> idle_at_start then finish_with []
      else conn_loop B rs (static_headers s) new_response its)"

subsection \<open>Facts about the loop\<close>

lemma finish_with_simps [simp]:
  "outs (finish_with os) = os" "requests (finish_with os) = 0" "conn_state (finish_with os) = Closed"
  by (simp_all add: finish_with_def)

text \<open>Announcing \<^verbatim>\<open>close\<close> and closing agree.\<close>

lemma loop_close_last:
  "i < length (outs (conn_loop B rs st res its)) \<Longrightarrow>
     (\<exists>keep r. outs (conn_loop B rs st res its) ! i = Raw (flat_response B st keep r)
        \<and> (Suc i < length (outs (conn_loop B rs st res its)) \<or> conn_state (conn_loop B rs st res its) = Suspended \<longrightarrow> keep))
   \<or> (\<exists>r. outs (conn_loop B rs st res its) ! i = Message r \<and> Suc i = length (outs (conn_loop B rs st res its))
        \<and> conn_state (conn_loop B rs st res its) = Closed)"
proof (induction its arbitrary: res i)
  case (Cons it its)
  show ?case
  proof (cases "it_read it")
    case (Request req)
    obtain res' keep where sv: "serve B rs req res = (res', keep)" by force
    show ?thesis
    proof (cases "\<not> it_write_ok it \<or> \<not> keep \<or> it_timed_out it")
      case True
      then show ?thesis using Cons.prems Request sv by auto
    next
      case False
      then have ex: "conn_loop B rs st res (it # its) =
          (conn_loop B rs st res' its)\<lparr>outs := Raw (flat_response B st keep res') # outs (conn_loop B rs st res' its),
             requests := Suc (requests (conn_loop B rs st res' its))\<rparr>" (is "_ = ?r")
        using Request sv by (simp add: Let_def)
      show ?thesis
      proof (cases i)
        case 0
        then show ?thesis unfolding ex using False by auto
      next
        case (Suc j)
        then have "j < length (outs (conn_loop B rs st res' its))" using Cons.prems unfolding ex by simp
        from Cons.IH [OF this] Suc show ?thesis unfolding ex by simp
      qed
    qed
  qed (use Cons.prems in auto)
qed simp

lemma loop_requests: "requests (conn_loop B rs st res its) =
    length (filter (\<lambda>x. case x of Raw _ \<Rightarrow> True | Message _ \<Rightarrow> False) (outs (conn_loop B rs st res its)))"
  by (induction its arbitrary: res) (auto split: read_event.splits prod.splits simp: Let_def)

subsection \<open>Properties\<close>

text \<open>C10: A response that announces \<^verbatim>\<open>Connection: close\<close>, and the answer to an oversized request, is the last one
  of its connection and the connection is then closed: every response with a successor, or after which
  the server waits for another request, announced \<^verbatim>\<open>keep-alive\<close>. The request counter is the number of
  responses to requests that were read completely.\<close>

theorem https_close_announced:
  "(\<forall>i < length (outs (handle_connection B rs s setup hs idle its)).
      (\<exists>keep r. outs (handle_connection B rs s setup hs idle its) ! i = Raw (flat_response B (static_headers s) keep r)
         \<and> (Suc i < length (outs (handle_connection B rs s setup hs idle its))
              \<or> conn_state (handle_connection B rs s setup hs idle its) = Suspended \<longrightarrow> keep))
    \<or> (\<exists>r. outs (handle_connection B rs s setup hs idle its) ! i = Message r
         \<and> Suc i = length (outs (handle_connection B rs s setup hs idle its))
         \<and> conn_state (handle_connection B rs s setup hs idle its) = Closed))
   \<and> requests (handle_connection B rs s setup hs idle its) =
      length (filter (\<lambda>x. case x of Raw _ \<Rightarrow> True | Message _ \<Rightarrow> False) (outs (handle_connection B rs s setup hs idle its)))"
proof (cases "\<not> setup \<or> \<not> hs \<or> idle")
  case False
  then have "handle_connection B rs s setup hs idle its = conn_loop B rs (static_headers s) new_response its"
    by (simp add: handle_connection_def)
  then show ?thesis using loop_close_last loop_requests by metis
qed (auto simp: handle_connection_def)

text \<open>C12: When a handler throws, the client gets a 500 response with the fixed JSON body, whatever the handler
  had written, and the connection is closed.\<close>

theorem https_router_error:
  assumes "prepare_payload_law B" "it_read it = Request req"
    and "\<And>r. \<exists>r' e. handle_request B rs req r = (r', Some e)"
  shows "\<exists>r. conn_loop B rs st res (it # its) =
      \<lparr>outs = [Raw (flat_response B st False r)], requests = 1, conn_state = Closed\<rparr>
    \<and> status r = 500 \<and> res_body r = router_error_body"
proof -
  obtain r' e where h: "handle_request B rs req
      (set_keep_alive B (req_keep_alive req) ((clear_res B res)\<lparr>res_version := req_version req\<rparr>)) = (r', Some e)"
    using assms(3) by blast
  let ?r = "prepare_payload B ((set_res B ''Content-Type'' ''application/json'' (r'\<lparr>status := 500\<rparr>))\<lparr>res_body := router_error_body\<rparr>)"
  have "serve B rs req res = (?r, False)" using h by (simp add: serve_def)
  moreover have "status ?r = 500" "res_body ?r = router_error_body"
    using assms(1) by (auto simp: prepare_payload_law_def set_res_def)
  ultimately show ?thesis using assms(2) by auto
qed

text \<open>The response object of a connection is reused and only its fields are cleared: after a request that no route
  matches, a handler that writes a body but sets no status answers with status 404 on the same
  connection.\<close>

theorem https_status_carried_over:
  assumes "clear_law B" "keep_alive_law B" "prepare_payload_law B"
    and "it_read it1 = Request req1" "it_write_ok it1" "\<not> it_timed_out it1" "req_keep_alive req1"
    and "\<And>r. handle_request B rs req1 r = (not_found B r, None)"
    and "it_read it2 = Request req2"
    and "\<And>r. handle_request B rs req2 r = (r\<lparr>res_body := text\<rparr>, None)"
  shows "\<exists>first keep r. outs (conn_loop B rs st res [it1, it2]) = [first, Raw (flat_response B st keep r)]
    \<and> status r = 404 \<and> res_body r = text"
proof -
  define r1 where "r1 = fst (serve B rs req1 res)"
  have s1: "serve B rs req1 res = (r1, True)" and st1: "status r1 = 404"
    using assms by (auto simp: r1_def serve_def not_found_def prepare_payload_law_def)
  define r2 where "r2 = fst (serve B rs req2 r1)"
  have s2: "serve B rs req2 r1 = (r2, req_keep_alive req2)" "status r2 = 404" "res_body r2 = text"
    using assms st1 by (auto simp: r2_def serve_def Let_def prepare_payload_law_def clear_law_def keep_alive_law_def)
  show ?thesis using assms(4-6,9) s1 s2 by (auto simp: Let_def)
qed

definition sample_routes :: routes where
  "sample_routes = [GET \<mapsto> [\<lparr>pathRegex = Emp, paramNames = [], originalPath = [],
     route_handler = Some (\<lambda>req r ps. (r\<lparr>res_body := ''hi''\<rparr>, None))\<rparr>],
     POST \<mapsto> [\<lparr>pathRegex = Emp, paramNames = [], originalPath = [],
     route_handler = Some (\<lambda>req r ps. (r, Some (runtime_error ''x'')))\<rparr>]]"

definition sample_round :: "verb \<Rightarrow> round" where
  "sample_round m = \<lparr>it_read = Request (sample_request m []), it_write_ok = True, it_timed_out = False\<rparr>"

lemma sample_scan: "scan_routes [r] [] [] = Some (0, [])" if "pathRegex r = Emp" "paramNames r = []"
proof -
  have "regex_match Emp [] \<noteq> None" by code_simp
  then show ?thesis using that by (auto simp: route_match_def path_only_def)
qed

theorem https_router_error_witness:
  "\<exists>r. conn_loop sample_beast sample_routes [] new_response [sample_round POST] =
      \<lparr>outs = [Raw (flat_response sample_beast [] False r)], requests = 1, conn_state = Closed\<rparr> \<and> status r = 500"
proof -
  have "\<exists>r' e. handle_request sample_beast sample_routes (sample_request POST []) r = (r', Some e)" for r
    by (simp add: handle_request_def sample_routes_def sample_request_def sample_scan process_def del: scan_routes.simps)
  from https_router_error [OF sample_beast_laws(2) _ this, of "sample_round POST" "[]" new_response "[]"]
  show ?thesis by (auto simp: sample_round_def)
qed

theorem https_status_carried_over_witness:
  "\<exists>first keep r. outs (conn_loop sample_beast sample_routes [] new_response [sample_round PUT, sample_round GET]) =
      [first, Raw (flat_response sample_beast [] keep r)] \<and> status r = 404"
proof -
  have a: "handle_request sample_beast sample_routes (sample_request PUT []) r = (not_found sample_beast r, None)" for r
    by (simp add: handle_request_def sample_routes_def sample_request_def)
  have b: "handle_request sample_beast sample_routes (sample_request GET []) r = (r\<lparr>res_body := ''hi''\<rparr>, None)" for r
    by (simp add: handle_request_def sample_routes_def sample_request_def sample_scan process_def del: scan_routes.simps)
  have h: "it_read (sample_round m) = Request (sample_request m [])" "it_write_ok (sample_round m)"
    "\<not> it_timed_out (sample_round m)" "req_keep_alive (sample_request m [])" for m
    by (simp_all add: sample_round_def sample_request_def)
  show ?thesis
    using https_status_carried_over [OF sample_beast_laws(3,4,2) h(1,2,3,4) a h(1) b, of "[]" new_response] by blast
qed

theorem https_close_announced_witness:
  "\<exists>r. outs (handle_connection sample_beast sample_routes (HttpsServer :: unit https_server) True True False [sample_round GET]) ! 0 =
     Raw (flat_response sample_beast [] True r)"
proof -
  let ?c = "handle_connection sample_beast sample_routes (HttpsServer :: unit https_server) True True False [sample_round GET]"
  have "conn_state ?c = Suspended" "length (outs ?c) = 1"
    by (simp_all add: handle_connection_def sample_round_def serve_def Let_def handle_request_def sample_routes_def
        sample_request_def sample_scan process_def del: scan_routes.simps)
  moreover have "static_headers (HttpsServer :: unit https_server) = []" by (simp add: HttpsServer_def)
  ultimately show ?thesis
    using conjunct1 [OF https_close_announced, of sample_beast sample_routes "HttpsServer :: unit https_server" True True False "[sample_round GET]"]
    by force
qed

end
