(* ===== verification/Server.thy ===== *)
theory Server
  imports HttpsTls HttpsConnection
begin

text \<open>
  \<^verbatim>\<open>src/Server.cpp\<close>, the plain HTTP server, and the start-up of both servers (\<^verbatim>\<open>initialize\<close> and \<^verbatim>\<open>run\<close> of
  \<^verbatim>\<open>src/HttpsServer.cpp\<close>). The operating system's answers (addresses, sockets, threads) are parameters.
\<close>

subsection \<open>Start-up\<close>

record boot_env =
  b_ram_mb :: int32
  b_fd_limit :: int32
  b_threads :: int32 \<comment> \<open>\<^verbatim>\<open>hardware_concurrency\<close>\<close>
  b_pool :: nat \<comment> \<open>threads of a driver's pool\<close>
  b_reuse_port :: bool \<comment> \<open>\<^verbatim>\<open>platform::has_reuse_port\<close>\<close>
  b_address :: "exn option" \<comment> \<open>\<^verbatim>\<open>make_address\<close>\<close>
  b_listen :: "nat \<Rightarrow> exn option" \<comment> \<open>\<^verbatim>\<open>open\<close>, \<^verbatim>\<open>bind\<close> and \<^verbatim>\<open>listen\<close> of worker \<open>i\<close>\<close>

record ('c, 'w) boot =
  srv :: "'c server"
  mgr :: "file_driver storage_manager"
  bfs :: fsys
  bkeys :: "key list"
  bw :: 'w
  io_contexts :: nat
  acceptor_workers :: "nat list" \<comment> \<open>\<^verbatim>\<open>acceptors_\<close>, by the worker each was made for\<close>

text \<open>The common first part: the storage drivers of the configuration.\<close>

definition register_storage ::
  "json_lib \<Rightarrow> os \<Rightarrow> nat \<Rightarrow> config \<Rightarrow> file_driver storage_manager \<Rightarrow> fsys \<Rightarrow>
     (exn option \<times> file_driver storage_manager \<times> fsys) option" where
  "register_storage J os pool g m fs =
     (case getJson J g ''filesystem.drivers'' of
        None \<Rightarrow> None
      | Some (Inl e) \<Rightarrow> Some (Some e, m, fs)
      | Some (Inr drivers_json) \<Rightarrow>
          (case register_drivers os pool (json_items drivers_json) m fs of
             (Some e, m', fs') \<Rightarrow> Some (Some e, m', fs')
           | (None, m', fs') \<Rightarrow>
               (case getNested_str J g ''filesystem.default'' ''local'' of
                  None \<Rightarrow> None
                | Some (Inl e) \<Rightarrow> Some (Some e, m', fs')
                | Some (Inr def) \<Rightarrow> Some (None, set_default def m', fs'))))"

fun make_workers :: "boot_env \<Rightarrow> nat \<Rightarrow> nat \<Rightarrow> ('c, 'w) boot \<Rightarrow> exn option \<times> ('c, 'w) boot" where
  "make_workers env i 0 b = (None, b)"
| "make_workers env i (Suc k) b =
     (if b_reuse_port env \<or> i = 0
      then (case b_listen env i of
              Some e \<Rightarrow> (Some e, b)
            | None \<Rightarrow> make_workers env (Suc i) k
                (b\<lparr>acceptor_workers := acceptor_workers b @ [i], io_contexts := Suc (io_contexts b)\<rparr>))
      else make_workers env (Suc i) k (b\<lparr>io_contexts := Suc (io_contexts b)\<rparr>))"

text \<open>\<^verbatim>\<open>HttpsServer::initialize\<close>. The connections to the databases are attempted after the workers exist and
  their failures only logged; the route registration of the library itself is empty.\<close>

definition HttpsServer_initialize ::
  "json_lib \<Rightarrow> 'c ssl_lib \<Rightarrow> 'w ticket_env \<Rightarrow> nat \<Rightarrow> os \<Rightarrow> boot_env \<Rightarrow> config \<Rightarrow> ('c, 'w) boot \<Rightarrow> (bool \<times> ('c, 'w) boot) option" where
  "HttpsServer_initialize J L E this os env g b =
     (case register_storage J os (b_pool env) g (mgr b) (bfs b) of
        None \<Rightarrow> None
      | Some (Some e, m, fs) \<Rightarrow> Some (False, b\<lparr>mgr := m, bfs := fs\<rparr>)
      | Some (None, m, fs) \<Rightarrow>
          (let s1 = load_limits_from_config J g (b_ram_mb env) (b_fd_limit env)
                      (load_tls_config_from_global J g (load_common_config_from_global J g (srv b)));
               s2 = s1\<lparr>ssl_ctx := Some (fresh_ctx L)\<rparr>
           in case configure_tls L E this s2 (bkeys b) (bw b) of
                (Inl e, s3, ks, w) \<Rightarrow> Some (False, b\<lparr>mgr := m, bfs := fs, srv := s3, bkeys := ks, bw := w\<rparr>)
              | (Inr _, s3, ks, w) \<Rightarrow>
                  (let b' = b\<lparr>mgr := m, bfs := fs, srv := s3, bkeys := ks, bw := w\<rparr>
                   in case b_address env of
                        Some e \<Rightarrow> Some (False, b')
                      | None \<Rightarrow>
                          (case make_workers env 0 (unat (get_thread_count (b_threads env))) b' of
                             (Some e, b'') \<Rightarrow> Some (False, b'')
                           | (None, b'') \<Rightarrow> Some (True, b'')))))"

text \<open>\<^verbatim>\<open>run\<close> spawns its accept coroutines on these workers; each entry is the index it uses into
  \<^verbatim>\<open>acceptors_\<close> with the context it runs on.\<close>

definition run_accepts :: "boot_env \<Rightarrow> ('c, 'w) boot \<Rightarrow> (nat \<times> nat) list" where
  "run_accepts env b =
     (if b_reuse_port env then map (\<lambda>i. (i, i)) [0..<io_contexts b] else [(0, 0)])"

subsection \<open>The plain HTTP server\<close>

record plain_server =
  plain_host :: string
  plain_port :: "16 word"
  plain_connections :: int \<comment> \<open>\<^verbatim>\<open>connection_count_\<close>\<close>
  plain_total :: int \<comment> \<open>\<^verbatim>\<open>total_requests_\<close>\<close>
  plain_work :: bool \<comment> \<open>\<^verbatim>\<open>work_guard_\<close>\<close>

text \<open>The constructor binds the socket and throws when it cannot, before \<^verbatim>\<open>initialize\<close> could report it.\<close>

definition Server_new :: "(acceptor_call \<Rightarrow> exn option) \<Rightarrow> string \<Rightarrow> 16 word \<Rightarrow> plain_server result" where
  "Server_new answer h p =
     bind_result (open_acceptor answer)
       (\<lambda>_. Inr \<lparr>plain_host = h, plain_port = p, plain_connections = 0, plain_total = 0, plain_work = True\<rparr>)"

definition Server_getPort :: "plain_server \<Rightarrow> 16 word" where
  "Server_getPort s = plain_port s"

definition Server_getHost :: "plain_server \<Rightarrow> string" where
  "Server_getHost s = plain_host s"

lemma Server_new_listens:
  "Server_new answer h p = Inr s \<Longrightarrow> (\<forall>c. answer c = None) \<and> Server_getHost s = h \<and> Server_getPort s = p \<and> plain_work s"
  by (auto simp: Server_new_def open_acceptor_iff Server_getHost_def Server_getPort_def)

datatype plain_read = PEndOfStream | PAborted | PError | PRequest request

record plain_round =
  p_read :: plain_read
  p_write_ok :: bool
  p_timed_out :: bool

text \<open>The answer to one request, on a fresh response object; an exception of the router leaves the loop.\<close>

definition plain_answer :: "beast \<Rightarrow> routes \<Rightarrow> request \<Rightarrow> response result" where
  "plain_answer B rs req =
     (let res = set_keep_alive B (req_keep_alive req) (new_response\<lparr>res_version := req_version req\<rparr>);
          res = set_res B ''Server'' ''brazier''
                  (set_res B ''Connection'' (if req_keep_alive req then ''keep-alive'' else ''close'') res)
      in case handle_request B rs req res of
           (_, Some e) \<Rightarrow> Inl e
         | (res, None) \<Rightarrow>
             Inr (prepare_payload B
               (if count_field B (res_fields res) ''Content-Length'' = 0
                then set_res B ''Content-Length'' (show_nat (length (res_body res))) res else res)))"

record plain_out =
  p_outs :: "response list"
  p_requests :: nat
  p_error :: "exn option" \<comment> \<open>the exception that was caught and logged\<close>
  p_open :: bool \<comment> \<open>still suspended in a read\<close>

fun plain_loop :: "beast \<Rightarrow> routes \<Rightarrow> plain_round list \<Rightarrow> plain_out" where
  "plain_loop B rs [] = \<lparr>p_outs = [], p_requests = 0, p_error = None, p_open = True\<rparr>"
| "plain_loop B rs (it # its) =
     (case p_read it of
        PEndOfStream \<Rightarrow> \<lparr>p_outs = [], p_requests = 0, p_error = None, p_open = False\<rparr>
      | PAborted \<Rightarrow> \<lparr>p_outs = [], p_requests = 0, p_error = None, p_open = False\<rparr>
      | PError \<Rightarrow> \<lparr>p_outs = [], p_requests = 0, p_error = Some (system_error ''read''), p_open = False\<rparr>
      | PRequest req \<Rightarrow>
          (case plain_answer B rs req of
             Inl e \<Rightarrow> \<lparr>p_outs = [], p_requests = 1, p_error = Some e, p_open = False\<rparr>
           | Inr res \<Rightarrow>
               if \<not> p_write_ok it
               then \<lparr>p_outs = [res], p_requests = 1, p_error = Some (system_error ''write''), p_open = False\<rparr>
               else if \<not> req_keep_alive req \<or> p_timed_out it
               then \<lparr>p_outs = [res], p_requests = 1, p_error = None, p_open = False\<rparr>
               else let r = plain_loop B rs its
                    in r\<lparr>p_outs := res # p_outs r, p_requests := Suc (p_requests r)\<rparr>))"

text \<open>\<^verbatim>\<open>Server::handle_connection\<close> with its counter: incremented first, decremented last, also after an
  exception; while the coroutine is suspended the connection counts.\<close>

definition Server_handle_connection :: "beast \<Rightarrow> routes \<Rightarrow> bool \<Rightarrow> plain_round list \<Rightarrow> int \<Rightarrow> plain_out \<times> int" where
  "Server_handle_connection B rs setup_ok its n =
     (let r = (if setup_ok then plain_loop B rs its
               else \<lparr>p_outs = [], p_requests = 0, p_error = Some (system_error ''set_option''), p_open = False\<rparr>)
      in (r, if p_open r then n + 1 else n + 1 - 1))"

subsection \<open>The engine\<close>

text \<open>\<^verbatim>\<open>Engine\<close>: the thread's current I/O context.\<close>

definition Engine_init :: "nat \<Rightarrow> nat option \<Rightarrow> nat option" where
  "Engine_init io ptr = Some io"

definition get_io_context :: "nat option \<Rightarrow> nat result" where
  "get_io_context ptr =
     (case ptr of None \<Rightarrow> Inl (runtime_error ''IO context not initialized for this thread'') | Some io \<Rightarrow> Inr io)"

subsection \<open>Facts\<close>

lemma make_workers_ok:
  "make_workers env i k b = (None, b') \<Longrightarrow>
     io_contexts b' = io_contexts b + k
     \<and> acceptor_workers b' = acceptor_workers b @ filter (\<lambda>j. b_reuse_port env \<or> j = 0) [i..<i + k]"
proof (induction k arbitrary: i b)
  case (Suc k)
  then have "[i..<i + Suc k] = i # [Suc i..<Suc i + k]" by (simp add: upt_conv_Cons del: upt.simps)
  with Suc show ?case by (fastforce split: if_splits option.splits simp del: upt.simps)
qed simp

lemma make_workers_srv: "srv (snd (make_workers env i k b)) = srv b"
  by (induction k arbitrary: i b) (auto split: option.splits)

lemma plain_loop_answers:
  "\<exists>k \<le> length its. map Inr (p_outs (plain_loop B rs its)) =
     map (\<lambda>it. case p_read it of PRequest req \<Rightarrow> plain_answer B rs req | _ \<Rightarrow> Inl plain_exception) (take k its)"
proof (induction its)
  case (Cons it its)
  then obtain k where k: "k \<le> length its" "map Inr (p_outs (plain_loop B rs its)) =
     map (\<lambda>it. case p_read it of PRequest req \<Rightarrow> plain_answer B rs req | _ \<Rightarrow> Inl plain_exception) (take k its)" by blast
  show ?case
  proof (cases "p_read it")
    case (PRequest req)
    then show ?thesis
    proof (cases "plain_answer B rs req")
      case (Inr res)
      show ?thesis
      proof (cases "p_write_ok it \<and> req_keep_alive req \<and> \<not> p_timed_out it")
        case True
        then show ?thesis using PRequest Inr k by (intro exI [of _ "Suc k"]) (simp add: Let_def)
      next
        case False
        then show ?thesis using PRequest Inr by (intro exI [of _ 1]) auto
      qed
    qed (intro exI [of _ 0], simp)
  qed (intro exI [of _ 0], simp)+
qed simp

subsection \<open>Properties\<close>

text \<open>After a successful \<^verbatim>\<open>initialize\<close> of a fresh server there is one I/O context per thread, and every accept
  coroutine that \<^verbatim>\<open>run\<close> starts finds its acceptor, made for the worker it runs on; with \<^verbatim>\<open>SO_REUSEPORT\<close>
  every worker accepts, without it the first one alone. The active TLS context is one that was
  configured completely.\<close>

theorem https_startup:
  assumes "HttpsServer_initialize J L E this os env g b = Some (True, b')"
    and "io_contexts b = 0" "acceptor_workers b = []"
  shows "io_contexts b' = unat (get_thread_count (b_threads env))
    \<and> (\<forall>(a, io) \<in> set (run_accepts env b'). a < length (acceptor_workers b') \<and> acceptor_workers b' ! a = io \<and> io < io_contexts b')
    \<and> (\<exists>t ks w c ks' w'. configure_ssl_ctx L E this t ks w (fresh_ctx L) = (Inr (), c, ks', w') \<and> ssl_ctx (srv b') = Some c)"
proof -
  let ?n = "unat (get_thread_count (b_threads env))"
  obtain m fs where rs: "register_storage J os (b_pool env) g (mgr b) (bfs b) = Some (None, m, fs)"
    using assms(1) by (auto simp: HttpsServer_initialize_def split: option.splits)
  define s2 where "s2 = (load_limits_from_config J g (b_ram_mb env) (b_fd_limit env)
      (load_tls_config_from_global J g (load_common_config_from_global J g (srv b))))\<lparr>ssl_ctx := Some (fresh_ctx L)\<rparr>"
  obtain r s3 ks w where ct: "configure_tls L E this s2 (bkeys b) (bw b) = (r, s3, ks, w)" by (metis prod.collapse)
  let ?b = "b\<lparr>mgr := m, bfs := fs, srv := s3, bkeys := ks, bw := w\<rparr>"
  have rr: "r = Inr ()" and mw: "make_workers env 0 ?n ?b = (None, b')"
    using assms(1) rs ct by (auto simp: HttpsServer_initialize_def Let_def s2_def split: sum.splits option.splits prod.splits)
  have w: "io_contexts b' = ?n" "acceptor_workers b' = filter (\<lambda>j. b_reuse_port env \<or> j = 0) [0..<?n]"
    using make_workers_ok [OF mw] assms(2,3) by simp_all
  have "0 < get_thread_count (b_threads env)"
    by (auto simp: get_thread_count_def word_neq_0_conv [symmetric])
  then have n0: "0 < ?n" by (simp add: unat_gt_0)
  then have up: "[0..<?n] = 0 # [1..<?n]" by (simp add: upt_conv_Cons)
  have "srv b' = s3" using make_workers_srv [of env 0 ?n ?b] mw by simp
  moreover have "\<exists>c. configure_ssl_ctx L E this (tls s2) (bkeys b) (bw b) (fresh_ctx L) = (Inr (), c, ks, w) \<and> ssl_ctx s3 = Some c"
    using ct rr by (auto simp: configure_tls_def s2_def split: prod.splits)
  moreover have "a < length (acceptor_workers b') \<and> acceptor_workers b' ! a = io \<and> io < io_contexts b'"
    if "(a, io) \<in> set (run_accepts env b')" for a io
    using that w n0 up by (cases "b_reuse_port env") (auto simp: run_accepts_def)
  ultimately show ?thesis using w by blast
qed

text \<open>The plain server answers each request from its own fresh response: the responses of a connection are the
  answers to a prefix of its requests, in order, independent of what was answered before.\<close>

theorem plain_server_independent:
  "\<exists>k \<le> length its. map Inr (p_outs (fst (Server_handle_connection B rs setup_ok its n))) =
     map (\<lambda>it. case p_read it of PRequest req \<Rightarrow> plain_answer B rs req | _ \<Rightarrow> Inl plain_exception) (take k its)"
proof (cases setup_ok)
  case False
  then show ?thesis by (intro exI [of _ 0]) (simp add: Server_handle_connection_def)
qed (use plain_loop_answers [of its B rs] in \<open>simp add: Server_handle_connection_def Let_def\<close>)

definition sample_boot :: "(string, int) boot" where
  "sample_boot = \<lparr>srv = setTlsConfig sample_tls HttpsServer, mgr = \<lparr>drivers = [], defaultDriverName = []\<rparr>, bfs = sample_fs,
     bkeys = [], bw = 0, io_contexts = 0, acceptor_workers = []\<rparr>"

definition sample_boot_env :: boot_env where
  "sample_boot_env = \<lparr>b_ram_mb = 1024, b_fd_limit = 1024, b_threads = 2, b_pool = 2, b_reuse_port = True,
     b_address = None, b_listen = (\<lambda>_. None)\<rparr>"

theorem https_startup_witness:
  "\<exists>b'. HttpsServer_initialize sample_json sample_ssl sample_ticket_env 1 sample_os sample_boot_env sample_config sample_boot =
       Some (True, b') \<and> io_contexts b' = unat (get_thread_count (b_threads sample_boot_env))"
proof -
  let ?r = "HttpsServer_initialize sample_json sample_ssl sample_ticket_env 1 sample_os sample_boot_env sample_config sample_boot"
  have "map_option fst ?r = Some True" by code_simp
  then obtain b' where b: "?r = Some (True, b')" by auto
  have "io_contexts sample_boot = 0" "acceptor_workers sample_boot = []" by (simp_all add: sample_boot_def)
  from https_startup [OF b this] b show ?thesis by blast
qed

end
