(* ===== verification/Redis.thy ===== *)
theory Redis
  imports Prelude
begin

text \<open>
  \<^verbatim>\<open>src/Database/Cache.cpp\<close> and \<^verbatim>\<open>src/Database/Queue.cpp\<close>: the cache and the queue over hiredis, which is a
  parameter with the server behind it. A class has one static context, open or not; the two classes
  have their own. Console and log output is left out.
\<close>

datatype redis_reply = RString string | RNil | RInteger int | RStatus string | RError string | RArray

datatype connect_result = NoContext | ContextError string | ContextOk

record 'w redis =
  r_connect :: "string \<Rightarrow> int \<Rightarrow> 'w \<Rightarrow> connect_result \<times> 'w"
  r_command :: "string list \<Rightarrow> 'w \<Rightarrow> redis_reply option \<times> 'w" \<comment> \<open>\<open>None\<close>: the null pointer\<close>

text \<open>The format \<^verbatim>\<open>%s\<close> takes a C string: \<^const>\<open>c_str\<close>.\<close>

subsection \<open>The connection, the same in both classes\<close>

definition redis_open :: "'w redis \<Rightarrow> string \<Rightarrow> int \<Rightarrow> bool \<Rightarrow> 'w \<Rightarrow> unit result \<times> bool \<times> 'w" where
  "redis_open R host port ctx w =
     (if ctx then (Inl (runtime_error ''Already connected to Redis.''), ctx, w)
      else case r_connect R (c_str host) port w of
             (ContextError e, w') \<Rightarrow> (Inl (runtime_error (''Connection error: '' @ e)), False, w')
           | (NoContext, w') \<Rightarrow> (Inl (runtime_error ''Failed to allocate Redis context.''), False, w')
           | (ContextOk, w') \<Rightarrow> (Inr (), True, w'))"

definition cache_connect where "cache_connect R host port ctx w = redis_open R host port ctx w"
definition queue_connect where "queue_connect R host port ctx w = redis_open R host port ctx w"

definition cache_disconnect :: "bool \<Rightarrow> bool" where "cache_disconnect ctx = (if ctx then False else ctx)"
definition queue_disconnect :: "bool \<Rightarrow> bool" where "queue_disconnect ctx = (if ctx then False else ctx)"

text \<open>The start every operation has: the context is checked, the command sent, the null reply refused.\<close>

definition redis_run :: "'w redis \<Rightarrow> string list \<Rightarrow> bool \<Rightarrow> 'w \<Rightarrow> redis_reply result \<times> 'w" where
  "redis_run R cmd ctx w =
     (if \<not> ctx then (Inl (runtime_error ''Not connected to Redis.''), w)
      else case r_command R cmd w of
             (None, w') \<Rightarrow> (Inl (runtime_error (''Failed to execute '' @ hd cmd @ '' command.'')), w')
           | (Some r, w') \<Rightarrow> (Inr r, w'))"

text \<open>Operations that do not look at the reply, and those that want a string.\<close>

definition ignore_reply :: "redis_reply result \<times> 'w \<Rightarrow> unit result \<times> 'w" where
  "ignore_reply x = (bind_result (fst x) (\<lambda>_. Inr ()), snd x)"

fun text_reply :: "redis_reply \<Rightarrow> string result" where
  "text_reply (RString s) = Inr s"
| "text_reply RNil = Inr []"
| "text_reply _ = Inl (runtime_error ''Unexpected reply type from Redis.'')"

definition want_text :: "redis_reply result \<times> 'w \<Rightarrow> string result \<times> 'w" where
  "want_text x = (bind_result (fst x) text_reply, snd x)"

subsection \<open>Cache\<close>

definition cache_set :: "'w redis \<Rightarrow> string \<Rightarrow> string \<Rightarrow> int \<Rightarrow> bool \<Rightarrow> 'w \<Rightarrow> unit result \<times> 'w" where
  "cache_set R k v expire_seconds ctx w =
     ignore_reply (redis_run R (if expire_seconds > 0 then [''SET'', c_str k, c_str v, ''EX'', show_int expire_seconds]
        else [''SET'', c_str k, c_str v]) ctx w)"

definition cache_get :: "'w redis \<Rightarrow> string \<Rightarrow> bool \<Rightarrow> 'w \<Rightarrow> string result \<times> 'w" where
  "cache_get R k ctx w = want_text (redis_run R [''GET'', c_str k] ctx w)"

definition cache_del :: "'w redis \<Rightarrow> string \<Rightarrow> bool \<Rightarrow> 'w \<Rightarrow> unit result \<times> 'w" where
  "cache_del R k ctx w = ignore_reply (redis_run R [''DEL'', c_str k] ctx w)"

definition cache_expire :: "'w redis \<Rightarrow> string \<Rightarrow> int \<Rightarrow> bool \<Rightarrow> 'w \<Rightarrow> unit result \<times> 'w" where
  "cache_expire R k expire_seconds ctx w = ignore_reply (redis_run R [''EXPIRE'', c_str k, show_int expire_seconds] ctx w)"

text \<open>The coroutines do the same without suspending.\<close>

definition cache_get_async :: "'w redis \<Rightarrow> string \<Rightarrow> bool \<Rightarrow> 'w \<Rightarrow> string result \<times> 'w" where
  "cache_get_async R k ctx w = cache_get R k ctx w"

definition cache_set_async :: "'w redis \<Rightarrow> string \<Rightarrow> string \<Rightarrow> int \<Rightarrow> bool \<Rightarrow> 'w \<Rightarrow> unit result \<times> 'w" where
  "cache_set_async R k v ttl ctx w = cache_set R k v ttl ctx w"

subsection \<open>Queue\<close>

definition queue_push :: "'w redis \<Rightarrow> string \<Rightarrow> string \<Rightarrow> bool \<Rightarrow> 'w \<Rightarrow> unit result \<times> 'w" where
  "queue_push R queue_name v ctx w = ignore_reply (redis_run R [''RPUSH'', c_str queue_name, c_str v] ctx w)"

definition queue_pop :: "'w redis \<Rightarrow> string \<Rightarrow> bool \<Rightarrow> 'w \<Rightarrow> string result \<times> 'w" where
  "queue_pop R queue_name ctx w = want_text (redis_run R [''LPOP'', c_str queue_name] ctx w)"

text \<open>\<^verbatim>\<open>reply->integer\<close> is zero in a reply of another type.\<close>

fun integer_of :: "redis_reply \<Rightarrow> int" where
  "integer_of (RInteger i) = i"
| "integer_of _ = 0"

definition queue_length :: "'w redis \<Rightarrow> string \<Rightarrow> bool \<Rightarrow> 'w \<Rightarrow> int result \<times> 'w" where
  "queue_length R queue_name ctx w =
     (case redis_run R [''LLEN'', c_str queue_name] ctx w of (x, w') \<Rightarrow> (bind_result x (\<lambda>r. Inr (integer_of r)), w'))"

subsection \<open>What the server does\<close>

text \<open>The documented behaviour of the commands, on the keys as the server has them.\<close>

datatype redis_value = VString string | VList "string list"

definition redis_law :: "'w redis \<Rightarrow> ('w \<Rightarrow> string \<Rightarrow> redis_value option) \<Rightarrow> bool" where
  "redis_law R view \<longleftrightarrow>
     (\<forall>k v w. \<exists>w'. r_command R [''SET'', k, v] w = (Some (RStatus ''OK''), w') \<and> view w' = (view w)(k \<mapsto> VString v)) \<and>
     (\<forall>k w. \<exists>n w'. r_command R [''DEL'', k] w = (Some (RInteger n), w') \<and> view w' = (view w)(k := None)) \<and>
     (\<forall>k w. \<exists>r w'. r_command R [''GET'', k] w = (Some r, w') \<and> view w' = view w \<and>
        r = (case view w k of None \<Rightarrow> RNil | Some (VString s) \<Rightarrow> RString s | Some (VList _) \<Rightarrow> RError ''WRONGTYPE'')) \<and>
     (\<forall>k v w. \<exists>r w'. r_command R [''RPUSH'', k, v] w = (Some r, w') \<and>
        (case view w k of
           Some (VString _) \<Rightarrow> r = RError ''WRONGTYPE'' \<and> view w' = view w
         | Some (VList xs) \<Rightarrow> r = RInteger (int (length xs) + 1) \<and> view w' = (view w)(k \<mapsto> VList (xs @ [v]))
         | None \<Rightarrow> r = RInteger 1 \<and> view w' = (view w)(k \<mapsto> VList [v]))) \<and>
     (\<forall>k w. \<exists>r w'. r_command R [''LPOP'', k] w = (Some r, w') \<and>
        (case view w k of
           Some (VString _) \<Rightarrow> r = RError ''WRONGTYPE'' \<and> view w' = view w
         | Some (VList (x # xs)) \<Rightarrow> r = RString x \<and> view w' = (view w)(k := if xs = [] then None else Some (VList xs))
         | _ \<Rightarrow> r = RNil \<and> view w' = view w)) \<and>
     (\<forall>k w. \<exists>r w'. r_command R [''LLEN'', k] w = (Some r, w') \<and> view w' = view w \<and>
        r = (case view w k of None \<Rightarrow> RInteger 0 | Some (VList xs) \<Rightarrow> RInteger (int (length xs)) | Some (VString _) \<Rightarrow> RError ''WRONGTYPE''))"

text \<open>A server that behaves like this, for the witnesses.\<close>

definition sample_command :: "string list \<Rightarrow> (string \<Rightarrow> redis_value option) \<Rightarrow> redis_reply option \<times> (string \<Rightarrow> redis_value option)" where
  "sample_command cmd w =
     (if length cmd = 3 \<and> hd cmd = ''SET'' then (Some (RStatus ''OK''), w(cmd ! 1 \<mapsto> VString (cmd ! 2)))
      else if length cmd = 3 \<and> hd cmd = ''RPUSH'' then
        (case w (cmd ! 1) of
           Some (VString _) \<Rightarrow> (Some (RError ''WRONGTYPE''), w)
         | Some (VList xs) \<Rightarrow> (Some (RInteger (int (length xs) + 1)), w(cmd ! 1 \<mapsto> VList (xs @ [cmd ! 2])))
         | None \<Rightarrow> (Some (RInteger 1), w(cmd ! 1 \<mapsto> VList [cmd ! 2])))
      else if length cmd = 2 \<and> hd cmd = ''GET'' then
        (Some (case w (cmd ! 1) of None \<Rightarrow> RNil | Some (VString s) \<Rightarrow> RString s | Some (VList _) \<Rightarrow> RError ''WRONGTYPE''), w)
      else if length cmd = 2 \<and> hd cmd = ''DEL'' then (Some (RInteger (if w (cmd ! 1) = None then 0 else 1)), w(cmd ! 1 := None))
      else if length cmd = 2 \<and> hd cmd = ''LPOP'' then
        (case w (cmd ! 1) of
           Some (VString _) \<Rightarrow> (Some (RError ''WRONGTYPE''), w)
         | Some (VList (x # xs)) \<Rightarrow> (Some (RString x), w(cmd ! 1 := if xs = [] then None else Some (VList xs)))
         | _ \<Rightarrow> (Some RNil, w))
      else if length cmd = 2 \<and> hd cmd = ''LLEN'' then
        (Some (case w (cmd ! 1) of None \<Rightarrow> RInteger 0 | Some (VList xs) \<Rightarrow> RInteger (int (length xs)) | Some (VString _) \<Rightarrow> RError ''WRONGTYPE''), w)
      else (Some (RError ''ERR''), w))"

definition sample_redis :: "(string \<Rightarrow> redis_value option) redis" where
  "sample_redis = \<lparr>r_connect = (\<lambda>_ _ w. (ContextOk, w)), r_command = sample_command\<rparr>"

lemma sample_redis_law: "redis_law sample_redis id"
  by (auto simp: redis_law_def sample_redis_def sample_command_def split: option.split redis_value.split list.split)

subsection \<open>First in, first out\<close>

fun queue_pushes :: "'w redis \<Rightarrow> string \<Rightarrow> string list \<Rightarrow> 'w \<Rightarrow> unit result \<times> 'w" where
  "queue_pushes R q [] w = (Inr (), w)"
| "queue_pushes R q (x # xs) w = (case queue_push R q x True w of (Inl e, w') \<Rightarrow> (Inl e, w') | (Inr _, w') \<Rightarrow> queue_pushes R q xs w')"

fun queue_pops :: "'w redis \<Rightarrow> string \<Rightarrow> nat \<Rightarrow> 'w \<Rightarrow> string result list \<times> 'w" where
  "queue_pops R q 0 w = ([], w)"
| "queue_pops R q (Suc n) w = (case queue_pop R q True w of (x, w') \<Rightarrow> (case queue_pops R q n w' of (xs, w2) \<Rightarrow> (x # xs, w2)))"

definition queued :: "redis_value option \<Rightarrow> string list \<Rightarrow> bool" where
  "queued v xs \<longleftrightarrow> v = (if xs = [] then None else Some (VList xs))"

lemma law_set:
  assumes "redis_law R view"
  obtains w' where "r_command R [''SET'', k, v] w = (Some (RStatus ''OK''), w')" "view w' = (view w)(k \<mapsto> VString v)"
proof -
  have "\<exists>w'. r_command R [''SET'', k, v] w = (Some (RStatus ''OK''), w') \<and> view w' = (view w)(k \<mapsto> VString v)"
    using assms unfolding redis_law_def by (elim conjE) (erule allE)+
  then show thesis using that by blast
qed

lemma law_get:
  assumes "redis_law R view" "view w k = Some (VString s)"
  obtains w' where "r_command R [''GET'', k] w = (Some (RString s), w')" "view w' = view w"
proof -
  have "\<exists>r w'. r_command R [''GET'', k] w = (Some r, w') \<and> view w' = view w \<and>
      r = (case view w k of None \<Rightarrow> RNil | Some (VString s) \<Rightarrow> RString s | Some (VList _) \<Rightarrow> RError ''WRONGTYPE'')"
    using assms(1) unfolding redis_law_def by (elim conjE) (erule allE)+
  then show thesis using that assms(2) by auto
qed

lemma law_push:
  assumes "redis_law R view" "queued (view w k) xs"
  obtains n w' where "r_command R [''RPUSH'', k, v] w = (Some (RInteger n), w')" "view w' = (view w)(k \<mapsto> VList (xs @ [v]))"
proof -
  have "\<exists>r w'. r_command R [''RPUSH'', k, v] w = (Some r, w') \<and>
        (case view w k of
           Some (VString _) \<Rightarrow> r = RError ''WRONGTYPE'' \<and> view w' = view w
         | Some (VList xs) \<Rightarrow> r = RInteger (int (length xs) + 1) \<and> view w' = (view w)(k \<mapsto> VList (xs @ [v]))
         | None \<Rightarrow> r = RInteger 1 \<and> view w' = (view w)(k \<mapsto> VList [v]))"
    using assms(1) unfolding redis_law_def by (elim conjE) (erule allE)+
  then show thesis using that assms(2) by (cases xs) (auto simp: queued_def)
qed

lemma law_push_refused:
  assumes "redis_law R view" "view w k = Some (VString s)"
  obtains w' where "r_command R [''RPUSH'', k, v] w = (Some (RError ''WRONGTYPE''), w')" "view w' = view w"
proof -
  have "\<exists>r w'. r_command R [''RPUSH'', k, v] w = (Some r, w') \<and>
        (case view w k of
           Some (VString _) \<Rightarrow> r = RError ''WRONGTYPE'' \<and> view w' = view w
         | Some (VList xs) \<Rightarrow> r = RInteger (int (length xs) + 1) \<and> view w' = (view w)(k \<mapsto> VList (xs @ [v]))
         | None \<Rightarrow> r = RInteger 1 \<and> view w' = (view w)(k \<mapsto> VList [v]))"
    using assms(1) unfolding redis_law_def by (elim conjE) (erule allE)+
  then show thesis using that assms(2) by auto
qed

lemma law_pop:
  assumes "redis_law R view" "queued (view w k) (x # xs)"
  obtains w' where "r_command R [''LPOP'', k] w = (Some (RString x), w')" "queued (view w' k) xs"
proof -
  have "\<exists>r w'. r_command R [''LPOP'', k] w = (Some r, w') \<and>
        (case view w k of
           Some (VString _) \<Rightarrow> r = RError ''WRONGTYPE'' \<and> view w' = view w
         | Some (VList (x # xs)) \<Rightarrow> r = RString x \<and> view w' = (view w)(k := if xs = [] then None else Some (VList xs))
         | _ \<Rightarrow> r = RNil \<and> view w' = view w)"
    using assms(1) unfolding redis_law_def by (elim conjE) (erule allE)+
  then show thesis using that assms(2) by (auto simp: queued_def)
qed

lemma law_pop_empty:
  assumes "redis_law R view" "queued (view w k) []"
  obtains w' where "r_command R [''LPOP'', k] w = (Some RNil, w')" "view w' = view w"
proof -
  have "\<exists>r w'. r_command R [''LPOP'', k] w = (Some r, w') \<and>
        (case view w k of
           Some (VString _) \<Rightarrow> r = RError ''WRONGTYPE'' \<and> view w' = view w
         | Some (VList (x # xs)) \<Rightarrow> r = RString x \<and> view w' = (view w)(k := if xs = [] then None else Some (VList xs))
         | _ \<Rightarrow> r = RNil \<and> view w' = view w)"
    using assms(1) unfolding redis_law_def by (elim conjE) (erule allE)+
  then show thesis using that assms(2) by (auto simp: queued_def)
qed

lemma law_length:
  assumes "redis_law R view" "queued (view w k) xs"
  obtains w' where "r_command R [''LLEN'', k] w = (Some (RInteger (int (length xs))), w')" "view w' = view w"
proof -
  have "\<exists>r w'. r_command R [''LLEN'', k] w = (Some r, w') \<and> view w' = view w \<and>
        r = (case view w k of None \<Rightarrow> RInteger 0 | Some (VList xs) \<Rightarrow> RInteger (int (length xs)) | Some (VString _) \<Rightarrow> RError ''WRONGTYPE'')"
    using assms(1) unfolding redis_law_def by (elim conjE) (erule allE)+
  then show thesis using that assms(2) by (cases xs) (auto simp: queued_def)
qed

lemma redis_run_reply:
  "r_command R cmd w = (Some r, w') \<Longrightarrow> redis_run R cmd True w = (Inr r, w')"
  by (simp add: redis_run_def)

lemma queue_pushes_fifo:
  assumes "redis_law R view" "queued (view w (c_str q)) ys"
  shows "\<exists>w'. queue_pushes R q xs w = (Inr (), w') \<and> queued (view w' (c_str q)) (ys @ map c_str xs)"
  using assms(2)
proof (induction xs arbitrary: w ys)
  case (Cons x xs)
  obtain n w1 where 1: "r_command R [''RPUSH'', c_str q, c_str x] w = (Some (RInteger n), w1)"
      "view w1 = (view w)(c_str q \<mapsto> VList (ys @ [c_str x]))"
    using law_push[OF assms(1) Cons.prems] .
  have "queued (view w1 (c_str q)) (ys @ [c_str x])" by (simp add: 1(2) queued_def)
  from Cons.IH[OF this] show ?case
    by (simp add: queue_push_def redis_run_reply[OF 1(1)] ignore_reply_def)
qed simp

lemma queue_pops_fifo:
  assumes "redis_law R view" "queued (view w (c_str q)) xs"
  shows "\<exists>w'. queue_pops R q (length xs) w = (map Inr xs, w') \<and> queued (view w' (c_str q)) []"
  using assms(2)
proof (induction xs arbitrary: w)
  case (Cons x xs)
  obtain w1 where 1: "r_command R [''LPOP'', c_str q] w = (Some (RString x), w1)" "queued (view w1 (c_str q)) xs"
    using law_pop[OF assms(1) Cons.prems] .
  from Cons.IH[OF 1(2)] obtain w2 where "queue_pops R q (length xs) w1 = (map Inr xs, w2)" "queued (view w2 (c_str q)) []"
    by blast
  then show ?case
    by (simp add: queue_pop_def redis_run_reply[OF 1(1)] want_text_def)
qed (simp add: queued_def)

text \<open>C32: with a Redis server that behaves as documented, a queue is first in, first out: pushing any
  values on an absent queue succeeds, its length is then their number, as many pops return them in
  order (each up to its first zero byte), and the next pop returns the empty string.
\<close>

theorem queue_first_in_first_out:
  assumes "redis_law R view" "view w (c_str q) = None"
  shows "\<exists>w1 w2 w3 w4. queue_pushes R q xs w = (Inr (), w1) \<and>
     queue_length R q True w1 = (Inr (int (length xs)), w2) \<and>
     queue_pops R q (length xs) w2 = (map (Inr \<circ> c_str) xs, w3) \<and>
     queue_pop R q True w3 = (Inr [], w4)"
proof -
  have "queued (view w (c_str q)) []" using assms(2) by (simp add: queued_def)
  from queue_pushes_fifo[OF assms(1) this, of xs] obtain w1 where
      1: "queue_pushes R q xs w = (Inr (), w1)" "queued (view w1 (c_str q)) (map c_str xs)" by auto
  obtain w2 where 2: "r_command R [''LLEN'', c_str q] w1 = (Some (RInteger (int (length (map c_str xs)))), w2)" "view w2 = view w1"
    using law_length[OF assms(1) 1(2)] .
  from queue_pops_fifo[OF assms(1) 1(2)[folded 2(2)]] obtain w3 where
      3: "queue_pops R q (length xs) w2 = (map (Inr \<circ> c_str) xs, w3)" "queued (view w3 (c_str q)) []" by auto
  obtain w4 where 4: "r_command R [''LPOP'', c_str q] w3 = (Some RNil, w4)"
    using law_pop_empty[OF assms(1) 3(2)] .
  have "queue_length R q True w1 = (Inr (int (length xs)), w2)"
    by (simp add: queue_length_def redis_run_reply[OF 2(1)])
  moreover have "queue_pop R q True w3 = (Inr [], w4)"
    by (simp add: queue_pop_def redis_run_reply[OF 4] want_text_def)
  ultimately show ?thesis using 1(1) 3(1) by blast
qed

theorem queue_first_in_first_out_witness:
  "\<exists>w1 w2 w3 w4. queue_pushes sample_redis ''mail'' [''a'', ''b''] Map.empty = (Inr (), w1) \<and>
     queue_length sample_redis ''mail'' True w1 = (Inr 2, w2) \<and>
     queue_pops sample_redis ''mail'' 2 w2 = ([Inr ''a'', Inr ''b''], w3) \<and>
     queue_pop sample_redis ''mail'' True w3 = (Inr [], w4)"
proof -
  have "id Map.empty (c_str ''mail'') = (None :: redis_value option)" by simp
  from queue_first_in_first_out[where R = sample_redis and view = id and q = "''mail''", OF sample_redis_law this, of "[''a'', ''b'']"]
  show ?thesis by (simp add: c_str_def numeral_2_eq_2)
qed

subsection \<open>The cache\<close>

text \<open>a value that was set without an expiry is what a later \<open>get\<close> of that key returns, up to its
  first zero byte, and both return normally.
\<close>

theorem cache_roundtrip:
  assumes "redis_law R view" "e \<le> 0"
  shows "\<exists>w1 w2. cache_set R k v e True w = (Inr (), w1) \<and> cache_get R k True w1 = (Inr (c_str v), w2)"
proof -
  obtain w1 where 1: "r_command R [''SET'', c_str k, c_str v] w = (Some (RStatus ''OK''), w1)"
      "view w1 = (view w)(c_str k \<mapsto> VString (c_str v))"
    using law_set[OF assms(1)] .
  have "view w1 (c_str k) = Some (VString (c_str v))" by (simp add: 1(2))
  from law_get[OF assms(1) this] obtain w2 where 2: "r_command R [''GET'', c_str k] w1 = (Some (RString (c_str v)), w2)"
    by blast
  show ?thesis using assms(2)
    by (simp add: cache_set_def cache_get_def redis_run_reply[OF 1(1)] redis_run_reply[OF 2] ignore_reply_def want_text_def)
qed

theorem cache_roundtrip_witness:
  "\<exists>w1 w2. cache_set sample_redis ''k'' ''hello'' 0 True Map.empty = (Inr (), w1) \<and>
     cache_get sample_redis ''k'' True w1 = (Inr ''hello'', w2)"
  using cache_roundtrip[OF sample_redis_law, of 0 "''k''" "''hello''" Map.empty] by (simp add: c_str_def)

text \<open>a push on a key that holds a string is refused by the server, which changes nothing, and
  \<open>push\<close> returns normally all the same: its caller is told that the value was queued.
\<close>

theorem refused_push_reported_as_done:
  assumes "redis_law R view" "view w (c_str q) = Some (VString s)"
  shows "\<exists>w'. queue_push R q v True w = (Inr (), w') \<and> view w' = view w"
proof -
  obtain w1 where 1: "r_command R [''RPUSH'', c_str q, c_str v] w = (Some (RError ''WRONGTYPE''), w1)" "view w1 = view w"
    using law_push_refused[OF assms] .
  then show ?thesis by (simp add: queue_push_def redis_run_reply[OF 1(1)] ignore_reply_def)
qed

theorem refused_push_reported_as_done_witness:
  "\<exists>w'. queue_push sample_redis ''k'' ''job'' True [''k'' \<mapsto> VString ''x''] = (Inr (), w') \<and>
     id w' = id [''k'' \<mapsto> VString ''x'']"
proof -
  have "id [''k'' \<mapsto> VString ''x''] (c_str ''k'') = Some (VString ''x'')" by (simp add: c_str_def)
  from refused_push_reported_as_done[where R = sample_redis and view = id and q = "''k''", OF sample_redis_law this] show ?thesis .
qed

text \<open>Whatever happens, an operation without a context throws and sends nothing.\<close>

lemma unconnected_operations_throw:
  "redis_run R cmd False w = (Inl (runtime_error ''Not connected to Redis.''), w)"
  "cache_set R k v e False w = (Inl (runtime_error ''Not connected to Redis.''), w)"
  "queue_push R k v False w = (Inl (runtime_error ''Not connected to Redis.''), w)"
  by (simp_all add: redis_run_def cache_set_def queue_push_def ignore_reply_def)


end
