(* ===== verification/Sql.thy ===== *)
theory Sql
  imports Prelude
begin

text \<open>
  \<^verbatim>\<open>src/Database/SQLQueryBuilder.cpp\<close>, \<^verbatim>\<open>src/Database/SQLShemaBuilder.cpp\<close>, \<^verbatim>\<open>src/Database/SQLString.cpp\<close>: the builders
  that assemble SQL text, and the escaping of values by libpq (a parameter).
\<close>

subsection \<open>SQLQueryBuilder\<close>

record query_builder =
  table :: string
  selectColumns :: "string list"
  whereConditions :: "string list"
  orderByColumns :: "(string, string) std_map"
  groupByColumns :: "string list"
  limit :: string
  offset :: string
  joins :: "(string, string) std_map"
  insertValues :: "(string, string) std_map"
  updateValues :: "(string, string) std_map"
  isDeleteQuery :: bool
  isFirstConditionInGroup :: bool

definition SQLQueryBuilder :: "string \<Rightarrow> query_builder" where
  "SQLQueryBuilder t = \<lparr>table = t, selectColumns = [], whereConditions = [], orderByColumns = [], groupByColumns = [],
     limit = [], offset = [], joins = [], insertValues = [], updateValues = [], isDeleteQuery = False,
     isFirstConditionInGroup = True\<rparr>"

definition Select :: "string list \<Rightarrow> query_builder \<Rightarrow> query_builder" where
  "Select cols b = b\<lparr>selectColumns := cols\<rparr>"

definition Delete_q :: "query_builder \<Rightarrow> query_builder" where
  "Delete_q b = b\<lparr>isDeleteQuery := True\<rparr>"

definition Where :: "string \<Rightarrow> string \<Rightarrow> query_builder \<Rightarrow> query_builder" where
  "Where condition op b =
     (if whereConditions b \<noteq> [] \<and> \<not> isFirstConditionInGroup b
      then b\<lparr>whereConditions := whereConditions b @ [op @ '' '' @ condition]\<rparr>
      else b\<lparr>whereConditions := whereConditions b @ [condition], isFirstConditionInGroup := False\<rparr>)"

definition BeginGroup :: "string \<Rightarrow> query_builder \<Rightarrow> query_builder" where
  "BeginGroup op b =
     b\<lparr>whereConditions := whereConditions b @ [if whereConditions b \<noteq> [] then op @ '' ('' else ''(''],
       isFirstConditionInGroup := True\<rparr>"

definition EndGroup :: "query_builder \<Rightarrow> query_builder" where
  "EndGroup b = b\<lparr>whereConditions := whereConditions b @ ['')''], isFirstConditionInGroup := False\<rparr>"

definition OrderBy :: "(string, string) std_map \<Rightarrow> query_builder \<Rightarrow> query_builder" where
  "OrderBy m b = b\<lparr>orderByColumns := m\<rparr>"

definition GroupBy :: "string list \<Rightarrow> query_builder \<Rightarrow> query_builder" where
  "GroupBy cols b = b\<lparr>groupByColumns := cols\<rparr>"

definition Limit :: "int \<Rightarrow> query_builder \<Rightarrow> query_builder" where
  "Limit v b = b\<lparr>limit := '' LIMIT '' @ show_int v\<rparr>"

definition Offset :: "int \<Rightarrow> query_builder \<Rightarrow> query_builder" where
  "Offset v b = b\<lparr>offset := '' OFFSET '' @ show_int v\<rparr>"

definition Join :: "string \<Rightarrow> string \<Rightarrow> string \<Rightarrow> query_builder \<Rightarrow> query_builder" where
  "Join t onCondition joinType b =
     b\<lparr>joins := smap_put t (joinType @ '' JOIN '' @ t @ '' ON '' @ onCondition) (joins b)\<rparr>"

definition Insert :: "(string, string) std_map \<Rightarrow> query_builder \<Rightarrow> query_builder" where
  "Insert m b = b\<lparr>insertValues := m\<rparr>"

definition Update :: "(string, string) std_map \<Rightarrow> query_builder \<Rightarrow> query_builder" where
  "Update m b = b\<lparr>updateValues := m\<rparr>"

text \<open>The clauses of \<^verbatim>\<open>get\<close>; the loops that put a separator after every element but the last are \<open>join\<close>.\<close>

definition where_clause :: "query_builder \<Rightarrow> string" where
  "where_clause b = (if whereConditions b \<noteq> [] then '' WHERE '' @ join '' '' (whereConditions b) else [])"

definition order_clause :: "query_builder \<Rightarrow> string" where
  "order_clause b =
     (if orderByColumns b \<noteq> [] then '' ORDER BY '' @ join '', '' (map (\<lambda>(k, v). k @ '' '' @ v) (orderByColumns b)) else [])"

definition query_text :: "query_builder \<Rightarrow> string" where
  "query_text b =
     (if insertValues b \<noteq> []
      then ''INSERT INTO '' @ table b @ '' ('' @ join '', '' (map fst (insertValues b)) @ '') VALUES ('' @
           join '', '' (map snd (insertValues b)) @ '')''
      else if updateValues b \<noteq> []
      then ''UPDATE '' @ table b @ '' SET '' @ join '', '' (map (\<lambda>(k, v). k @ '' = '' @ v) (updateValues b)) @ where_clause b
      else if isDeleteQuery b
      then ''DELETE FROM '' @ table b @ where_clause b @ order_clause b @ limit b
      else ''SELECT '' @ (if selectColumns b = [] then ''*'' else join '', '' (selectColumns b)) @ '' FROM '' @ table b @
           concat (map (\<lambda>(t, clause). '' '' @ clause) (joins b)) @ where_clause b @
           (if groupByColumns b \<noteq> [] then '' GROUP BY '' @ join '', '' (groupByColumns b) else []) @
           order_clause b @ limit b @ offset b)"

subsection \<open>SQLSchemaBuilder\<close>

record schema_builder =
  sb_table :: string
  columns :: "string list"
  primaryKeys :: "string list"
  foreignKeys :: "string list"
  dropColumns :: "string list"
  alterColumns :: "string list"

definition SQLSchemaBuilder :: "string \<Rightarrow> schema_builder" where
  "SQLSchemaBuilder t = \<lparr>sb_table = t, columns = [], primaryKeys = [], foreignKeys = [], dropColumns = [], alterColumns = []\<rparr>"

definition AddColumn :: "string \<Rightarrow> schema_builder \<Rightarrow> schema_builder" where
  "AddColumn c b = b\<lparr>columns := columns b @ [c]\<rparr>"

definition AddPrimaryKey :: "string \<Rightarrow> schema_builder \<Rightarrow> schema_builder" where
  "AddPrimaryKey c b = b\<lparr>primaryKeys := primaryKeys b @ [c]\<rparr>"

definition AddForeignKey :: "string \<Rightarrow> string \<Rightarrow> string \<Rightarrow> schema_builder \<Rightarrow> schema_builder" where
  "AddForeignKey c refTable refColumn b =
     b\<lparr>foreignKeys := foreignKeys b @ [''('' @ c @ '')'' @ '' REFERENCES '' @ refTable @ ''('' @ refColumn @ '')'']\<rparr>"

definition AddIndex :: "string \<Rightarrow> string list \<Rightarrow> schema_builder \<Rightarrow> string" where
  "AddIndex name cols b = ''CREATE INDEX '' @ name @ '' ON '' @ sb_table b @ '' ('' @ join '', '' cols @ '');''"

definition AddUniqueConstraint :: "string \<Rightarrow> string list \<Rightarrow> schema_builder \<Rightarrow> string" where
  "AddUniqueConstraint name cols b =
     ''ALTER TABLE '' @ sb_table b @ '' ADD CONSTRAINT '' @ name @ '' UNIQUE ('' @ join '', '' cols @ '');''"

definition DropColumn :: "string \<Rightarrow> schema_builder \<Rightarrow> schema_builder" where
  "DropColumn c b = b\<lparr>dropColumns := dropColumns b @ [c]\<rparr>"

definition AlterColumn :: "string \<Rightarrow> schema_builder \<Rightarrow> schema_builder" where
  "AlterColumn c b = b\<lparr>alterColumns := alterColumns b @ [c]\<rparr>"

text \<open>The column loop writes its separator when another column or a key clause follows.\<close>

fun column_list :: "string list \<Rightarrow> bool \<Rightarrow> string" where
  "column_list [] others = []"
| "column_list (c # cs) others = c @ (if cs \<noteq> [] \<or> others then '', '' else []) @ column_list cs others"

definition CreateTable :: "schema_builder \<Rightarrow> string" where
  "CreateTable b =
     ''CREATE TABLE '' @ sb_table b @ '' ('' @
     column_list (columns b) (primaryKeys b \<noteq> [] \<or> foreignKeys b \<noteq> []) @
     (if primaryKeys b \<noteq> []
      then ''PRIMARY KEY ('' @ join '', '' (primaryKeys b) @ '')'' @ (if foreignKeys b \<noteq> [] then '', '' else [])
      else []) @
     join '', '' (map (\<lambda>f. ''FOREIGN KEY '' @ f) (foreignKeys b)) @ '');''"

definition DropTable :: "schema_builder \<Rightarrow> string" where
  "DropTable b = ''DROP TABLE '' @ sb_table b @ '' CASCADE;''"

subsection \<open>SQLString\<close>

text \<open>\<^verbatim>\<open>PQescapeLiteral\<close> and \<^verbatim>\<open>PQescapeIdentifier\<close> may fail (\<open>None\<close>: a null pointer).\<close>

definition EscapeString :: "(string \<Rightarrow> string option) \<Rightarrow> string \<Rightarrow> string" where
  "EscapeString pq_literal input =
     (case pq_literal input of
        None \<Rightarrow> [CHR 0x27] @ ''ERROR: FAILED TO ESCAPE STRING'' @ [CHR 0x27]
      | Some s \<Rightarrow> s)"

definition EscapeIdentifier :: "(string \<Rightarrow> string option) \<Rightarrow> string \<Rightarrow> string" where
  "EscapeIdentifier pq_identifier input =
     (case pq_identifier input of
        None \<Rightarrow> [CHR 0x22] @ ''ERROR: FAILED TO ESCAPE IDENTIFIER'' @ [CHR 0x22]
      | Some s \<Rightarrow> s)"

subsection \<open>The conditions as an expression\<close>

text \<open>What a sequence of \<^verbatim>\<open>Where\<close>, \<^verbatim>\<open>BeginGroup\<close> and \<^verbatim>\<open>EndGroup\<close> calls means: a list of conditions and groups,
  each with the operator that joins it to what precedes it.\<close>

datatype cond = Atom string | Group "(string \<times> cond) list"

fun render :: "cond \<Rightarrow> string" and render_items :: "(string \<times> cond) list \<Rightarrow> string list" where
  "render (Atom c) = c"
| "render (Group is) = ''( '' @ join '' '' (render_items is) @ '' )''"
| "render_items [] = []"
| "render_items [(op, c)] = [render c]"
| "render_items ((op, c) # (op', c') # is) = render c # op' # render_items ((op', c') # is)"

text \<open>The calls a program makes for such an expression.\<close>

fun call :: "string \<Rightarrow> cond \<Rightarrow> query_builder \<Rightarrow> query_builder"
  and call_items :: "(string \<times> cond) list \<Rightarrow> query_builder \<Rightarrow> query_builder" where
  "call op (Atom c) b = Where c op b"
| "call op (Group is) b = EndGroup (call_items is (BeginGroup op b))"
| "call_items [] b = b"
| "call_items ((op, c) # is) b = call_items is (call op c b)"

text \<open>No group is empty and none begins with another group.\<close>

fun is_atom :: "cond \<Rightarrow> bool" where
  "is_atom (Atom _) = True"
| "is_atom (Group _) = False"

fun groups_ok :: "cond \<Rightarrow> bool" and items_ok :: "(string \<times> cond) list \<Rightarrow> bool" where
  "groups_ok (Atom _) = True"
| "groups_ok (Group is) = (is \<noteq> [] \<and> is_atom (snd (hd is)) \<and> items_ok is)"
| "items_ok [] = True"
| "items_ok ((op, c) # is) = (groups_ok c \<and> items_ok is)"

subsection \<open>The builder writes the expression\<close>

definition started :: "query_builder \<Rightarrow> bool" where
  "started b \<longleftrightarrow> whereConditions b \<noteq> [] \<and> \<not> isFirstConditionInGroup b"

definition added :: "query_builder \<Rightarrow> query_builder \<Rightarrow> string \<Rightarrow> bool" where
  "added b b' t \<longleftrightarrow> started b' \<and> (\<exists>ts. ts \<noteq> [] \<and> whereConditions b' = whereConditions b @ ts \<and> join '' '' ts = t)"

lemma added_trans:
  assumes "added b b' t" "added b' b'' t'" shows "added b b'' (t @ '' '' @ t')"
proof -
  obtain ts ts' where "ts \<noteq> []" "ts' \<noteq> []" "whereConditions b' = whereConditions b @ ts" "join '' '' ts = t"
    "whereConditions b'' = whereConditions b' @ ts'" "join '' '' ts' = t'" "started b''"
    using assms by (auto simp: added_def)
  then show ?thesis
    unfolding added_def by (intro conjI exI [of _ "ts @ ts'"]) (simp_all add: join_append)
qed

lemma join_render_items:
  "is \<noteq> [] \<Longrightarrow> join '' '' (render_items ((op, c) # is)) = render c @ '' '' @ fst (hd is) @ '' '' @ join '' '' (render_items is)"
proof (cases "is")
  case (Cons i is')
  obtain op' c' where i: "i = (op', c')" by force
  have "render_items ((op', c') # is') \<noteq> []" by (cases is') auto
  with Cons i show ?thesis by (simp add: join_Cons)
qed simp

lemma call_added:
  "groups_ok c \<Longrightarrow> started b \<or> whereConditions b = [] \<or> is_atom c \<Longrightarrow>
     added b (call op c b) ((if started b then op @ '' '' else []) @ render c)"
  "items_ok is \<Longrightarrow> is \<noteq> [] \<Longrightarrow> started b \<or> whereConditions b = [] \<or> is_atom (snd (hd is)) \<Longrightarrow>
     added b (call_items is b) ((if started b then fst (hd is) @ '' '' else []) @ join '' '' (render_items is))"
proof (induction op c b and "is" b rule: call_call_items.induct)
  case (1 op c b)
  then show ?case by (auto simp: Where_def added_def started_def)
next
  case (2 op "is" b)
  let ?b = "BeginGroup op b"
  have ns: "\<not> started ?b" by (simp add: started_def BeginGroup_def)
  from 2 have "added ?b (call_items is ?b) (join '' '' (render_items is))" using ns by auto
  then obtain ts where ts: "ts \<noteq> []" "whereConditions (call_items is ?b) = whereConditions ?b @ ts"
    "join '' '' ts = join '' '' (render_items is)" by (auto simp: added_def)
  let ?open = "if whereConditions b \<noteq> [] then op @ '' ('' else ''(''"
  have open_eq: "?open = (if started b then op @ '' '' else []) @ ''(''"
    using 2(3) by (auto simp: started_def)
  have "whereConditions (call op (Group is) b) = whereConditions b @ (?open # ts @ ['')''])"
    using ts(2) by (simp add: EndGroup_def BeginGroup_def)
  moreover have "join '' '' (?open # ts @ ['')'']) = (if started b then op @ '' '' else []) @ render (Group is)"
    using ts(1,3) by (simp add: open_eq join_Cons join_snoc)
  moreover have "started (call op (Group is) b)" by (simp add: started_def EndGroup_def)
  ultimately show ?case unfolding added_def by blast
next
  case (4 op c "is" b)
  have first: "added b (call op c b) ((if started b then op @ '' '' else []) @ render c)" using 4 by simp
  then have st: "started (call op c b)" by (simp add: added_def)
  show ?case
  proof (cases "is = []")
    case False
    then have "added (call op c b) (call_items is (call op c b)) (fst (hd is) @ '' '' @ join '' '' (render_items is))"
      using 4 st by simp
    from added_trans [OF first this] show ?thesis
      using join_render_items [OF False, of op c] by (cases "started b") simp_all
  qed (use first in \<open>cases "started b"; simp\<close>)
qed simp

text \<open>C37: For a condition expression without empty groups in which no group begins with another group, the
  calls produce exactly the text of the expression: every condition once, operators between
  neighbours and nowhere else, parentheses balanced.\<close>

theorem where_text_correct:
  assumes "items_ok is" "is \<noteq> []"
  shows "where_clause (call_items is (SQLQueryBuilder t)) = '' WHERE '' @ join '' '' (render_items is)"
proof -
  have "added (SQLQueryBuilder t) (call_items is (SQLQueryBuilder t)) (join '' '' (render_items is))"
    using call_added(2) [OF assms, of "SQLQueryBuilder t"] by (simp add: SQLQueryBuilder_def started_def)
  then show ?thesis by (auto simp: added_def where_clause_def SQLQueryBuilder_def)
qed

text \<open>A group that begins with another group gets an operator in front of the inner parenthesis.\<close>

theorem nested_group_malformed:
  "where_clause (call_items [(''AND'', Group [(''AND'', Group [(''AND'', Atom ''a'')])])] (SQLQueryBuilder t)) =
     '' WHERE ( AND ( a ) )''"
  by (simp add: SQLQueryBuilder_def where_clause_def BeginGroup_def EndGroup_def Where_def)

theorem where_text_correct_witness:
  "where_clause (call_items [(''AND'', Atom ''a = 1''), (''OR'', Group [(''AND'', Atom ''b''), (''AND'', Atom ''c'')])]
     (SQLQueryBuilder ''t'')) = '' WHERE a = 1 OR ( b AND c )''"
proof -
  let ?is = "[(''AND'', Atom ''a = 1''), (''OR'', Group [(''AND'', Atom ''b''), (''AND'', Atom ''c'')])]"
  have "items_ok ?is" "?is \<noteq> []" by simp_all
  from where_text_correct [OF this, of "''t''"] show ?thesis by simp
qed

end
