(* ===== verification/Database.thy ===== *)
theory Database
  imports Sql ConfigManager
begin

text \<open>
  \<^verbatim>\<open>src/Database/Database.cpp\<close> and \<^verbatim>\<open>src/Database/Migrations/\<close>: the PostgreSQL connection with its
  transaction flag, and the migrations that run on it. libpq is a parameter (\<open>pq\<close>), a function from
  statements to answers on an abstract session state; what the migration properties need of a
  transactional session are the laws \<open>pg_laws\<close>.
\<close>

subsection \<open>libpq\<close>

datatype pg_answer = CommandOk | TuplesOk "string list" "string option list list" | PgFailed string

record 'p pq =
  pq_exec :: "string \<Rightarrow> 'p \<Rightarrow> pg_answer \<times> 'p"
  pq_literal :: "string \<Rightarrow> string option"
  pq_connect :: "string \<Rightarrow> string option \<times> 'p" \<comment> \<open>the error message if the status is bad\<close>

record 'p database =
  conn :: 'p
  in_transaction :: bool

type_synonym ('p, 'a) db_result = "'a result \<times> 'p database"

definition run_sql :: "'p pq \<Rightarrow> string \<Rightarrow> 'p database \<Rightarrow> pg_answer \<times> 'p database" where
  "run_sql P sql db = (let (a, c) = pq_exec P sql (conn db) in (a, db\<lparr>conn := c\<rparr>))"

subsection \<open>Database\<close>

definition connection_string :: "config \<Rightarrow> string" where
  "connection_string g =
     ''host='' @ get_str g ''database.host'' ''localhost'' @ '' user='' @ get_str g ''database.username'' ''postgres'' @
     '' password='' @ get_str g ''database.password'' [] @ '' dbname='' @ get_str g ''database.database'' ''postgres'' @
     '' client_encoding=UTF8''"

definition Database :: "'p pq \<Rightarrow> config \<Rightarrow> 'p database result" where
  "Database P g =
     (case pq_connect P (connection_string g) of
        (Some e, _) \<Rightarrow> Inl (runtime_error (''Connection failed: '' @ e))
      | (None, c) \<Rightarrow> Inr \<lparr>conn = c, in_transaction = False\<rparr>)"

definition execute :: "'p pq \<Rightarrow> string \<Rightarrow> 'p database \<Rightarrow> ('p, unit) db_result" where
  "execute P sql db =
     (case run_sql P sql db of
        (PgFailed e, db1) \<Rightarrow>
          (Inl (runtime_error e),
           if in_transaction db1 then (snd (run_sql P ''ROLLBACK'' db1))\<lparr>in_transaction := False\<rparr> else db1)
      | (_, db1) \<Rightarrow> (Inr (), db1))"

definition quoted :: "string \<Rightarrow> string" where
  "quoted s = [CHR 0x22] @ s @ [CHR 0x22]"

definition transaction :: "'p pq \<Rightarrow> string \<Rightarrow> 'p database \<Rightarrow> ('p, unit) db_result" where
  "transaction P name db =
     (if name \<noteq> [] \<and> \<not> in_transaction db
      then (Inl (runtime_error ''Cannot create savepoint outside of a transaction''), db)
      else let (sql, db1) = (if name = [] then (''BEGIN'', db\<lparr>in_transaction := True\<rparr>) else (''SAVEPOINT '' @ quoted name, db))
           in case run_sql P sql db1 of
                (CommandOk, db2) \<Rightarrow> (Inr (), db2)
              | (PgFailed e, db2) \<Rightarrow> (Inl (runtime_error (''Failed to start transaction: '' @ e)), db2)
              | (_, db2) \<Rightarrow> (Inl (runtime_error ''Failed to start transaction: ''), db2))"

definition rollback :: "'p pq \<Rightarrow> string \<Rightarrow> 'p database \<Rightarrow> ('p, unit) db_result" where
  "rollback P name db =
     (if \<not> in_transaction db then (Inr (), db)
      else let (sql, db1) = (if name = [] then (''ROLLBACK'', db\<lparr>in_transaction := False\<rparr>)
                             else (''ROLLBACK TO SAVEPOINT '' @ quoted name, db))
           in case run_sql P sql db1 of
                (CommandOk, db2) \<Rightarrow> (Inr (), if name \<noteq> [] then db2\<lparr>in_transaction := True\<rparr> else db2)
              | (PgFailed e, db2) \<Rightarrow> (Inl (runtime_error (''Failed to rollback: '' @ e)), db2\<lparr>in_transaction := False\<rparr>)
              | (_, db2) \<Rightarrow> (Inl (runtime_error ''Failed to rollback: ''), db2\<lparr>in_transaction := False\<rparr>))"

definition commit :: "'p pq \<Rightarrow> 'p database \<Rightarrow> ('p, unit) db_result" where
  "commit P db =
     (case run_sql P ''COMMIT'' db of
        (CommandOk, db1) \<Rightarrow> (Inr (), db1\<lparr>in_transaction := False\<rparr>)
      | (PgFailed e, db1) \<Rightarrow> (Inl (runtime_error (''Failed to commit: '' @ e)), db1)
      | (_, db1) \<Rightarrow> (Inl (runtime_error ''Failed to commit: ''), db1))"

text \<open>\<^verbatim>\<open>PQgetvalue\<close> of a null value is the empty string.\<close>

fun value_text :: "string option \<Rightarrow> string" where
  "value_text None = []"
| "value_text (Some s) = s"

definition query :: "'p pq \<Rightarrow> string \<Rightarrow> 'p database \<Rightarrow> ('p, string) db_result" where
  "query P sql db =
     (case run_sql P sql db of
        (TuplesOk cols rows, db1) \<Rightarrow>
          (Inr (concat (map (\<lambda>row. concat (map (\<lambda>v. value_text v @ '' '') row) @ [CHR 0x0A]) rows)), db1)
      | (PgFailed e, db1) \<Rightarrow> (Inl (runtime_error e), db1)
      | (_, db1) \<Rightarrow> (Inl (runtime_error []), db1))"

text \<open>The parameters replace the question marks from the left, each time the first one that is in the text.\<close>

fun substitute :: "'p pq \<Rightarrow> string list \<Rightarrow> string \<Rightarrow> string" where
  "substitute P [] sql = sql"
| "substitute P (p # ps) sql =
     (case find_char CHR ''?'' sql of
        None \<Rightarrow> substitute P ps sql
      | Some i \<Rightarrow> substitute P ps (take i sql @ EscapeString (pq_literal P) p @ drop (Suc i) sql))"

definition row_map :: "string list \<Rightarrow> string option list \<Rightarrow> (string, string) std_map" where
  "row_map cols row = smap_put_all (zip cols (map value_text row)) []"

definition count_marks :: "string \<Rightarrow> nat" where
  "count_marks s = length (filter (\<lambda>c. c = CHR ''?'') s)"

definition mismatch :: "nat \<Rightarrow> nat \<Rightarrow> exn" where
  "mismatch expected got =
     runtime_error (''Parameter count mismatch. Expected '' @ show_nat expected @ '', got '' @ show_nat got)"

definition queryToVector :: "'p pq \<Rightarrow> string \<Rightarrow> string list \<Rightarrow> 'p database \<Rightarrow> ('p, (string, string) std_map list) db_result" where
  "queryToVector P sql_template ps db =
     (if count_marks sql_template \<noteq> length ps then (Inl (mismatch (count_marks sql_template) (length ps)), db)
      else case run_sql P (substitute P ps sql_template) db of
             (TuplesOk cols rows, db1) \<Rightarrow> (Inr (map (row_map cols) rows), db1)
           | (PgFailed e, db1) \<Rightarrow> (Inl (runtime_error e), db1)
           | (_, db1) \<Rightarrow> (Inl (runtime_error []), db1))"

definition queryMap :: "'p pq \<Rightarrow> string \<Rightarrow> string list \<Rightarrow> 'p database \<Rightarrow> ('p, (string, string) std_map) db_result" where
  "queryMap P sql_template ps db =
     (if count_marks sql_template \<noteq> length ps then (Inl (mismatch (count_marks sql_template) (length ps)), db)
      else case run_sql P (substitute P ps sql_template) db of
             (TuplesOk cols rows, db1) \<Rightarrow> (Inr (case rows of [] \<Rightarrow> [] | row # _ \<Rightarrow> row_map cols row), db1)
           | (PgFailed e, db1) \<Rightarrow> (Inl (runtime_error e), db1)
           | (_, db1) \<Rightarrow> (Inl (runtime_error []), db1))"

subsection \<open>Migrations\<close>

record migration =
  mig_name :: string \<comment> \<open>\<^verbatim>\<open>typeid(Migration).name()\<close>\<close>
  up :: "string list"
  down :: string

record 'p manager =
  mdb :: "'p database"
  executed :: "string list" \<comment> \<open>\<^verbatim>\<open>executedMigrations\<close>\<close>

text \<open>The constructor loads the executed migrations; a failed query is rethrown sliced.\<close>

definition MigrationManager :: "'p pq \<Rightarrow> 'p database \<Rightarrow> 'p manager result" where
  "MigrationManager P db =
     (case queryToVector P ''SELECT name FROM migrations;'' [] db of
        (Inl e, _) \<Rightarrow> Inl plain_exception
      | (Inr rows, db1) \<Rightarrow> Inr \<lparr>mdb = db1, executed = remdups (List.map_filter (\<lambda>row. map_of row ''name'') rows)\<rparr>)"

definition sql_text :: "string \<Rightarrow> string" where
  "sql_text s = [CHR 0x27] @ s @ [CHR 0x27]"

definition isMigrationExecuted :: "string \<Rightarrow> 'p manager \<Rightarrow> bool" where
  "isMigrationExecuted name m \<longleftrightarrow> name \<in> set (executed m)"

definition lift_db :: "('p database \<Rightarrow> ('p, 'a) db_result) \<Rightarrow> 'p manager \<Rightarrow> 'a result \<times> 'p manager" where
  "lift_db f m = (case f (mdb m) of (r, db) \<Rightarrow> (r, m\<lparr>mdb := db\<rparr>))"

definition then_do :: "('m \<Rightarrow> unit result \<times> 'm) \<Rightarrow> ('m \<Rightarrow> unit result \<times> 'm) \<Rightarrow> 'm \<Rightarrow> unit result \<times> 'm" where
  "then_do f g m = (case f m of (Inl e, m') \<Rightarrow> (Inl e, m') | (Inr _, m') \<Rightarrow> g m')"

definition markMigrationAsExecuted :: "'p pq \<Rightarrow> string \<Rightarrow> 'p manager \<Rightarrow> unit result \<times> 'p manager" where
  "markMigrationAsExecuted P name =
     then_do (lift_db (execute P (''INSERT INTO migrations (name) VALUES ('' @ sql_text name @ '');'')))
             (\<lambda>m. (Inr (), m\<lparr>executed := List.insert name (executed m)\<rparr>))"

definition unmarkMigrationAsExecuted :: "'p pq \<Rightarrow> string \<Rightarrow> 'p manager \<Rightarrow> unit result \<times> 'p manager" where
  "unmarkMigrationAsExecuted P name =
     then_do (lift_db (execute P (''DELETE FROM migrations WHERE name = '' @ sql_text name @ '';'')))
             (\<lambda>m. (Inr (), m\<lparr>executed := removeAll name (executed m)\<rparr>))"

fun executeQueries :: "'p pq \<Rightarrow> string list \<Rightarrow> 'p manager \<Rightarrow> unit result \<times> 'p manager" where
  "executeQueries P [] m = (Inr (), m)"
| "executeQueries P (q # qs) m =
     (case lift_db (execute P q) m of (Inl e, m') \<Rightarrow> (Inl e, m') | (Inr _, m') \<Rightarrow> executeQueries P qs m')"

definition migrate_body :: "'p pq \<Rightarrow> migration \<Rightarrow> 'p manager \<Rightarrow> unit result \<times> 'p manager" where
  "migrate_body P mig =
     then_do (lift_db (transaction P []))
       (then_do (lift_db (transaction P (''migration_'' @ mig_name mig)))
         (then_do (executeQueries P (up mig))
           (then_do (markMigrationAsExecuted P (mig_name mig)) (lift_db (commit P)))))"

definition migrate :: "'p pq \<Rightarrow> migration \<Rightarrow> 'p manager \<Rightarrow> unit result \<times> 'p manager" where
  "migrate P mig m =
     (if isMigrationExecuted (mig_name mig) m then (Inr (), m)
      else case migrate_body P mig m of
             (Inr _, m') \<Rightarrow> (Inr (), m')
           | (Inl e, m') \<Rightarrow>
               (Inl e, if in_transaction (mdb m')
                       then snd (lift_db (rollback P []) (snd (lift_db (rollback P (''migration_'' @ mig_name mig)) m')))
                       else m'))"

definition rollback_migration :: "'p pq \<Rightarrow> migration \<Rightarrow> 'p manager \<Rightarrow> unit result \<times> 'p manager" where
  "rollback_migration P mig m =
     (if \<not> isMigrationExecuted (mig_name mig) m then (Inr (), m)
      else case then_do (lift_db (transaction P []))
                  (then_do (lift_db (execute P (down mig)))
                    (then_do (unmarkMigrationAsExecuted P (mig_name mig)) (lift_db (commit P)))) m of
             (Inr _, m') \<Rightarrow> (Inr (), m')
           | (Inl e, m') \<Rightarrow> (Inl e, snd (lift_db (rollback P []) m')))"

text \<open>\<^verbatim>\<open>migrateAll\<close> stops at the first failure and swallows it; \<^verbatim>\<open>rollbackAll\<close> lets it through.\<close>

fun migrate_chain :: "'p pq \<Rightarrow> migration list \<Rightarrow> 'p manager \<Rightarrow> unit result \<times> 'p manager" where
  "migrate_chain P [] m = (Inr (), m)"
| "migrate_chain P (mig # migs) m =
     (case migrate P mig m of (Inl e, m') \<Rightarrow> (Inl e, m') | (Inr _, m') \<Rightarrow> migrate_chain P migs m')"

definition migrateAll :: "'p pq \<Rightarrow> migration list \<Rightarrow> 'p manager \<Rightarrow> 'p manager" where
  "migrateAll P migs m = snd (migrate_chain P migs m)"

fun rollbackAll :: "'p pq \<Rightarrow> migration list \<Rightarrow> 'p manager \<Rightarrow> unit result \<times> 'p manager" where
  "rollbackAll P [] m = (Inr (), m)"
| "rollbackAll P (mig # migs) m =
     (case rollback_migration P mig m of (Inl e, m') \<Rightarrow> (Inl e, m') | (Inr _, m') \<Rightarrow> rollbackAll P migs m')"

definition migrations_table :: migration where
  "migrations_table =
     (let b = AddColumn ''name VARCHAR(255) NOT NULL'' (AddColumn ''id SERIAL PRIMARY KEY'' (SQLSchemaBuilder ''migrations''))
      in \<lparr>mig_name = ''MigrationMigrationsCreate'', up = [CreateTable b, AddIndex ''idx_name'' [''name''] b],
          down = DropTable (SQLSchemaBuilder ''migrations'')\<rparr>)"

text \<open>\<^verbatim>\<open>Migration\<close>: handlers with a flag that they have run; a handler may throw.\<close>

type_synonym 'w handlers = "(('w \<Rightarrow> unit result \<times> 'w) \<times> bool) list"

definition addMigration :: "('w \<Rightarrow> unit result \<times> 'w) \<Rightarrow> 'w handlers \<Rightarrow> 'w handlers" where
  "addMigration h hs = hs @ [(h, False)]"

fun runMigrations :: "'w handlers \<Rightarrow> 'w \<Rightarrow> unit result \<times> 'w handlers \<times> 'w" where
  "runMigrations [] w = (Inr (), [], w)"
| "runMigrations ((h, done_before) # hs) w =
     (if done_before then (case runMigrations hs w of (r, hs', w') \<Rightarrow> (r, (h, True) # hs', w'))
      else case h w of
             (Inl e, w1) \<Rightarrow> (Inl e, (h, False) # hs, w1)
           | (Inr _, w1) \<Rightarrow> (case runMigrations hs w1 of (r, hs', w') \<Rightarrow> (r, (h, True) # hs', w')))"

subsection \<open>Filling in parameters\<close>

text \<open>The reference: one pass over the template, each question mark takes the next parameter.\<close>

fun fill :: "(string \<Rightarrow> string) \<Rightarrow> string \<Rightarrow> string list \<Rightarrow> string" where
  "fill esc [] ps = []"
| "fill esc (c # s) ps =
     (if c = CHR ''?'' then (case ps of [] \<Rightarrow> c # fill esc s [] | p # ps' \<Rightarrow> esc p @ fill esc s ps')
      else c # fill esc s ps)"

lemma fill_Nil [simp]: "fill esc s [] = s"
  by (induction s) auto

lemma fill_skip: "CHR ''?'' \<notin> set t \<Longrightarrow> fill esc (t @ s) ps = t @ fill esc s ps"
  by (induction t) auto

lemma substitute_fill:
  assumes "\<forall>p \<in> set ps. CHR ''?'' \<notin> set (EscapeString (pq_literal P) p)" "CHR ''?'' \<notin> set pre"
    and "length ps \<le> count_marks s"
  shows "substitute P ps (pre @ s) = pre @ fill (EscapeString (pq_literal P)) s ps"
  using assms
proof (induction ps arbitrary: pre s)
  case (Cons p ps)
  have "filter (\<lambda>c. c = CHR ''?'') s \<noteq> []" using Cons.prems(3) by (auto simp: count_marks_def)
  then have "CHR ''?'' \<in> set s" by (auto simp: filter_empty_conv)
  then obtain u v where s: "s = u @ CHR ''?'' # v" "CHR ''?'' \<notin> set u" by (metis split_list_first)
  have "find_char CHR ''?'' (pre @ s) = Some (length (pre @ u))"
    using find_char_append [of "CHR ''?''" "pre @ u" v] s Cons.prems(2) by simp
  then have "substitute P (p # ps) (pre @ s) = substitute P ps ((pre @ u @ EscapeString (pq_literal P) p) @ v)"
    using s by simp
  also have "\<dots> = (pre @ u @ EscapeString (pq_literal P) p) @ fill (EscapeString (pq_literal P)) v ps"
  proof (rule Cons.IH)
    have "filter (\<lambda>c. c = CHR ''?'') u = []" using s(2) by (auto simp: filter_empty_conv)
    then show "length ps \<le> count_marks v" using Cons.prems(3) s(1) by (simp add: count_marks_def)
  qed (use Cons.prems s in auto)
  finally show ?case using s by (simp add: fill_skip)
qed simp

subsection \<open>Transactions\<close>

text \<open>What a PostgreSQL session guarantees: statements that do not control transactions change nothing
  durable while a transaction is open and leave it open, \<^verbatim>\<open>BEGIN\<close> and savepoints change nothing
  durable, nor does \<^verbatim>\<open>ROLLBACK\<close>. Nothing is said of \<^verbatim>\<open>COMMIT\<close>: one that is not acknowledged may or may not have
  taken effect.\<close>

definition pg_laws :: "'p pq \<Rightarrow> ('p \<Rightarrow> 'd) \<Rightarrow> ('p \<Rightarrow> bool) \<Rightarrow> (string \<Rightarrow> bool) \<Rightarrow> bool" where
  "pg_laws P durable open_tx control \<longleftrightarrow>
     (\<forall>q p. \<not> control q \<longrightarrow> open_tx p \<longrightarrow>
        durable (snd (pq_exec P q p)) = durable p \<and> open_tx (snd (pq_exec P q p))) \<and>
     (\<forall>p. durable (snd (pq_exec P ''BEGIN'' p)) = durable p \<and>
        (fst (pq_exec P ''BEGIN'' p) = CommandOk \<longrightarrow> open_tx (snd (pq_exec P ''BEGIN'' p)))) \<and>
     (\<forall>n p. durable (snd (pq_exec P (''SAVEPOINT '' @ quoted n) p)) = durable p \<and>
        (open_tx p \<longrightarrow> open_tx (snd (pq_exec P (''SAVEPOINT '' @ quoted n) p)))) \<and>
     (\<forall>n p. durable (snd (pq_exec P (''ROLLBACK TO SAVEPOINT '' @ quoted n) p)) = durable p) \<and>
     (\<forall>p. durable (snd (pq_exec P ''ROLLBACK'' p)) = durable p)"

definition mdurable :: "('p \<Rightarrow> 'd) \<Rightarrow> 'p manager \<Rightarrow> 'd" where
  "mdurable durable m = durable (conn (mdb m))"

lemma run_sql_simps [simp]:
  "fst (run_sql P q db) = fst (pq_exec P q (conn db))" "conn (snd (run_sql P q db)) = snd (pq_exec P q (conn db))"
  "in_transaction (snd (run_sql P q db)) = in_transaction db"
  by (simp_all add: run_sql_def case_prod_unfold Let_def)

lemma then_do_cases:
  assumes "then_do f g m = (r, m')"
  obtains e where "f m = (Inl e, m')" "r = Inl e" | m1 where "f m = (Inr (), m1)" "g m1 = (r, m')"
  using assms by (auto simp: then_do_def split: prod.splits sum.splits)

lemma lift_db_conn: "lift_db f m = (r, m') \<longleftrightarrow> (\<exists>db. f (mdb m) = (r, db) \<and> m' = m\<lparr>mdb := db\<rparr>)"
  by (auto simp: lift_db_def split: prod.splits)

lemma execute_conn:
  "conn (snd (execute P q db)) \<in> {snd (pq_exec P q (conn db)), snd (pq_exec P ''ROLLBACK'' (snd (pq_exec P q (conn db))))}
   \<and> (fst (execute P q db) = Inr () \<longrightarrow> conn (snd (execute P q db)) = snd (pq_exec P q (conn db)))"
proof -
  obtain a db1 where r: "run_sql P q db = (a, db1)" by force
  then have "conn db1 = snd (pq_exec P q (conn db))" using run_sql_simps(2) [of P q db] by simp
  with r show ?thesis by (cases a) (auto simp: execute_def)
qed

lemma execute_kept:
  assumes "pg_laws P durable open_tx control" "\<not> control q" "open_tx (conn (mdb m))"
    and "lift_db (execute P q) m = (r, m')"
  shows "mdurable durable m' = mdurable durable m \<and> (r = Inr () \<longrightarrow> open_tx (conn (mdb m')))"
proof -
  obtain db where db: "execute P q (mdb m) = (r, db)" "m' = m\<lparr>mdb := db\<rparr>" using assms(4) by (auto simp: lift_db_conn)
  have "durable (snd (pq_exec P q (conn (mdb m)))) = durable (conn (mdb m))" "open_tx (snd (pq_exec P q (conn (mdb m))))"
    "durable (snd (pq_exec P ''ROLLBACK'' p)) = durable p" for p
    using assms(1-3) by (auto simp: pg_laws_def)
  then show ?thesis using execute_conn [of P q "mdb m"] db by (auto simp: mdurable_def)
qed

lemma executeQueries_kept:
  assumes "pg_laws P durable open_tx control"
  shows "\<forall>q \<in> set qs. \<not> control q \<Longrightarrow> open_tx (conn (mdb m)) \<Longrightarrow> executeQueries P qs m = (r, m') \<Longrightarrow>
    mdurable durable m' = mdurable durable m \<and> (r = Inr () \<longrightarrow> open_tx (conn (mdb m')))"
proof (induction qs arbitrary: m)
  case (Cons q qs)
  obtain r1 m1 where e: "lift_db (execute P q) m = (r1, m1)" by force
  note k = execute_kept [OF assms _ Cons.prems(2) e]
  show ?case
  proof (cases r1)
    case (Inl x)
    then show ?thesis using Cons.prems e k by auto
  next
    case (Inr u)
    then show ?thesis using Cons.prems e k Cons.IH [of m1] by simp
  qed
qed simp

lemma transaction_kept:
  assumes "pg_laws P durable open_tx control" "lift_db (transaction P n) m = (r, m')" "n = [] \<or> open_tx (conn (mdb m))"
  shows "mdurable durable m' = mdurable durable m \<and> (r = Inr () \<longrightarrow> open_tx (conn (mdb m')))"
proof -
  let ?q = "if n = [] then ''BEGIN'' else ''SAVEPOINT '' @ quoted n"
  let ?p = "snd (pq_exec P ?q (conn (mdb m)))"
  obtain db where db: "transaction P n (mdb m) = (r, db)" "m' = m\<lparr>mdb := db\<rparr>" using assms(2) by (auto simp: lift_db_conn)
  have law: "durable ?p = durable (conn (mdb m))" "fst (pq_exec P ?q (conn (mdb m))) = CommandOk \<longrightarrow> open_tx ?p"
    using assms(1,3) by (auto simp: pg_laws_def)
  have "conn db = conn (mdb m) \<and> r \<noteq> Inr () \<or> conn db = ?p \<and> (r = Inr () \<longrightarrow> fst (pq_exec P ?q (conn (mdb m))) = CommandOk)"
    using db(1) by (auto simp: transaction_def run_sql_def Let_def split: if_splits prod.splits pg_answer.splits)
  then show ?thesis using db(2) law by (auto simp: mdurable_def)
qed

lemma rollback_kept:
  assumes "pg_laws P durable open_tx control"
  shows "mdurable durable (snd (lift_db (rollback P n) m)) = mdurable durable m"
proof -
  have "durable (conn (snd (rollback P n db))) = durable (conn db)" for db
    using assms by (auto simp: rollback_def pg_laws_def run_sql_def Let_def split: prod.splits pg_answer.splits) (metis snd_conv)+
  then show ?thesis by (simp add: lift_db_def mdurable_def split: prod.splits) (metis snd_conv)
qed

text \<open>The body of \<^verbatim>\<open>migrate\<close> up to its \<^verbatim>\<open>COMMIT\<close>.\<close>

definition migrate_prepare :: "'p pq \<Rightarrow> migration \<Rightarrow> 'p manager \<Rightarrow> unit result \<times> 'p manager" where
  "migrate_prepare P mig =
     then_do (lift_db (transaction P []))
       (then_do (lift_db (transaction P (''migration_'' @ mig_name mig)))
         (then_do (executeQueries P (up mig)) (markMigrationAsExecuted P (mig_name mig))))"

lemma then_do_assoc: "then_do (then_do f g) h = then_do f (then_do g h)"
  by (rule ext) (simp add: then_do_def split: prod.splits sum.splits)

lemma migrate_body_split: "migrate_body P mig = then_do (migrate_prepare P mig) (lift_db (commit P))"
  by (simp add: migrate_body_def migrate_prepare_def then_do_assoc)

lemma mark_kept:
  assumes "pg_laws P durable open_tx control" "\<not> control (''INSERT INTO migrations (name) VALUES ('' @ sql_text n @ '');'')"
    and "open_tx (conn (mdb m))" "markMigrationAsExecuted P n m = (r, m')"
  shows "mdurable durable m' = mdurable durable m"
  using assms(4) unfolding markMigrationAsExecuted_def
proof (cases rule: then_do_cases)
  case (1 e)
  then show ?thesis using execute_kept [OF assms(1-3) 1(1)] by simp
next
  case (2 m1)
  then show ?thesis using execute_kept [OF assms(1-3) 2(1)] by (auto simp: mdurable_def)
qed

lemma migrate_prepare_kept:
  assumes laws: "pg_laws P durable open_tx control"
    and ctl: "\<forall>q \<in> set (up mig). \<not> control q" "\<not> control (''INSERT INTO migrations (name) VALUES ('' @ sql_text (mig_name mig) @ '');'')"
    and run: "migrate_prepare P mig m = (r, m')"
  shows "mdurable durable m' = mdurable durable m"
  using run unfolding migrate_prepare_def
proof (cases rule: then_do_cases)
  case (1 e')
  then show ?thesis using transaction_kept [OF laws 1(1)] by simp
next
  case b: (2 m1)
  note k1 = transaction_kept [OF laws b(1)]
  from b(2) show ?thesis
  proof (cases rule: then_do_cases)
    case (1 e')
    then show ?thesis using transaction_kept [OF laws 1(1)] k1 by simp
  next
    case s: (2 m2)
    note k2 = transaction_kept [OF laws s(1)]
    from s(2) show ?thesis
    proof (cases rule: then_do_cases)
      case (1 e')
      then show ?thesis using executeQueries_kept [OF laws ctl(1) _ 1(1)] k1 k2 by simp
    next
      case q: (2 m3)
      then show ?thesis
        using executeQueries_kept [OF laws ctl(1) _ q(1)] mark_kept [OF laws ctl(2) _ q(2)] k1 k2 by simp
    qed
  qed
qed

lemma commit_conn: "conn (snd (commit P db)) = snd (pq_exec P ''COMMIT'' (conn db))"
  by (auto simp: commit_def run_sql_def Let_def split: prod.splits pg_answer.splits)

subsection \<open>Properties\<close>

text \<open>C5: A migration that fails at whatever statement before its \<^verbatim>\<open>COMMIT\<close> leaves the durable contents of the database as
  they were; when all of them succeed and only the \<^verbatim>\<open>COMMIT\<close> is not acknowledged, they are what the server made of that
  \<^verbatim>\<open>COMMIT\<close>, to which the rollbacks that follow add nothing. This is for a session that keeps the transaction laws and for
  migrations that do not control transactions themselves.\<close>

theorem failed_migration_changes_nothing:
  assumes "pg_laws P durable open_tx control"
    and "\<forall>q \<in> set (up mig). \<not> control q"
    and "\<not> control (''INSERT INTO migrations (name) VALUES ('' @ sql_text (mig_name mig) @ '');'')"
    and "migrate P mig m = (Inl e, m')"
  shows "durable (conn (mdb m')) =
    (if fst (migrate_prepare P mig m) = Inr ()
     then durable (snd (pq_exec P ''COMMIT'' (conn (mdb (snd (migrate_prepare P mig m))))))
     else durable (conn (mdb m)))"
proof -
  obtain m1 where b: "migrate_body P mig m = (Inl e, m1)"
    and "m' = m1 \<or> m' = snd (lift_db (rollback P []) (snd (lift_db (rollback P (''migration_'' @ mig_name mig)) m1)))"
    using assms(4) by (auto simp: migrate_def split: if_splits prod.splits sum.splits)
  then have m': "mdurable durable m' = mdurable durable m1" using rollback_kept [OF assms(1)] by auto
  from b [unfolded migrate_body_split] show ?thesis
  proof (cases rule: then_do_cases)
    case (1 e')
    then show ?thesis using m' migrate_prepare_kept [OF assms(1-3) 1(1)] by (simp add: mdurable_def)
  next
    case (2 m2)
    then have "conn (mdb m1) = snd (pq_exec P ''COMMIT'' (conn (mdb m2)))"
      using commit_conn [of P "mdb m2"] by (auto simp: lift_db_conn)
    then show ?thesis using 2 m' by (simp add: mdurable_def)
  qed
qed

text \<open>When only the \<^verbatim>\<open>COMMIT\<close> of a migration fails, the migration is reported as failed but stays recorded as
  executed in memory: migrating again on the same manager does nothing and reports success.\<close>

theorem commit_failure_marks_migration:
  assumes "\<And>q p. q \<noteq> ''COMMIT'' \<Longrightarrow> fst (pq_exec P q p) = CommandOk"
    and "\<And>p. fst (pq_exec P ''COMMIT'' p) = PgFailed err"
    and "\<And>q. q \<in> set (up mig) \<Longrightarrow> q \<noteq> ''COMMIT''"
    and "\<not> isMigrationExecuted (mig_name mig) m"
  shows "\<exists>e m'. migrate P mig m = (Inl e, m') \<and> migrate P mig m' = (Inr (), m')"
proof -
  have ok: "\<exists>db'. execute P q db = (Inr (), db')" if "q \<noteq> ''COMMIT''" for q db
    using assms(1) [OF that, of "conn db"] by (auto simp: execute_def run_sql_def Let_def split: prod.splits)
  have qs: "\<exists>m'. executeQueries P qs m = (Inr (), m')" if "\<forall>q \<in> set qs. q \<noteq> ''COMMIT''" for qs m
    using that
  proof (induction qs arbitrary: m)
    case (Cons q qs)
    obtain db' where "execute P q (mdb m) = (Inr (), db')" using ok [of q "mdb m"] Cons.prems by auto
    with Cons show ?case by (simp add: lift_db_def)
  qed simp
  have tx: "\<exists>db'. transaction P [] db = (Inr (), db') \<and> in_transaction db'" for db
    using assms(1) [of "''BEGIN''" "conn db"] by (auto simp: transaction_def run_sql_def Let_def split: prod.splits)
  have sp: "\<exists>db'. transaction P (''migration_'' @ n) db = (Inr (), db')" if "in_transaction db" for db n
    using assms(1) [of "''SAVEPOINT '' @ quoted (''migration_'' @ n)" "conn db"] that
    by (auto simp: transaction_def run_sql_def Let_def split: prod.splits)
  obtain db1 where t: "transaction P [] (mdb m) = (Inr (), db1)" "in_transaction db1" using tx by blast
  obtain db2 where u: "transaction P (''migration_'' @ mig_name mig) db1 = (Inr (), db2)" using sp [OF t(2)] by blast
  obtain m3 where v: "executeQueries P (up mig) (m\<lparr>mdb := db2\<rparr>) = (Inr (), m3)" using qs assms(3) by blast
  have ins: "''INSERT INTO migrations (name) VALUES ('' @ sql_text (mig_name mig) @ '');'' \<noteq> ''COMMIT''" by simp
  obtain db4 where x: "execute P (''INSERT INTO migrations (name) VALUES ('' @ sql_text (mig_name mig) @ '');'') (mdb m3) = (Inr (), db4)"
    using ok [OF ins] by blast
  let ?m4 = "m3\<lparr>mdb := db4, executed := List.insert (mig_name mig) (executed m3)\<rparr>"
  obtain c where c: "pq_exec P ''COMMIT'' (conn db4) = (PgFailed err, c)" using assms(2) by (metis prod.collapse)
  define e where "e = runtime_error (''Failed to commit: '' @ err)"
  define m5 where "m5 = ?m4\<lparr>mdb := db4\<lparr>conn := c\<rparr>\<rparr>"
  have y: "lift_db (commit P) ?m4 = (Inl e, m5)"
    using c by (simp add: lift_db_def commit_def run_sql_def e_def m5_def)
  have z: "mig_name mig \<in> set (executed m5)" by (simp add: m5_def)
  have body: "migrate_body P mig m = (Inl e, m5)"
    using t u v x y by (simp add: migrate_body_def then_do_def lift_db_def markMigrationAsExecuted_def)
  have ex: "executed (snd (lift_db f m')) = executed m'" for f :: "'a database \<Rightarrow> ('a, unit) db_result" and m'
    by (simp add: lift_db_def split: prod.splits)
  show ?thesis using body assms(4) z by (auto simp: migrate_def isMigrationExecuted_def ex)
qed

text \<open>Parameters are filled in from the left, one per question mark of the template, as long as no escaped
  parameter contains a question mark.\<close>

theorem parameters_filled_in:
  assumes "count_marks sql = length ps" "\<forall>p \<in> set ps. CHR ''?'' \<notin> set (EscapeString (pq_literal P) p)"
  shows "substitute P ps sql = fill (EscapeString (pq_literal P)) sql ps"
  using substitute_fill [OF assms(2), of "[]" sql] assms(1) by simp

text \<open>A parameter that is a question mark takes the next parameter into its own quotes: the text of the second
  parameter then stands outside any quotes of the statement.\<close>

theorem parameter_injection:
  assumes "pq_literal P ''?'' = Some (sql_text ''?'')" "pq_literal P x = Some (sql_text x)"
  shows "substitute P [''?'', x] ''a = ? AND b = ?'' = ''a = '' @ sql_text [] @ x @ sql_text [] @ '' AND b = ?''"
  using assms by (simp add: EscapeString_def sql_text_def)

subsection \<open>Witnesses\<close>

text \<open>A session that stores its statements: durable ones, and those of the open transaction.\<close>

definition sample_pq :: "(string list \<times> string list option) pq" where
  "sample_pq = \<lparr>pq_exec = (\<lambda>q (d, t).
       if q = ''BEGIN'' then (CommandOk, (d, Some []))
       else if q = ''COMMIT'' then (PgFailed ''lost'', (d, None))
       else if q = ''ROLLBACK'' then (CommandOk, (d, None))
       else (CommandOk, case t of None \<Rightarrow> (if take 9 q = ''SAVEPOINT'' \<or> take 11 q = ''ROLLBACK TO'' then d else d @ [q], None)
                                | Some u \<Rightarrow> (d, Some (u @ [q])))),
     pq_literal = (\<lambda>s. Some (sql_text s)), pq_connect = (\<lambda>s. (None, ([], None)))\<rparr>"

definition sample_control :: "string \<Rightarrow> bool" where
  "sample_control q \<longleftrightarrow> q = ''BEGIN'' \<or> q = ''COMMIT'' \<or> q = ''ROLLBACK''"

definition sample_manager :: "(string list \<times> string list option) manager" where
  "sample_manager = \<lparr>mdb = \<lparr>conn = ([''old''], None), in_transaction = False\<rparr>, executed = []\<rparr>"

lemma sample_pq_laws: "pg_laws sample_pq fst (\<lambda>p. snd p \<noteq> None) sample_control"
  unfolding pg_laws_def
  by (intro conjI) (auto simp: sample_pq_def sample_control_def split: option.splits prod.splits if_splits)

theorem commit_failure_marks_migration_witness:
  "\<exists>e m'. migrate sample_pq migrations_table sample_manager = (Inl e, m') \<and> migrate sample_pq migrations_table m' = (Inr (), m')"
proof (rule commit_failure_marks_migration)
  have ups: "\<forall>q \<in> set (up migrations_table). q \<noteq> ''COMMIT''" by code_simp
  show "fst (pq_exec sample_pq q p) = CommandOk" if "q \<noteq> ''COMMIT''" for q p
    using that by (cases p) (simp add: sample_pq_def)
  show "fst (pq_exec sample_pq ''COMMIT'' p) = PgFailed ''lost''" for p
    by (cases p) (simp add: sample_pq_def)
  show "q \<noteq> ''COMMIT''" if "q \<in> set (up migrations_table)" for q
    using that ups by blast
  show "\<not> isMigrationExecuted (mig_name migrations_table) sample_manager"
    by (simp add: isMigrationExecuted_def sample_manager_def)
qed

text \<open>The same session, where one statement fails.\<close>

definition failing_pq :: "(string list \<times> string list option) pq" where
  "failing_pq = sample_pq\<lparr>pq_exec := (\<lambda>q p. if q = ''BAD'' then (PgFailed ''bad'', p) else pq_exec sample_pq q p)\<rparr>"

definition bad_migration :: migration where
  "bad_migration = \<lparr>mig_name = ''m'', up = [''GOOD'', ''BAD''], down = []\<rparr>"

lemma failing_pq_laws: "pg_laws failing_pq fst (\<lambda>p. snd p \<noteq> None) sample_control"
  using sample_pq_laws unfolding pg_laws_def failing_pq_def by (auto simp: quoted_def)

theorem failed_migration_changes_nothing_witness:
  "fst (conn (mdb (snd (migrate failing_pq bad_migration sample_manager)))) = [''old'']"
proof -
  let ?r = "migrate failing_pq bad_migration sample_manager"
  have "isl (fst ?r)" by code_simp
  then obtain e where e: "?r = (Inl e, snd ?r)" by (metis isl_def prod.collapse)
  have c: "\<forall>q \<in> set (up bad_migration). \<not> sample_control q"
    "\<not> sample_control (''INSERT INTO migrations (name) VALUES ('' @ sql_text (mig_name bad_migration) @ '');'')"
    by code_simp+
  have "isl (fst (migrate_prepare failing_pq bad_migration sample_manager))" by code_simp
  then show ?thesis using failed_migration_changes_nothing [OF failing_pq_laws c e] by (auto simp: sample_manager_def)
qed

theorem parameters_filled_in_witness:
  "substitute sample_pq [''x'', ''y''] ''a = ? AND b = ?'' = ''a = '' @ sql_text ''x'' @ '' AND b = '' @ sql_text ''y''"
proof -
  have "count_marks ''a = ? AND b = ?'' = length [''x'', ''y'']"
    "\<forall>p \<in> set [''x'', ''y'']. CHR ''?'' \<notin> set (EscapeString (pq_literal sample_pq) p)" by code_simp+
  from parameters_filled_in [OF this] show ?thesis by (simp add: EscapeString_def sample_pq_def)
qed

theorem parameter_injection_witness:
  "substitute sample_pq [''?'', ''1 OR 1''] ''a = ? AND b = ?'' =
     ''a = '' @ sql_text [] @ ''1 OR 1'' @ sql_text [] @ '' AND b = ?''"
  by (rule parameter_injection) (simp_all add: sample_pq_def)

end
