(* ===== verification/Helpers.thy ===== *)
theory Helpers
  imports Http Regex
begin

text \<open>
  The small helpers of an application: \<^verbatim>\<open>src/ENV.cpp\<close> (the \<^verbatim>\<open>.env\<close> file), \<^verbatim>\<open>src/Cookie.cpp\<close>,
  \<^verbatim>\<open>src/Validator.cpp\<close>, \<^verbatim>\<open>src/Code.cpp\<close>, the middlewares and the base controller. The file's text, the
  values of \<^verbatim>\<open>rand()\<close> and Beast's message operations are parameters.
\<close>

subsection \<open>Environment\<close>

record env =
  env_initialized :: bool
  env_variables :: "(string, string) umap"

definition env0 :: env where
  "env0 = \<lparr>env_initialized = False, env_variables = []\<rparr>"

definition trim_spaces :: "string \<Rightarrow> string" where
  "trim_spaces s = trim_right '' '' (trim_left '' '' s)"

definition env_line :: "string \<Rightarrow> (string, string) umap \<Rightarrow> (string, string) umap" where
  "env_line line0 vars =
     (let line = trim_spaces line0
      in if line = [] \<or> hd line = CHR ''#'' then vars
         else case find_char CHR ''='' line of
                None \<Rightarrow> vars
              | Some i \<Rightarrow> umap_put (trim_spaces (take i line)) (trim_spaces (drop (Suc i) line)) vars)"

definition env_initialize :: "string option \<Rightarrow> env \<Rightarrow> env result" where
  "env_initialize text e =
     (if env_initialized e then Inr e
      else case text of
             None \<Rightarrow> Inl (runtime_error ''Could not open .env file at path: ./.env'')
           | Some s \<Rightarrow> Inr \<lparr>env_initialized = True,
               env_variables = fold env_line (getline_split CHR 0x0A s) (env_variables e)\<rparr>)"

definition env_get :: "string option \<Rightarrow> string \<Rightarrow> env \<Rightarrow> (string \<times> env) result" where
  "env_get text k e = bind_result (env_initialize text e) (\<lambda>e.
     case map_of (env_variables e) k of
       Some v \<Rightarrow> Inr (v, e) | None \<Rightarrow> Inl (runtime_error (''Environment variable not found: '' @ k)))"

subsection \<open>Cookies\<close>

definition blank :: "char list" where "blank = [CHR '' '', CHR 0x09]"

definition cookie_pair :: "string \<Rightarrow> (string, string) std_map \<Rightarrow> (string, string) std_map" where
  "cookie_pair pair cookies =
     (case find_char CHR ''='' pair of
        None \<Rightarrow> cookies
      | Some pos \<Rightarrow> smap_put (trim_left blank (take pos pair)) (trim_left blank (drop (Suc pos) pair)) cookies)"

definition parseCookies :: "string \<Rightarrow> (string, string) std_map" where
  "parseCookies cookieHeader = fold cookie_pair (getline_split CHR '';'' cookieHeader) []"

definition cookie_set :: "beast \<Rightarrow> response \<Rightarrow> (string, string) std_map \<Rightarrow> response" where
  "cookie_set B res cookies =
     fold (\<lambda>(name, value) r. r\<lparr>res_fields := insert_field B ''Set-Cookie''
        (name @ ''='' @ value @ ''; Path=/; HttpOnly; Secure; SameSite=None'') (res_fields r)\<rparr>) cookies res"

subsection \<open>Validation\<close>

definition is_digit :: "char \<Rightarrow> bool" where "is_digit c \<longleftrightarrow> CHR ''0'' \<le> c \<and> c \<le> CHR ''9''"
definition is_upper :: "char \<Rightarrow> bool" where "is_upper c \<longleftrightarrow> CHR ''A'' \<le> c \<and> c \<le> CHR ''Z''"

text \<open>The flags \<^verbatim>\<open>hasDigit\<close>, \<^verbatim>\<open>hasUpper\<close>, \<^verbatim>\<open>hasSpecial\<close> after the loop. A byte above 127 is a negative \<^verbatim>\<open>char\<close>,
  for which the character tests are undefined: \<open>None\<close>.\<close>

fun password_flags :: "string \<Rightarrow> bool \<times> bool \<times> bool \<Rightarrow> (bool \<times> bool \<times> bool) option" where
  "password_flags [] f = Some f"
| "password_flags (ch # s) (hasDigit, hasUpper, hasSpecial) =
     (if (of_char ch :: nat) > 127 then None
      else if is_digit ch then password_flags s (True, hasUpper, hasSpecial)
      else if is_upper ch then password_flags s (hasDigit, True, hasSpecial)
      else if \<not> alnum ch then password_flags s (hasDigit, hasUpper, True)
      else password_flags s (hasDigit, hasUpper, hasSpecial))"

definition passwordError :: "string \<Rightarrow> string option" where
  "passwordError p =
     (if length p < 8 then Some ''Password is too short (minimum 8 characters).''
      else if length p > 20 then Some ''Password is too long (maximum 20 characters).''
      else map_option (\<lambda>(hasDigit, hasUpper, hasSpecial).
        if \<not> hasDigit then ''Password must contain at least one digit.''
        else if \<not> hasUpper then ''Password must contain at least one uppercase letter.''
        else if \<not> hasSpecial then ''Password must contain at least one special character.''
        else []) (password_flags p (False, False, False)))"

definition password :: "string \<Rightarrow> bool option" where
  "password p = map_option (\<lambda>e. e = []) (passwordError p)"

definition email_pattern :: string where
  "email_pattern = ''^[A-Za-z0-9._%+-]+@[A-Za-z0-9.-]+'' @ [CHR 0x5C] @ ''.[A-Za-z]{2,}$''"

definition email :: "string \<Rightarrow> bool result" where
  "email s = (case regex_compile email_pattern of
     None \<Rightarrow> Inl (runtime_error ''regex_error'') | Some re \<Rightarrow> Inr (regex_match re s \<noteq> None))"

subsection \<open>Codes\<close>

definition code_characters :: string where
  "code_characters = ''ABCDEFGHIJKLMNOPQRSTUVWXYZabcdefghijklmnopqrstuvwxyz0123456789''"

definition numeric_characters :: string where
  "numeric_characters = ''0123456789''"

fun draw :: "('w \<Rightarrow> nat \<times> 'w) \<Rightarrow> string \<Rightarrow> nat \<Rightarrow> 'w \<Rightarrow> string \<times> 'w" where
  "draw rand chars 0 w = ([], w)"
| "draw rand chars (Suc n) w =
     (case rand w of (r, w') \<Rightarrow> (case draw rand chars n w' of (s, w2) \<Rightarrow> (chars ! (r mod length chars) # s, w2)))"

definition generateRandomCode :: "('w \<Rightarrow> nat \<times> 'w) \<Rightarrow> nat \<Rightarrow> 'w \<Rightarrow> string \<times> 'w" where
  "generateRandomCode rand n w = draw rand code_characters n w"

definition generateNumericCode :: "('w \<Rightarrow> nat \<times> 'w) \<Rightarrow> nat \<Rightarrow> 'w \<Rightarrow> string \<times> 'w" where
  "generateNumericCode rand n w = draw rand numeric_characters n w"

text \<open>\<^verbatim>\<open>base64_encode\<close>: Beast's encoder writes into a buffer of the size it asks for and returns how much it wrote.\<close>

definition base64_encode :: "(nat \<Rightarrow> nat) \<Rightarrow> (string \<Rightarrow> string) \<Rightarrow> string \<Rightarrow> string" where
  "base64_encode encoded_size encode bytes =
     (let result = replicate (encoded_size (length bytes)) (CHR 0x00);
          out = encode bytes;
          result = out @ drop (length out) result
      in take (length out) result)"

fun generateMultipleCodes :: "('w \<Rightarrow> nat \<times> 'w) \<Rightarrow> nat \<Rightarrow> nat \<Rightarrow> bool \<Rightarrow> 'w \<Rightarrow> string list \<times> 'w" where
  "generateMultipleCodes rand 0 n numeric w = ([], w)"
| "generateMultipleCodes rand (Suc k) n numeric w =
     (case (if numeric then generateNumericCode rand n w else generateRandomCode rand n w) of
        (c, w') \<Rightarrow> (case generateMultipleCodes rand k n numeric w' of (cs, w2) \<Rightarrow> (c # cs, w2)))"

subsection \<open>Middlewares and the base controller\<close>

text \<open>A middleware changes request and response and returns whether to go on; \<open>None\<close> is the undefined
  result of a function that ends without a return statement.\<close>

type_synonym middleware = "request \<Rightarrow> response \<Rightarrow> (bool option) \<times> request \<times> response"

definition use_middleware :: "middleware \<Rightarrow> middleware list \<Rightarrow> middleware list" where
  "use_middleware mw chain = chain @ [mw]"

fun run_chain :: "middleware list \<Rightarrow> request \<Rightarrow> response \<Rightarrow> (bool option) \<times> request \<times> response" where
  "run_chain [] req res = (Some True, req, res)"
| "run_chain (mw # chain) req res =
     (case mw req res of
        (None, req', res') \<Rightarrow> (None, req', res')
      | (Some ok, req', res') \<Rightarrow> if \<not> ok then (Some False, req', res') else run_chain chain req' res')"

definition middleware_setCors :: "beast \<Rightarrow> response \<Rightarrow> response" where
  "middleware_setCors B res =
     (set_res B ''Access-Control-Allow-Credentials'' ''true''
       (set_res B ''Access-Control-Allow-Headers'' ''Content-Type, Authorization''
         (set_res B ''Access-Control-Allow-Methods'' ''POST, GET, OPTIONS, PATCH, PUT, DELETE''
           (set_res B ''Access-Control-Allow-Origin'' ''http://localhost:3000'' res))))\<lparr>status := 200\<rparr>"

definition CorsMiddleware :: "beast \<Rightarrow> string list \<Rightarrow> middleware" where
  "CorsMiddleware B allowed_domains req res =
     (let origin = field_value B (req_fields req) ''Origin'';
          allowed = (allowed_domains = [] \<or> origin \<in> set allowed_domains)
      in if \<not> allowed then
           (Some False, req, prepare_payload B (set_res B ''Access-Control-Allow-Origin'' ''null''
              (res\<lparr>status := 403, res_body := ''CORS: Origin not allowed''\<rparr>)))
         else let res = middleware_setCors B res
              in if req_method req = OPTIONS then
                   (Some True, req, prepare_payload B (res\<lparr>status := 200, res_body := ''CORS preflight''\<rparr>))
                 else (None, req, res))"

definition controller_default :: "response \<Rightarrow> response" where
  "controller_default res = res\<lparr>status := 405\<rparr>"

definition controller_setCors :: "beast \<Rightarrow> response \<Rightarrow> response" where
  "controller_setCors B res =
     set_res B ''Access-Control-Expose-Headers'' ''Set-Cookie''
       (set_res B ''Access-Control-Allow-Headers'' ''*''
         (set_res B ''Access-Control-Allow-Methods'' ''GET, POST, PUT, DELETE, OPTIONS''
           (set_res B ''Access-Control-Allow-Credentials'' ''true''
             (set_res B ''Access-Control-Allow-Origin'' ''*'' res))))"

subsection \<open>The environment file reads back\<close>

definition clean_key :: "string \<Rightarrow> bool" where
  "clean_key k \<longleftrightarrow> k \<noteq> [] \<and> hd k \<noteq> CHR '' '' \<and> hd k \<noteq> CHR ''#'' \<and> last k \<noteq> CHR '' '' \<and> CHR ''='' \<notin> set k \<and> CHR 0x0A \<notin> set k"

definition clean_value :: "string \<Rightarrow> bool" where
  "clean_value v \<longleftrightarrow> (v = [] \<or> hd v \<noteq> CHR '' '' \<and> last v \<noteq> CHR '' '') \<and> CHR 0x0A \<notin> set v"

definition assignment :: "string \<times> string \<Rightarrow> string" where
  "assignment kv = fst kv @ ''='' @ snd kv"

definition env_text :: "(string \<times> string) list \<Rightarrow> string" where
  "env_text kvs = concat (map (\<lambda>kv. assignment kv @ [CHR 0x0A]) kvs)"

lemma trim_spaces_id: "s = [] \<or> hd s \<noteq> CHR '' '' \<and> last s \<noteq> CHR '' '' \<Longrightarrow> trim_spaces s = s"
  using trim_left_id[of "'' ''" s] trim_right_id[of "'' ''" s] by (auto simp: trim_spaces_def)

lemma env_line_assignment:
  assumes "clean_key k" "clean_value v"
  shows "env_line (assignment (k, v)) vars = umap_put k v vars"
proof -
  have "hd (assignment (k, v)) = hd k" "assignment (k, v) \<noteq> []" using assms(1) by (auto simp: assignment_def clean_key_def)
  moreover have "last (assignment (k, v)) = (if v = [] then CHR ''='' else last v)" by (simp add: assignment_def)
  ultimately have t: "trim_spaces (assignment (k, v)) = assignment (k, v)" and h: "hd (assignment (k, v)) \<noteq> CHR ''#''"
    using assms by (auto intro!: trim_spaces_id simp: clean_key_def clean_value_def split: if_splits)
  have f: "find_char CHR ''='' (assignment (k, v)) = Some (length k)"
    using assms(1) by (simp add: assignment_def clean_key_def str_simps)
  have "trim_spaces k = k" "trim_spaces v = v" using assms by (auto intro!: trim_spaces_id simp: clean_key_def clean_value_def)
  then show ?thesis using h \<open>assignment (k, v) \<noteq> []\<close> by (simp add: env_line_def t f) (simp add: assignment_def)
qed

lemma env_lines: "\<forall>kv \<in> set kvs. clean_key (fst kv) \<and> clean_value (snd kv) \<Longrightarrow>
    getline_split CHR 0x0A (env_text kvs) = map assignment kvs"
proof (induction kvs)
  case (Cons kv kvs)
  then have "CHR 0x0A \<notin> set (assignment kv)" by (auto simp: assignment_def clean_key_def clean_value_def)
  with Cons show ?case by (simp add: env_text_def getline_split_token)
qed (simp add: env_text_def)

lemma env_fold: "\<forall>kv \<in> set kvs. clean_key (fst kv) \<and> clean_value (snd kv) \<Longrightarrow>
    fold env_line (map assignment kvs) vars = fold (\<lambda>(k, v) m. umap_put k v m) kvs vars"
  by (induction kvs arbitrary: vars) (auto simp: env_line_assignment)

text \<open>Reading an environment file that consists of assignments whose keys and values carry no line
  breaks and no outer spaces gives every key its last value, and an error for any other key; later
  calls answer from the table, whatever has become of the file.\<close>

theorem env_roundtrip:
  assumes "\<forall>kv \<in> set kvs. clean_key (fst kv) \<and> clean_value (snd kv)"
  shows "\<exists>e. env_initialize (Some (env_text kvs)) env0 = Inr e \<and>
    (\<forall>file k. env_get file k e = (case map_of (rev kvs) k of
       Some v \<Rightarrow> Inr (v, e) | None \<Rightarrow> Inl (runtime_error (''Environment variable not found: '' @ k))))"
proof -
  let ?vars = "fold (\<lambda>(k, v) m. umap_put k v m) kvs []"
  have "env_initialize (Some (env_text kvs)) env0 = Inr \<lparr>env_initialized = True, env_variables = ?vars\<rparr>"
    by (simp add: env_initialize_def env0_def env_lines[OF assms] env_fold[OF assms])
  moreover have "map_of ?vars k = map_of (rev kvs) k" for k by (rule umap.get_fold_put_empty)
  ultimately show ?thesis by (auto simp: env_get_def env_initialize_def split: option.splits)
qed

theorem env_roundtrip_witness:
  "\<exists>e. env_initialize (Some (env_text [(''PORT'', ''80''), (''HOST'', ''a b''), (''PORT'', ''81'')])) env0 = Inr e \<and>
    env_get None ''PORT'' e = Inr (''81'', e)"
proof -
  have "\<forall>kv \<in> set [(''PORT'', ''80''), (''HOST'', ''a b''), (''PORT'', ''81'')]. clean_key (fst kv) \<and> clean_value (snd kv)"
    by (simp add: clean_key_def clean_value_def)
  from env_roundtrip[OF this] show ?thesis by fastforce
qed

subsection \<open>Cookies read back\<close>

definition cookie_header :: "(string \<times> string) list \<Rightarrow> string" where
  "cookie_header kvs = join ''; '' (map assignment kvs)"

definition clean_cookie :: "string \<times> string \<Rightarrow> bool" where
  "clean_cookie kv \<longleftrightarrow> trim_left blank (fst kv) = fst kv \<and> trim_left blank (snd kv) = snd kv \<and>
     CHR ''='' \<notin> set (fst kv) \<and> CHR '';'' \<notin> set (fst kv) \<and> CHR '';'' \<notin> set (snd kv)"

lemma split_cookies:
  "\<forall>t \<in> set ts. CHR '';'' \<notin> set t \<and> t \<noteq> [] \<Longrightarrow>
   getline_split CHR '';'' (join ''; '' ts) = (case ts of [] \<Rightarrow> [] | t # ts \<Rightarrow> t # map ((#) CHR '' '') ts)"
proof (induction ts rule: induct_list012)
  case (3 x y zs)
  have "getline_split CHR '';'' (CHR '' '' # join ''; '' (y # zs)) = map ((#) CHR '' '') (y # zs)"
  proof (cases zs)
    case Nil
    with 3 show ?thesis by (simp add: getline_split_last)
  next
    case (Cons z ws)
    have "getline_split CHR '';'' (CHR '' '' # join ''; '' (y # zs)) = (CHR '' '' # y) # getline_split CHR '';'' (CHR '' '' # join ''; '' zs)"
      using Cons 3(3) getline_split_token[of "CHR '';''" "CHR '' '' # y" "CHR '' '' # join ''; '' zs"] by (simp add: join_Cons)
    moreover have "getline_split CHR '';'' (join ''; '' (y # zs)) = y # getline_split CHR '';'' (CHR '' '' # join ''; '' zs)"
      using Cons 3(3) getline_split_token[of "CHR '';''" y "CHR '' '' # join ''; '' zs"] by (simp add: join_Cons)
    ultimately show ?thesis using 3 by simp
  qed
  with 3(3) show ?case using getline_split_token[of "CHR '';''" x "CHR '' '' # join ''; '' (y # zs)"] by simp
qed (simp_all add: getline_split_last)

lemma cookie_pair_assignment:
  assumes "clean_cookie kv"
  shows "cookie_pair (assignment kv) m = smap_put (fst kv) (snd kv) m" "cookie_pair (CHR '' '' # assignment kv) m = smap_put (fst kv) (snd kv) m"
proof -
  have f: "find_char CHR ''='' (assignment kv) = Some (length (fst kv))"
    using assms by (simp add: assignment_def clean_cookie_def str_simps)
  have "trim_left blank (CHR '' '' # fst kv) = fst kv" using assms by (simp add: clean_cookie_def trim_left_def blank_def)
  with f assms show "cookie_pair (assignment kv) m = smap_put (fst kv) (snd kv) m"
    "cookie_pair (CHR '' '' # assignment kv) m = smap_put (fst kv) (snd kv) m"
    by (simp_all add: cookie_pair_def clean_cookie_def) (simp_all add: assignment_def)
qed

text \<open>A cookie header composed of name=value pairs separated by "; " parses to exactly these cookies, the
  last value of a name winning, for names and values free of semicolons and leading blanks and names
  free of equals signs.\<close>

theorem cookie_roundtrip:
  assumes "\<forall>kv \<in> set kvs. clean_cookie kv"
  shows "map_of (parseCookies (cookie_header kvs)) k = map_of (rev kvs) k \<and> smap_wf (parseCookies (cookie_header kvs))"
proof -
  have "\<forall>t \<in> set (map assignment kvs). CHR '';'' \<notin> set t \<and> t \<noteq> []"
    using assms by (auto simp: clean_cookie_def assignment_def)
  then have s: "getline_split CHR '';'' (cookie_header kvs) = (case map assignment kvs of [] \<Rightarrow> [] | t # ts \<Rightarrow> t # map ((#) CHR '' '') ts)"
    unfolding cookie_header_def by (rule split_cookies)
  have f: "fold cookie_pair (map ((#) CHR '' '' \<circ> assignment) xs) m = fold (\<lambda>(k, v) m. smap_put k v m) xs m"
    if "\<forall>kv \<in> set xs. clean_cookie kv" for xs m
    using that by (induction xs arbitrary: m) (auto simp: cookie_pair_assignment split_beta)
  have "parseCookies (cookie_header kvs) = fold (\<lambda>(k, v) m. smap_put k v m) kvs []"
    unfolding parseCookies_def s using assms f by (cases kvs) (auto simp: cookie_pair_assignment split_beta)
  moreover have "smap_wf ([] :: (string \<times> string) list)" by (simp add: smap_wf_def)
  ultimately show ?thesis using smap.get_fold_put_empty[of kvs k] smap.wf_fold_put by metis
qed

theorem cookie_roundtrip_witness: "map_of (parseCookies ''sid=x1; theme=dark'') ''theme'' = Some ''dark''"
proof -
  have "\<forall>kv \<in> set [(''sid'', ''x1''), (''theme'', ''dark'')]. clean_cookie kv" by (simp add: clean_cookie_def trim_left_def blank_def)
  from cookie_roundtrip[OF this, of "''theme''"] show ?thesis by (simp add: cookie_header_def assignment_def)
qed

subsection \<open>Validation\<close>

lemma digit_upper_alnum: "is_digit c \<Longrightarrow> alnum c" "is_upper c \<Longrightarrow> alnum c" "is_digit c \<Longrightarrow> \<not> is_upper c"
proof -
  have "CHR ''9'' < CHR ''A''" by code_simp
  then show "is_digit c \<Longrightarrow> \<not> is_upper c" unfolding is_digit_def is_upper_def by (metis leD order_trans)
qed (auto simp: is_digit_def is_upper_def alnum_def)

lemma password_flags_spec:
  "password_flags p (a, b, c) =
     (if \<forall>x \<in> set p. (of_char x :: nat) \<le> 127
      then Some (a \<or> (\<exists>x \<in> set p. is_digit x), b \<or> (\<exists>x \<in> set p. is_upper x), c \<or> (\<exists>x \<in> set p. \<not> alnum x)) else None)"
proof (induction p arbitrary: a b c)
  case (Cons x p)
  show ?case
  proof (cases "(of_char x :: nat) > 127")
    case True
    then show ?thesis by auto
  next
    case False
    then show ?thesis using digit_upper_alnum[of x] by (auto simp: Cons)
  qed
qed simp

definition mail_class :: re where
  "mail_class = Cls False [(CHR ''A'', CHR ''Z''), (CHR ''a'', CHR ''z''), (CHR ''0'', CHR ''9''), (CHR ''.'', CHR ''.''),
     (CHR ''_'', CHR ''_''), (CHR ''%'', CHR ''%''), (CHR ''+'', CHR ''+''), (CHR ''-'', CHR ''-'')]"

definition domain_class :: re where
  "domain_class = Cls False [(CHR ''A'', CHR ''Z''), (CHR ''a'', CHR ''z''), (CHR ''0'', CHR ''9''), (CHR ''.'', CHR ''.''), (CHR ''-'', CHR ''-'')]"

definition letter_class :: re where
  "letter_class = Cls False [(CHR ''A'', CHR ''Z''), (CHR ''a'', CHR ''z'')]"

definition plus_re :: "re \<Rightarrow> re" where "plus_re r = Cat r (Star r)"

definition ending_re :: re where
  "ending_re = Cat (Cat letter_class (Cat letter_class (Star letter_class))) (Cat Eol Emp)"

definition domain_re :: re where
  "domain_re = Cat (plus_re domain_class) (Cat (Chr CHR ''.'') ending_re)"

definition email_re :: re where
  "email_re = Cat Bol (Cat (plus_re mail_class) (Cat (Chr CHR ''@'') domain_re))"

lemma email_compiles: "regex_compile email_pattern = Some email_re"
  by code_simp

definition letter :: "char \<Rightarrow> bool" where
  "letter c \<longleftrightarrow> (CHR ''A'' \<le> c \<and> c \<le> CHR ''Z'') \<or> (CHR ''a'' \<le> c \<and> c \<le> CHR ''z'')"

definition mail_char :: "char \<Rightarrow> bool" where "mail_char c \<longleftrightarrow> alnum c \<or> c \<in> set ''._%+-''"
definition domain_char :: "char \<Rightarrow> bool" where "domain_char c \<longleftrightarrow> alnum c \<or> c \<in> set ''.-''"

lemma mt_plus:
  "(s', cs') \<in> set (mt n (plus_re (Cls neg rs)) s cs) \<longleftrightarrow> (\<exists>v. s = v @ s' \<and> v \<noteq> [] \<and> all_cls neg rs v) \<and> cs' = cs"
  unfolding plus_re_def mt_Cat mt_Star_Cls mt_Cls by (auto simp: neq_Nil_conv)

lemma class_chars:
  "all_cls False [(CHR ''A'', CHR ''Z''), (CHR ''a'', CHR ''z''), (CHR ''0'', CHR ''9''), (CHR ''.'', CHR ''.''),
     (CHR ''_'', CHR ''_''), (CHR ''%'', CHR ''%''), (CHR ''+'', CHR ''+''), (CHR ''-'', CHR ''-'')] v \<longleftrightarrow> list_all mail_char v"
  "all_cls False [(CHR ''A'', CHR ''Z''), (CHR ''a'', CHR ''z''), (CHR ''0'', CHR ''9''), (CHR ''.'', CHR ''.''), (CHR ''-'', CHR ''-'')] v
     \<longleftrightarrow> list_all domain_char v"
  "all_cls False [(CHR ''A'', CHR ''Z''), (CHR ''a'', CHR ''z'')] v \<longleftrightarrow> list_all letter v"
  by (induction v) (auto simp: in_class_def mail_char_def domain_char_def letter_def alnum_def)

lemma mt_top_level:
  "(s', cs') \<in> set (mt n (Cat letter_class (Cat letter_class (Star letter_class))) s cs) \<longleftrightarrow>
   (\<exists>v. s = v @ s' \<and> 2 \<le> length v \<and> list_all letter v) \<and> cs' = cs"
proof -
  have "(s', cs') \<in> set (mt n (Cat letter_class (Cat letter_class (Star letter_class))) s cs) \<longleftrightarrow>
      (\<exists>a b v. s = a # b # v @ s' \<and> list_all letter (a # b # v)) \<and> cs' = cs"
    unfolding letter_class_def mt_Cat mt_Cls mt_Star_Cls class_chars by (auto simp: in_class_def letter_def)
  also have "\<dots> \<longleftrightarrow> (\<exists>v. s = v @ s' \<and> 2 \<le> length v \<and> list_all letter v) \<and> cs' = cs"
    by (metis (no_types, lifting) append_Cons Suc_le_length_iff numeral_2_eq_2 length_Cons le_add2 add_2_eq_Suc')
  finally show ?thesis .
qed

lemma mt_ending: "([], cs') \<in> set (mt n ending_re s cs) \<longleftrightarrow> 2 \<le> length s \<and> list_all letter s \<and> cs' = cs"
  unfolding ending_re_def mt_Cat[of _ _ _ "Cat letter_class (Cat letter_class (Star letter_class))"] mt_top_level
    mt_Cat[of _ _ _ Eol] mt_Eol mt_Emp by auto

lemma mt_domain:
  "([], cs') \<in> set (mt n domain_re s cs) \<longleftrightarrow>
   (\<exists>d t. s = d @ ''.'' @ t \<and> d \<noteq> [] \<and> list_all domain_char d \<and> 2 \<le> length t \<and> list_all letter t) \<and> cs' = cs"
  unfolding domain_re_def mt_Cat mt_Chr mt_ending domain_class_def mt_plus class_chars by auto

lemma mt_email:
  "([], cs) \<in> set (mt (length s) email_re s []) \<longleftrightarrow>
   (\<exists>l d t. s = l @ ''@'' @ d @ ''.'' @ t \<and> l \<noteq> [] \<and> list_all mail_char l \<and> d \<noteq> [] \<and> list_all domain_char d \<and>
     2 \<le> length t \<and> list_all letter t) \<and> cs = []"
  unfolding email_re_def mt_Cat mt_Bol mt_Chr mt_domain mail_class_def mt_plus class_chars by auto

text \<open>A password of ASCII characters is accepted exactly when it has 8 to 20 characters with a digit, an
  upper-case letter and a character that is neither letter nor digit; an address is accepted as e-mail
  exactly when it is a non-empty local part and domain of the admitted characters around an at sign,
  the domain ending in a dot and two or more letters.\<close>

theorem validators_correct:
  "((\<forall>c \<in> set p. (of_char c :: nat) \<le> 127) \<longrightarrow>
     password p = Some (8 \<le> length p \<and> length p \<le> 20 \<and> (\<exists>c \<in> set p. is_digit c) \<and> (\<exists>c \<in> set p. is_upper c) \<and> (\<exists>c \<in> set p. \<not> alnum c))) \<and>
   email s = Inr (\<exists>l d t. s = l @ ''@'' @ d @ ''.'' @ t \<and> l \<noteq> [] \<and> list_all mail_char l \<and> d \<noteq> [] \<and> list_all domain_char d \<and>
     2 \<le> length t \<and> list_all letter t)"
proof
  show "(\<forall>c \<in> set p. (of_char c :: nat) \<le> 127) \<longrightarrow>
     password p = Some (8 \<le> length p \<and> length p \<le> 20 \<and> (\<exists>c \<in> set p. is_digit c) \<and> (\<exists>c \<in> set p. is_upper c) \<and> (\<exists>c \<in> set p. \<not> alnum c))"
    by (auto simp: password_def passwordError_def password_flags_spec)
  have "(\<exists>cs. ([], cs) \<in> set (mt (length s) email_re s [])) \<longleftrightarrow>
      (\<exists>l d t. s = l @ ''@'' @ d @ ''.'' @ t \<and> l \<noteq> [] \<and> list_all mail_char l \<and> d \<noteq> [] \<and> list_all domain_char d \<and>
       2 \<le> length t \<and> list_all letter t)"
    by (simp only: mt_email) blast
  then show "email s = Inr (\<exists>l d t. s = l @ ''@'' @ d @ ''.'' @ t \<and> l \<noteq> [] \<and> list_all mail_char l \<and> d \<noteq> [] \<and> list_all domain_char d \<and>
     2 \<le> length t \<and> list_all letter t)"
    unfolding email_def email_compiles by (simp add: regex_match_None)
qed

theorem validators_correct_witness: "password ''Secret-1'' = Some True"
proof -
  have "\<forall>c \<in> set ''Secret-1''. (of_char c :: nat) \<le> 127" by simp
  moreover have "is_digit CHR ''1''" "is_upper CHR ''S''" "\<not> alnum CHR ''-''" by code_simp+
  ultimately show ?thesis using validators_correct[of "''Secret-1''"] by simp
qed

subsection \<open>Codes and middlewares\<close>

lemma draw_alphabet:
  assumes "chars \<noteq> []"
  shows "length (fst (draw rand chars n w)) = n \<and> set (fst (draw rand chars n w)) \<subseteq> set chars"
proof (induction n arbitrary: w)
  case (Suc n)
  obtain r w' where r: "rand w = (r, w')" by force
  obtain s w2 where d: "draw rand chars n w' = (s, w2)" by force
  have "chars ! (r mod length chars) \<in> set chars" using assms by (intro nth_mem) simp
  with Suc[of w'] r d show ?case by simp
qed simp

text \<open>Codes have the length asked for and stay within their alphabet; the same state of \<^verbatim>\<open>rand()\<close>, which nothing
  in the sources seeds, gives the same codes.\<close>

lemma codes_shape:
  "length (fst (generateRandomCode rand n w)) = n" "set (fst (generateNumericCode rand n w)) \<subseteq> set numeric_characters"
  "length (fst (generateMultipleCodes rand k n numeric w)) = k"
proof -
  have "code_characters \<noteq> []" "numeric_characters \<noteq> []" by (simp_all add: code_characters_def numeric_characters_def)
  then show "length (fst (generateRandomCode rand n w)) = n" "set (fst (generateNumericCode rand n w)) \<subseteq> set numeric_characters"
    using draw_alphabet[of code_characters rand n w] draw_alphabet[of numeric_characters rand n w]
    by (simp_all add: generateRandomCode_def generateNumericCode_def)
  show "length (fst (generateMultipleCodes rand k n numeric w)) = k"
  proof (induction k arbitrary: w)
    case (Suc k)
    obtain c w' where c: "(if numeric then generateNumericCode rand n w else generateRandomCode rand n w) = (c, w')" by force
    obtain cs w2 where "generateMultipleCodes rand k n numeric w' = (cs, w2)" by force
    with c Suc[of w'] show ?case by simp
  qed simp
qed

text \<open>A pipeline of middlewares runs them in order on the request and response as the previous ones left
  them, and the first that returns false ends the run: appending to the chain changes nothing unless
  all earlier middlewares let the request pass.\<close>

theorem middleware_order:
  "run_chain (chain @ [mw]) req res =
     (case run_chain chain req res of
        (Some True, req', res') \<Rightarrow>
          (case mw req' res' of (None, q, r) \<Rightarrow> (None, q, r) | (Some ok, q, r) \<Rightarrow> (Some ok, q, r))
      | other \<Rightarrow> other) \<and>
   run_chain (use_middleware mw chain) req res = run_chain (chain @ [mw]) req res"
  by (induction chain arbitrary: req res) (auto simp: use_middleware_def split: prod.splits option.splits bool.splits)

text \<open>The CORS middleware has no return statement for a request that is allowed and not a preflight.\<close>

theorem cors_undefined:
  assumes "req_method req \<noteq> OPTIONS"
  shows "fst (CorsMiddleware B [] req res) = None"
  using assms by (simp add: CorsMiddleware_def)

end
