(* ===== verification/Application.thy ===== *)
theory Application
  imports Server Redis Database Helpers
begin

text \<open>
  The parts put together: the macros that register routes (\<^verbatim>\<open>Router/RouterRegisterer.hpp\<close>), the connections a
  server opens when it starts (\<^verbatim>\<open>initializeConnections\<close> of both servers), the start-up of the plain
  server, and the program \<^verbatim>\<open>app/Main.cpp\<close>. The parameters are those of the components.
\<close>

subsection \<open>Registering routes\<close>

text \<open>The macros \<^verbatim>\<open>R\<close> and \<^verbatim>\<open>CORS\<close>.\<close>

definition R :: "verb \<Rightarrow> string \<Rightarrow> handler \<Rightarrow> routes \<Rightarrow> routes \<times> exn option" where
  "R method path h rs = add method path (Some h) rs"

definition CORS :: "beast \<Rightarrow> string \<Rightarrow> routes \<Rightarrow> routes \<times> exn option" where
  "CORS B path rs = add OPTIONS path (Some (\<lambda>req res ps. (controller_setCors B res, None))) rs"

subsection \<open>Connections at start-up\<close>

text \<open>The static contexts of the two Redis classes and the servers behind them.\<close>

record 'w links =
  queue_context :: bool
  cache_context :: bool
  redis_world :: 'w

definition connect_queue :: "json_lib \<Rightarrow> 'w redis \<Rightarrow> config \<Rightarrow> 'w links \<Rightarrow> string list \<times> 'w links" where
  "connect_queue J Rd g k =
     (case queue_connect Rd (get_str g ''nosql.host'' ''127.0.0.1'') (sint (get_int J g ''nosql.port'' 6379))
             (queue_context k) (redis_world k) of
        (r, c, w) \<Rightarrow>
          ((case r of Inl e \<Rightarrow> [''Connection to queue failed: '' @ what e] | Inr _ \<Rightarrow> []),
           k\<lparr>queue_context := c, redis_world := w\<rparr>))"

definition connect_cache :: "json_lib \<Rightarrow> 'w redis \<Rightarrow> config \<Rightarrow> 'w links \<Rightarrow> string list \<times> 'w links" where
  "connect_cache J Rd g k =
     (case cache_connect Rd (get_str g ''redis.host'' ''127.0.0.1'') (sint (get_int J g ''redis.port'' 6379))
             (cache_context k) (redis_world k) of
        (r, c, w) \<Rightarrow>
          ((case r of Inl e \<Rightarrow> [''Connection to NOSQL database failed: '' @ what e] | Inr _ \<Rightarrow> []),
           k\<lparr>cache_context := c, redis_world := w\<rparr>))"

text \<open>\<^verbatim>\<open>MigrationManager::Initialize\<close> of the library has an empty list of migrations.\<close>

definition run_migrations :: "'p pq \<Rightarrow> config \<Rightarrow> string list" where
  "run_migrations P g =
     (case bind_result (Database P g) (\<lambda>db. bind_result (MigrationManager P db) (\<lambda>m. Inr (migrateAll P [] m))) of
        Inl e \<Rightarrow> [''Database migration failed: '' @ what e]
      | Inr _ \<Rightarrow> [])"

text \<open>The messages logged at level \<^verbatim>\<open>ERROR\<close>, and the contexts.\<close>

definition initializeConnections :: "json_lib \<Rightarrow> 'w redis \<Rightarrow> 'p pq \<Rightarrow> config \<Rightarrow> 'w links \<Rightarrow> string list \<times> 'w links" where
  "initializeConnections J Rd P g k =
     (let (l1, k1) = connect_queue J Rd g k; (l2, k2) = connect_cache J Rd g k1
      in (l1 @ l2 @ run_migrations P g, k2))"

text \<open>\<^verbatim>\<open>Server::initializeConnections\<close> is a copy; its migration manager is never deleted.\<close>

definition Server_initializeConnections :: "json_lib \<Rightarrow> 'w redis \<Rightarrow> 'p pq \<Rightarrow> config \<Rightarrow> 'w links \<Rightarrow> string list \<times> 'w links" where
  "Server_initializeConnections J Rd P g k =
     (let (queue_log, k1) = connect_queue J Rd g k; (cache_log, k2) = connect_cache J Rd g k1
      in (queue_log @ cache_log @ run_migrations P g, k2))"

lemma Server_initializeConnections_eq: "Server_initializeConnections J Rd P g k = initializeConnections J Rd P g k"
  by (simp add: Server_initializeConnections_def initializeConnections_def)

text \<open>\<^verbatim>\<open>Server::initialize\<close>: the plain server is bound by its constructor, so only the storage can fail.\<close>

definition Server_initialize ::
  "json_lib \<Rightarrow> 'w redis \<Rightarrow> 'p pq \<Rightarrow> os \<Rightarrow> nat \<Rightarrow> config \<Rightarrow> file_driver storage_manager \<Rightarrow> fsys \<Rightarrow> 'w links \<Rightarrow>
     (bool \<times> file_driver storage_manager \<times> fsys \<times> string list \<times> 'w links) option" where
  "Server_initialize J Rd P os pool g m fs k =
     (case register_storage J os pool g m fs of
        None \<Rightarrow> None
      | Some (Some e, m', fs') \<Rightarrow> Some (False, m', fs', [''Initialization failed: '' @ what e], k)
      | Some (None, m', fs') \<Rightarrow> (case Server_initializeConnections J Rd P g k of (logs, k') \<Rightarrow> Some (True, m', fs', logs, k')))"

subsection \<open>The program\<close>

definition benchmark_test :: "beast \<Rightarrow> handler" where
  "benchmark_test B req res ps =
     ((set_res B ''Content-Type'' ''text/plain'' (res\<lparr>status := 200\<rparr>))\<lparr>res_body := []\<rparr>, None)"

definition app_routes :: "beast \<Rightarrow> routes" where
  "app_routes B = fst (R GET ''/test'' (benchmark_test B) Map.empty)"

text \<open>The port is an \<^verbatim>\<open>int\<close> of the configuration, passed as \<^verbatim>\<open>unsigned short\<close>.\<close>

definition app_port :: "json_lib \<Rightarrow> config \<Rightarrow> 16 word" where
  "app_port J g = ucast (get_int J g ''https_server.port'' 8443)"

definition app_tls :: tls_config where
  "app_tls = default_tls\<lparr>cert_file := ''app/certs/server.crt'', key_file := ''app/certs/server.key''\<rparr>"

text \<open>The thread that reads commands: what it calls, and in which order.\<close>

datatype app_call = ReloadTls | StopServer

fun command_loop :: "string list \<Rightarrow> app_call list" where
  "command_loop [] = []"
| "command_loop (line # lines) =
     (if line = ''reload'' then ReloadTls # command_loop lines
      else if line = ''quit'' then [StopServer]
      else command_loop lines)"

text \<open>\<^verbatim>\<open>main\<close> up to the start of \<^verbatim>\<open>run\<close>: the exit code of an early end, or the server that then runs. \<open>None\<close> is the
  undefined result of a configuration that breaks the JSON library's preconditions.\<close>

definition app_main ::
  "json_lib \<Rightarrow> 'c ssl_lib \<Rightarrow> 'w ticket_env \<Rightarrow> nat \<Rightarrow> os \<Rightarrow> boot_env \<Rightarrow> fsys \<Rightarrow> 'w \<Rightarrow> (int + ('c, 'w) boot) option" where
  "app_main J L E this os env fs w =
     (case initGlobal J os (b_pool env) ''config_test.json'' fs of
        (Inl e, fs') \<Rightarrow> Some (Inl 1)
      | (Inr g, fs') \<Rightarrow>
          (case HttpsServer_initialize J L E this os env (setAutoSave False g)
                  \<lparr>srv = setTlsConfig app_tls HttpsServer, mgr = \<lparr>drivers = [], defaultDriverName = []\<rparr>, bfs = fs',
                   bkeys = [], bw = w, io_contexts = 0, acceptor_workers = []\<rparr> of
             None \<Rightarrow> None
           | Some (False, _) \<Rightarrow> Some (Inl 1)
           | Some (True, b) \<Rightarrow> Some (Inr b)))"

subsection \<open>From the wire to the handler and back\<close>

lemma serve_answer:
  assumes "handle_request B rs req (set_keep_alive B (req_keep_alive req) ((clear_res B res)\<lparr>res_version := req_version req\<rparr>)) = (r, None)"
  shows "serve B rs req res = (prepare_payload B r, req_keep_alive req)"
  using assms by (simp add: serve_def)

lemma one_request:
  assumes "serve B rs req new_response = (r, keep)"
  shows "handle_connection B rs s True True False [\<lparr>it_read = Request req, it_write_ok = True, it_timed_out = False\<rparr>] =
    \<lparr>outs = [Raw (flat_response B (static_headers s) keep r)], requests = 1, conn_state = (if keep then Suspended else Closed)\<rparr>"
  using assms by (simp add: handle_connection_def)

text \<open>The server as a whole answers requests with the registered handlers: after \<^verbatim>\<open>R(method, path, ...)\<close> with a
  plain path, a connection on which a request arrives that spells the path out, with values for the
  parameters and possibly a query, and that no earlier route takes, gets exactly one response on the wire:
  what the handler made of a fresh response and those parameter values, followed by waiting or closing as
  the request asked.\<close>

theorem https_request_served:
  assumes "plain_path path" "path_segs path \<noteq> []" "distinct (extractParamNames path)"
    and "length vs = length (extractParamNames path)"
    and "\<forall>v \<in> set vs. segment_value v \<and> CHR ''?'' \<notin> set v"
    and "q = [] \<or> hd q = CHR ''?''"
    and "req_target req = fill_segs (path_segs path) vs @ q"
    and "\<forall>v. rs (req_method req) = Some v \<longrightarrow> (\<forall>r \<in> set v. \<not> fst (route_match r (req_target req) []))"
    and "h req (set_keep_alive B (req_keep_alive req) ((clear_res B new_response)\<lparr>res_version := req_version req\<rparr>))
           (zip (extractParamNames path) vs) = (r, None)"
  shows "handle_connection B (fst (R (req_method req) path h rs)) s True True False
      [\<lparr>it_read = Request req, it_write_ok = True, it_timed_out = False\<rparr>] =
    \<lparr>outs = [Raw (flat_response B (static_headers s) (req_keep_alive req) (prepare_payload B r))], requests = 1,
     conn_state = (if req_keep_alive req then Suspended else Closed)\<rparr>"
proof -
  obtain rs' where rs': "add (req_method req) path (Some h) rs = (rs', None)"
    "\<And>res. handle_request B rs' req res = h req res (zip (extractParamNames path) vs)"
    using added_route_hit [where rs = rs and h = h and B = B, OF assms(1-8)] by (metis Pair_inject)
  have "serve B rs' req new_response = (prepare_payload B r, req_keep_alive req)"
    by (rule serve_answer) (simp add: rs'(2) assms(9))
  from one_request [OF this] show ?thesis unfolding R_def rs'(1) fst_conv .
qed

text \<open>The program's own route.\<close>

theorem https_request_served_witness:
  "handle_connection sample_beast (app_routes sample_beast) (HttpsServer :: unit https_server) True True False
      [\<lparr>it_read = Request (sample_request GET ''/test''), it_write_ok = True, it_timed_out = False\<rparr>] =
    \<lparr>outs = [Raw (flat_response sample_beast [] True
       (new_response\<lparr>res_fields := [(''Content-Type'', ''text/plain'')], res_body := []\<rparr>))],
     requests = 1, conn_state = Suspended\<rparr>"
proof -
  have a: "plain_path ''/test''" "path_segs ''/test'' \<noteq> []" "distinct (extractParamNames ''/test'')"
    "length ([] :: string list) = length (extractParamNames ''/test'')"
    "\<forall>v \<in> set []. segment_value v \<and> CHR ''?'' \<notin> set v" "[] = [] \<or> hd [] = CHR ''?''"
    "req_target (sample_request GET ''/test'') = fill_segs (path_segs ''/test'') [] @ []"
    by code_simp+
  have f: "sample_request GET ''/test'' = \<lparr>req_method = GET, req_target = ''/test'', req_version = 11,
      req_keep_alive = True, req_fields = [], req_body = []\<rparr>" by (simp add: sample_request_def)
  have h: "benchmark_test sample_beast (sample_request GET ''/test'')
      (set_keep_alive sample_beast (req_keep_alive (sample_request GET ''/test''))
        ((clear_res sample_beast new_response)\<lparr>res_version := req_version (sample_request GET ''/test'')\<rparr>))
      (zip (extractParamNames ''/test'') []) =
    (new_response\<lparr>res_fields := [(''Content-Type'', ''text/plain'')], res_body := []\<rparr>, None)"
    by (simp add: f benchmark_test_def sample_beast_def set_res_def new_response_def)
  have "\<forall>v. Map.empty (req_method (sample_request GET ''/test'')) = Some v \<longrightarrow>
      (\<forall>r \<in> set v. \<not> fst (route_match r (req_target (sample_request GET ''/test'')) []))" by simp
  from https_request_served [where rs = Map.empty and h = "benchmark_test sample_beast" and B = sample_beast and s = HttpsServer, OF a this h]
  show ?thesis by (simp add: f app_routes_def HttpsServer_def sample_beast_def)
qed

subsection \<open>Connections fail independently\<close>

lemma redis_open_fresh:
  "redis_open Rd host port False w =
     ((case fst (r_connect Rd (c_str host) port w) of
         ContextOk \<Rightarrow> Inr () | ContextError e \<Rightarrow> Inl (runtime_error (''Connection error: '' @ e))
       | NoContext \<Rightarrow> Inl (runtime_error ''Failed to allocate Redis context.'')),
      fst (r_connect Rd (c_str host) port w) = ContextOk, snd (r_connect Rd (c_str host) port w))"
  by (auto simp: redis_open_def split: prod.splits connect_result.splits)

text \<open>The connections a server opens at start-up do not depend on each other: from a fresh process the queue
  and the cache are connected exactly when their own servers answer, whatever happens to the other and to
  the database, exactly the failures are logged, and a second start-up in the same process keeps both
  contexts and logs that they exist already.\<close>

theorem connections_independent:
  assumes "\<not> queue_context k" "\<not> cache_context k"
    and "r_connect Rd (c_str (get_str g ''nosql.host'' ''127.0.0.1'')) (sint (get_int J g ''nosql.port'' 6379)) (redis_world k) = (a, w1)"
    and "r_connect Rd (c_str (get_str g ''redis.host'' ''127.0.0.1'')) (sint (get_int J g ''redis.port'' 6379)) w1 = (b, w2)"
  shows "snd (initializeConnections J Rd P g k) = k\<lparr>queue_context := a = ContextOk, cache_context := b = ContextOk, redis_world := w2\<rparr> \<and>
    length (fst (initializeConnections J Rd P g k)) =
       (if a = ContextOk then 0 else 1) + (if b = ContextOk then 0 else 1) + length (run_migrations P g) \<and>
    (a = ContextOk \<and> b = ContextOk \<longrightarrow> initializeConnections J Rd P g (snd (initializeConnections J Rd P g k)) =
       ([''Connection to queue failed: Already connected to Redis.'', ''Connection to NOSQL database failed: Already connected to Redis.'']
          @ run_migrations P g, snd (initializeConnections J Rd P g k)))"
  using assms
  by (auto simp: initializeConnections_def connect_queue_def connect_cache_def queue_connect_def cache_connect_def
      redis_open_fresh redis_open_def split: connect_result.splits)

theorem connections_independent_witness:
  "snd (initializeConnections sample_json sample_redis sample_pq sample_config
      \<lparr>queue_context = False, cache_context = False, redis_world = Map.empty\<rparr>) =
    \<lparr>queue_context = True, cache_context = True, redis_world = Map.empty\<rparr>"
proof -
  let ?k = "\<lparr>queue_context = False, cache_context = False, redis_world = Map.empty\<rparr> :: (string \<Rightarrow> redis_value option) links"
  have c: "r_connect sample_redis h p w = (ContextOk, w)" for h p w by (simp add: sample_redis_def)
  show ?thesis
    using connections_independent [of ?k sample_redis sample_config sample_json ContextOk Map.empty ContextOk Map.empty sample_pq]
    by (simp add: c)
qed

subsection \<open>Commands\<close>

text \<open>The command thread of the program reloads the certificates once for every line \<^verbatim>\<open>reload\<close> before the first
  line \<^verbatim>\<open>quit\<close>, stops the server exactly when there is a line \<^verbatim>\<open>quit\<close>, after them and once, and does nothing
  else; at the end of its input without one it leaves the server running.\<close>

theorem command_loop_calls:
  "command_loop lines =
     replicate (length (filter (\<lambda>l. l = ''reload'') (takeWhile (\<lambda>l. l \<noteq> ''quit'') lines))) ReloadTls
       @ (if ''quit'' \<in> set lines then [StopServer] else [])"
  by (induction lines) auto


end
