(* ===== verification/HttpsStream.thy ===== *)
theory HttpsStream
  imports HttpsConnection
begin

text \<open>
  The bytes of a connection (\<^verbatim>\<open>src/HttpsServerConnection.cpp\<close>, the same in \<^verbatim>\<open>src/Server.cpp\<close>): how
  \<^verbatim>\<open>http::async_read\<close> fills the buffer of the coroutine from what the stream delivers, and what the loop does
  with the bytes that are left over. Beast's parser is a parameter. This gives the script of reads that
  \<^verbatim>\<open>HttpsConnection\<close> leaves open.
\<close>

subsection \<open>Reading one message\<close>

text \<open>The parser on the bytes in the buffer: a message and its length, an error, or not enough bytes.\<close>

datatype parse_result = NeedMore | Parsed request nat | OverBody | OverHeader | Malformed

text \<open>\<^verbatim>\<open>async_read\<close>: an empty buffer is filled first; then the parser takes what it needs and the rest stays in
  the buffer. The list holds what successive reads of the stream deliver; at its end the peer has closed.\<close>

fun read_message :: "(string \<Rightarrow> parse_result) \<Rightarrow> string \<Rightarrow> string list \<Rightarrow> read_event \<times> string \<times> string list" where
  "read_message prs buf [] =
     (case (if buf = [] then NeedMore else prs buf) of
        Parsed r n \<Rightarrow> (Request r, drop n buf, [])
      | OverBody \<Rightarrow> (BodyLimit, buf, [])
      | OverHeader \<Rightarrow> (HeaderLimit, buf, [])
      | Malformed \<Rightarrow> (ReadError, buf, [])
      | NeedMore \<Rightarrow> (if buf = [] then EndOfStream else ReadError, buf, []))"
| "read_message prs buf (s # segs) =
     (case (if buf = [] then NeedMore else prs buf) of
        Parsed r n \<Rightarrow> (Request r, drop n buf, s # segs)
      | OverBody \<Rightarrow> (BodyLimit, buf, s # segs)
      | OverHeader \<Rightarrow> (HeaderLimit, buf, s # segs)
      | Malformed \<Rightarrow> (ReadError, buf, s # segs)
      | NeedMore \<Rightarrow> read_message prs (buf @ s) segs)"

text \<open>\<^verbatim>\<open>buffer.consume(buffer.size())\<close>.\<close>

definition consume_all :: "string \<Rightarrow> string" where
  "consume_all buf = drop (length buf) buf"

lemma consume_all_Nil [simp]: "consume_all buf = []"
  by (simp add: consume_all_def)

lemma read_message_segs: "read_message prs buf segs = (ev, rest, segs') \<Longrightarrow> length segs' \<le> length segs"
  by (induction prs buf segs rule: read_message.induct) (auto split: parse_result.splits if_splits)

lemma read_message_progress:
  assumes "read_message prs [] segs = (Request r, rest, segs')"
  shows "length segs' < length segs"
proof (cases segs)
  case (Cons s ss)
  with assms have "read_message prs s ss = (Request r, rest, segs')" by simp
  from read_message_segs [OF this] Cons show ?thesis by simp
qed (use assms in simp)

lemma reads_decrease:
  assumes "read_message prs buf segs = (Request r, rest, segs')"
  shows "2 * length segs' < 2 * length segs + (if buf = [] then 0 else 1 :: nat)"
  using read_message_segs [OF assms] read_message_progress [of prs segs r rest segs'] assms by (cases "buf = []") auto

subsection \<open>The reads of a connection\<close>

text \<open>Every round reads into the buffer that the round before has emptied; a read that gives no request is
  the last one.\<close>

function reads :: "(string \<Rightarrow> parse_result) \<Rightarrow> string \<Rightarrow> string list \<Rightarrow> read_event list" where
  "reads prs buf segs =
     (case read_message prs buf segs of
        (Request r, rest, segs') \<Rightarrow> Request r # reads prs (consume_all rest) segs'
      | (ev, rest, segs') \<Rightarrow> [ev])"
  by pat_completeness auto

termination
proof (relation "measure (\<lambda>(prs, buf, segs). 2 * length segs + (if buf = [] then 0 else 1))", goal_cases)
  case 2
  then show ?case using reads_decrease [OF sym] by force
qed simp

declare reads.simps [simp del]

text \<open>The whole connection over such a stream, when every write succeeds and the idle timer does not fire.\<close>

definition round_of :: "read_event \<Rightarrow> round" where
  "round_of ev = \<lparr>it_read = ev, it_write_ok = True, it_timed_out = False\<rparr>"

definition stream_connection :: "beast \<Rightarrow> routes \<Rightarrow> 'c https_server \<Rightarrow> (string \<Rightarrow> parse_result) \<Rightarrow> string list \<Rightarrow> conn_out" where
  "stream_connection B rs s prs segs = handle_connection B rs s True True False (map round_of (reads prs [] segs))"

subsection \<open>Requests that come one at a time\<close>

text \<open>The bytes of a request: no proper part of them is enough for the parser, all of them are one message.\<close>

definition message_of :: "(string \<Rightarrow> parse_result) \<Rightarrow> request \<Rightarrow> string \<Rightarrow> bool" where
  "message_of prs r m \<longleftrightarrow> m \<noteq> [] \<and> prs m = Parsed r (length m) \<and>
     (\<forall>k < length m. 0 < k \<longrightarrow> prs (take k m) = NeedMore)"

lemma read_pieces:
  assumes "message_of prs r m" "pre @ concat ps = m" "\<forall>p \<in> set ps. p \<noteq> []"
  shows "read_message prs pre (ps @ rest) = (Request r, [], rest)"
  using assms(2,3)
proof (induction ps arbitrary: pre)
  case Nil
  then have "prs pre = Parsed r (length pre)" "pre \<noteq> []" using assms(1) by (auto simp: message_of_def)
  then show ?case by (cases rest) auto
next
  case (Cons p ps)
  then have m: "pre = take (length pre) m" "length pre < length m" by auto
  have "(if pre = [] then NeedMore else prs pre) = NeedMore"
    using m assms(1) unfolding message_of_def by (metis length_greater_0_conv)
  then show ?case using Cons by simp
qed

lemma reads_message:
  assumes "message_of prs r (concat ps)" "\<forall>p \<in> set ps. p \<noteq> []"
  shows "reads prs [] (ps @ rest) = Request r # reads prs [] rest"
  using read_pieces [of prs r "concat ps" "[]" ps rest] assms by (subst reads.simps) simp

lemma reads_end: "reads prs [] [] = [EndOfStream]"
  by (subst reads.simps) simp

text \<open>A sequence of requests, each in pieces of its own.\<close>

fun arrives :: "(string \<Rightarrow> parse_result) \<Rightarrow> request list \<Rightarrow> string list list \<Rightarrow> bool" where
  "arrives prs [] [] = True"
| "arrives prs (r # rs) (ps # pss) = (message_of prs r (concat ps) \<and> (\<forall>p \<in> set ps. p \<noteq> []) \<and> arrives prs rs pss)"
| "arrives prs _ _ = False"

lemma reads_arrives: "arrives prs reqs pss \<Longrightarrow> reads prs [] (concat pss) = map Request reqs @ [EndOfStream]"
  by (induction prs reqs pss rule: arrives.induct) (auto simp: reads_message reads_end)

text \<open>The answers to a list of requests on one connection, up to the first that closes it. The response object
  goes from one to the next.\<close>

fun answers :: "beast \<Rightarrow> routes \<Rightarrow> string \<Rightarrow> response \<Rightarrow> request list \<Rightarrow> sent list" where
  "answers B rs st res [] = []"
| "answers B rs st res (req # reqs) =
     (case serve B rs req res of
        (res', keep) \<Rightarrow> Raw (flat_response B st keep res') # (if keep then answers B rs st res' reqs else []))"

lemma conn_loop_answers:
  "conn_loop B rs st res (map round_of (map Request reqs @ [EndOfStream])) =
     \<lparr>outs = answers B rs st res reqs, requests = length (answers B rs st res reqs), conn_state = Closed\<rparr>"
  by (induction reqs arbitrary: res) (auto simp: round_of_def finish_with_def Let_def split: prod.splits)

text \<open>C9: Whatever pieces the network cuts them into, requests that a client sends one after the other, each after
  the answer to the one before, are all read exactly as they were sent and answered in order, until the
  first answer that closes the connection; then, or when the client closes, the connection ends.\<close>

theorem requests_answered_in_order:
  assumes "arrives prs reqs pss"
  shows "stream_connection B rs s prs (concat pss) =
    \<lparr>outs = answers B rs (static_headers s) new_response reqs,
     requests = length (answers B rs (static_headers s) new_response reqs), conn_state = Closed\<rparr>"
  using reads_arrives [OF assms] conn_loop_answers [of B rs "static_headers s" new_response reqs]
  by (simp add: stream_connection_def handle_connection_def)

text \<open>An example parser: a request is a target ended by an exclamation mark.\<close>

definition sample_parse :: "string \<Rightarrow> parse_result" where
  "sample_parse buf =
     (case find_char CHR ''!'' buf of None \<Rightarrow> NeedMore | Some i \<Rightarrow> Parsed (sample_request GET (take i buf)) (Suc i))"

theorem requests_answered_in_order_witness:
  "length (outs (stream_connection sample_beast Map.empty (HttpsServer :: unit https_server) sample_parse [''/a'', ''bc!'', ''/d!''])) = 2"
proof -
  have a: "arrives sample_parse [sample_request GET ''/abc'', sample_request GET ''/d''] [[''/a'', ''bc!''], [''/d!'']]"
    by (simp add: message_of_def) code_simp
  have "concat [[''/a'', ''bc!''], [''/d!'']] = [''/a'', ''bc!'', ''/d!'']" by simp
  with requests_answered_in_order [OF a, of sample_beast Map.empty "HttpsServer :: unit https_server"] show ?thesis
    by (simp add: serve_def handle_request_def sample_request_def)
qed

subsection \<open>Pipelined requests are lost\<close>

text \<open>C33: Bytes that arrive together with the end of a request are thrown away after its answer: a client that sends
  its next request without waiting gets no answer to it, and the connection goes on as if only the first
  request had been sent.\<close>

theorem pipelined_request_lost:
  assumes "m \<noteq> []" "prs (m @ next_bytes) = Parsed r (length m)"
  shows "reads prs [] ((m @ next_bytes) # segs) = Request r # reads prs [] segs"
  using assms by (subst reads.simps) (cases segs; simp)

theorem pipelined_request_lost_witness:
  "reads sample_parse [] [''/a!/b!''] = [Request (sample_request GET ''/a''), EndOfStream]"
proof -
  have "sample_parse (''/a!'' @ ''/b!'') = Parsed (sample_request GET ''/a'') (length ''/a!'')" by code_simp
  from pipelined_request_lost [where prs = sample_parse and m = "''/a!''" and next_bytes = "''/b!''" and segs = "[]", OF _ this] show ?thesis by (simp add: reads_end)
qed


end
