(* ===== verification/Service.thy ===== *)
theory Service
  imports Application HttpsStream
begin

text \<open>
  A service as a whole: a table of routes registered with the macro \<^verbatim>\<open>R\<close>, and a connection over which
  requests for it arrive as bytes. The theories of the router, of the connection and of its bytes come
  together here.
\<close>

subsection \<open>The table of a service\<close>

type_synonym service = "(verb \<times> string \<times> handler) list"

definition register_all :: "service \<Rightarrow> routes" where
  "register_all es = fold (\<lambda>(m, path, h) rs. fst (R m path h rs)) es Map.empty"

text \<open>The entry that answers a request: the request spells its path out, and no earlier entry of the method does.\<close>

definition served_by :: "service \<Rightarrow> request \<Rightarrow> string \<Rightarrow> handler \<Rightarrow> string list \<Rightarrow> bool" where
  "served_by es req path h vs \<longleftrightarrow>
     (\<exists>pre post q. es = pre @ (req_method req, path, h) # post \<and>
        path_segs path \<noteq> [] \<and> distinct (extractParamNames path) \<and> length vs = length (extractParamNames path) \<and>
        (\<forall>v \<in> set vs. segment_value v \<and> CHR ''?'' \<notin> set v) \<and> (q = [] \<or> hd q = CHR ''?'') \<and>
        req_target req = fill_segs (path_segs path) vs @ q \<and>
        (\<forall>(m, p, h') \<in> set pre. m = req_method req \<longrightarrow> match_path p (path_only (req_target req)) = None))"

definition plain_service :: "service \<Rightarrow> bool" where
  "plain_service es \<longleftrightarrow> (\<forall>(m, path, h) \<in> set es. plain_path path)"

lemma register_all_snoc: "register_all (es @ [(m, path, h)]) = fst (R m path h (register_all es))"
  by (simp add: register_all_def)

lemma plain_route:
  assumes "plain_path path"
  shows "\<exists>r. Route path h = Inr r \<and> (\<forall>t. fst (route_match r t []) \<longleftrightarrow> match_path path (path_only t) \<noteq> None)"
proof -
  obtain re where re: "convertPathToRegex path = Inr re" "\<And>s. regex_match re s = map_option seg_caps (match_path path s)"
    using convert_matches [OF assms] by blast
  then show ?thesis by (simp add: Route_def route_match_def split: option.splits)
qed

text \<open>The routes of a method are those that were registered for it.\<close>

lemma register_all_routes:
  assumes "plain_service es" "register_all es m = Some v" "r \<in> set v"
  shows "\<exists>path h. (m, path, h) \<in> set es \<and> Route path (Some h) = Inr r"
  using assms
proof (induction es arbitrary: v rule: rev_induct)
  case (snoc e es)
  obtain m' path' h' where e: "e = (m', path', h')" by (metis prod_cases3)
  obtain r' where r': "Route path' (Some h') = Inr r'" using plain_route [of path' "Some h'"] snoc.prems(1) e by (auto simp: plain_service_def)
  have p: "plain_service es" using snoc.prems(1) by (simp add: plain_service_def)
  show ?case
  proof (cases "m' = m")
    case True
    then have "v = (case register_all es m of None \<Rightarrow> [] | Some v \<Rightarrow> v) @ [r']"
      using snoc.prems(2) e r' by (auto simp: register_all_snoc R_def add_def Let_def)
    then show ?thesis
      using snoc.prems(3) snoc.IH [OF p] e r' True by (cases "register_all es m") auto
  next
    case False
    then have "register_all es m = Some v" using snoc.prems(2) e r' by (simp add: register_all_snoc R_def add_def Let_def)
    then show ?thesis using snoc.IH [OF p] snoc.prems(3) by auto
  qed
qed (simp add: register_all_def)

lemma register_post:
  "reached (register_all es) req h ps \<Longrightarrow> reached (register_all (es @ post)) req h ps"
proof (induction post rule: rev_induct)
  case (snoc e post)
  obtain m path h' where "e = (m, path, h')" by (metis prod_cases3)
  then show ?case
    using reached_add [OF snoc.IH [OF snoc.prems]] register_all_snoc [of "es @ post"] by (simp add: R_def)
qed simp

lemma served_reached:
  assumes "plain_service es" "served_by es req path h vs"
  shows "reached (register_all es) req h (zip (extractParamNames path) vs)"
proof -
  obtain pre post q where s: "es = pre @ (req_method req, path, h) # post" "path_segs path \<noteq> []"
      "distinct (extractParamNames path)" "length vs = length (extractParamNames path)"
      "\<forall>v \<in> set vs. segment_value v \<and> CHR ''?'' \<notin> set v" "q = [] \<or> hd q = CHR ''?''"
      "req_target req = fill_segs (path_segs path) vs @ q"
      and first: "\<forall>(m, p, h') \<in> set pre. m = req_method req \<longrightarrow> match_path p (path_only (req_target req)) = None"
    using assms(2) unfolding served_by_def by blast
  have p: "plain_path path" "plain_service pre" using assms(1) s(1) by (auto simp: plain_service_def)
  have miss: "\<not> fst (route_match r (req_target req) [])" if v: "register_all pre (req_method req) = Some v" "r \<in> set v" for v r
  proof -
    obtain p' h' where e: "(req_method req, p', h') \<in> set pre" "Route p' (Some h') = Inr r"
      using register_all_routes [OF p(2) v] by blast
    have "plain_path p'" using e(1) p(2) by (auto simp: plain_service_def)
    from plain_route [OF this, of "Some h'"] e first show ?thesis by auto
  qed
  then have "\<forall>v. register_all pre (req_method req) = Some v \<longrightarrow> (\<forall>r \<in> set v. \<not> fst (route_match r (req_target req) []))" by blast
  from added_route_reached [where rs = "register_all pre" and h = h, OF p(1) s(2-7) this]
  have "reached (register_all (pre @ [(req_method req, path, h)])) req h (zip (extractParamNames path) vs)"
    by (auto simp: register_all_snoc R_def)
  from register_post [OF this, of post] show ?thesis by (simp add: s(1))
qed

subsection \<open>The answers of a service\<close>

text \<open>The response a handler is given: whatever an earlier request of the connection left is cleared first.\<close>

definition fresh_response :: "beast \<Rightarrow> request \<Rightarrow> response \<Rightarrow> response" where
  "fresh_response B req res = set_keep_alive B (req_keep_alive req) ((clear_res B res)\<lparr>res_version := req_version req\<rparr>)"

definition handler_answer :: "beast \<Rightarrow> string \<Rightarrow> service \<Rightarrow> request \<Rightarrow> sent \<Rightarrow> bool" where
  "handler_answer B st es req out \<longleftrightarrow>
     (\<exists>path h vs res. served_by es req path h vs \<and>
        out = Raw (flat_response B st (req_keep_alive req)
          (prepare_payload B (fst (h req (fresh_response B req res) (zip (extractParamNames path) vs))))))"

lemma serve_served:
  assumes "plain_service es" "served_by es req path h vs" "\<And>res ps. snd (h req res ps) = None"
  shows "serve B (register_all es) req res =
    (prepare_payload B (fst (h req (fresh_response B req res) (zip (extractParamNames path) vs))), req_keep_alive req)"
proof (rule serve_answer)
  show "handle_request B (register_all es) req (set_keep_alive B (req_keep_alive req) ((clear_res B res)\<lparr>res_version := req_version req\<rparr>)) =
    (fst (h req (fresh_response B req res) (zip (extractParamNames path) vs)), None)"
    using reached_handled [OF served_reached [OF assms(1,2)]] assms(3) by (simp add: fresh_response_def prod_eq_iff)
qed

lemma answers_served:
  assumes "plain_service es"
    and "\<forall>req \<in> set reqs. \<exists>path h vs. served_by es req path h vs \<and> (\<forall>res ps. snd (h req res ps) = None)"
    and "\<forall>req \<in> set (butlast reqs). req_keep_alive req"
  shows "list_all2 (handler_answer B st es) reqs (answers B (register_all es) st res reqs)"
  using assms(2,3)
proof (induction reqs arbitrary: res)
  case (Cons req reqs)
  from Cons.prems(1) obtain path h vs where s: "served_by es req path h vs" "\<And>res ps. snd (h req res ps) = None"
    unfolding list.set by (meson insertI1)
  note sv = serve_served [OF assms(1) s, of B]
  have keep: "req_keep_alive req \<or> reqs = []" using Cons.prems(2) by (cases reqs) auto
  have IH: "list_all2 (handler_answer B st es) reqs (answers B (register_all es) st r reqs)" for r
  proof (rule Cons.IH)
    show "\<forall>req \<in> set reqs. \<exists>path h vs. served_by es req path h vs \<and> (\<forall>res ps. snd (h req res ps) = None)"
      using Cons.prems(1) by (meson list.set_intros(2))
    show "\<forall>req \<in> set (butlast reqs). req_keep_alive req" using Cons.prems(2) by (cases reqs) simp_all
  qed
  have "handler_answer B st es req (Raw (flat_response B st (req_keep_alive req)
      (prepare_payload B (fst (h req (fresh_response B req res) (zip (extractParamNames path) vs))))))"
    unfolding handler_answer_def using s(1) by blast
  with IH keep show ?case by (elim disjE) (simp_all add: sv)
qed simp

text \<open>C2: A service answers every request with the handler registered for it. Routes with plain paths are registered
  with \<^verbatim>\<open>R\<close>; a client sends requests one after the other over one connection, each of which spells out the
  path of a route that no earlier route of its method shadows, all but the last asking to keep the
  connection, and their handlers do not throw. Then, whatever pieces the network cuts the bytes into,
  there is exactly one answer on the wire per request, in order, namely what the handler of its route made
  of a cleared response and the values of its parameters, and then the connection closes.\<close>

theorem service_answers_requests:
  assumes "plain_service es" "arrives prs reqs pss"
    and "\<forall>req \<in> set reqs. \<exists>path h vs. served_by es req path h vs \<and> (\<forall>res ps. snd (h req res ps) = None)"
    and "\<forall>req \<in> set (butlast reqs). req_keep_alive req"
  shows "list_all2 (handler_answer B (static_headers s) es) reqs (outs (stream_connection B (register_all es) s prs (concat pss))) \<and>
    conn_state (stream_connection B (register_all es) s prs (concat pss)) = Closed"
  using answers_served [OF assms(1,3,4)] reads_arrives [OF assms(2)]
    conn_loop_answers [of B "register_all es" "static_headers s" new_response reqs]
  by (simp add: stream_connection_def handle_connection_def)

definition sample_service :: service where
  "sample_service = [(GET, ''/abc'', echo_handler), (GET, ''/u/:id'', echo_handler)]"

lemma sample_served:
  "served_by sample_service (sample_request GET ''/abc'') ''/abc'' echo_handler []"
  "served_by sample_service (sample_request GET ''/u/7'') ''/u/:id'' echo_handler [''7'']"
proof -
  have "sample_service = [] @ (req_method (sample_request GET ''/abc''), ''/abc'', echo_handler) # [(GET, ''/u/:id'', echo_handler)]"
    by (simp add: sample_service_def sample_request_def)
  moreover have "path_segs ''/abc'' \<noteq> []" "distinct (extractParamNames ''/abc'')"
    "length ([] :: string list) = length (extractParamNames ''/abc'')"
    "req_target (sample_request GET ''/abc'') = fill_segs (path_segs ''/abc'') [] @ []" by code_simp+
  ultimately show "served_by sample_service (sample_request GET ''/abc'') ''/abc'' echo_handler []"
    unfolding served_by_def by fastforce
  have "sample_service = [(GET, ''/abc'', echo_handler)] @ (req_method (sample_request GET ''/u/7''), ''/u/:id'', echo_handler) # []"
    by (simp add: sample_service_def sample_request_def)
  moreover have "path_segs ''/u/:id'' \<noteq> []" "distinct (extractParamNames ''/u/:id'')"
    "length [''7''] = length (extractParamNames ''/u/:id'')" "segment_value ''7''" "CHR ''?'' \<notin> set ''7''"
    "req_target (sample_request GET ''/u/7'') = fill_segs (path_segs ''/u/:id'') [''7''] @ []"
    "match_path ''/abc'' (path_only (req_target (sample_request GET ''/u/7''))) = None" by code_simp+
  ultimately show "served_by sample_service (sample_request GET ''/u/7'') ''/u/:id'' echo_handler [''7'']"
    unfolding served_by_def by fastforce
qed

theorem service_answers_requests_witness:
  "length (outs (stream_connection sample_beast (register_all sample_service) (HttpsServer :: unit https_server)
     sample_parse [''/a'', ''bc!'', ''/u/7!''])) = 2"
proof -
  have p: "plain_service sample_service" by code_simp
  have a: "arrives sample_parse [sample_request GET ''/abc'', sample_request GET ''/u/7''] [[''/a'', ''bc!''], [''/u/7!'']]"
    by (simp add: message_of_def) code_simp
  have h: "\<forall>req \<in> set [sample_request GET ''/abc'', sample_request GET ''/u/7''].
      \<exists>path h vs. served_by sample_service req path h vs \<and> (\<forall>res ps. snd (h req res ps) = None)"
    using sample_served by (fastforce simp: echo_handler_def)
  have k: "\<forall>req \<in> set (butlast [sample_request GET ''/abc'', sample_request GET ''/u/7'']). req_keep_alive req"
    by (simp add: sample_request_def)
  have "concat [[''/a'', ''bc!''], [''/u/7!'']] = [''/a'', ''bc!'', ''/u/7!'']" by simp
  with service_answers_requests [OF p a h k, of sample_beast "HttpsServer :: unit https_server"] show ?thesis
    by (auto dest: list_all2_lengthD)
qed

end
