(* ===== verification/Lifecycle.thy ===== *)
theory Lifecycle
  imports Prelude
begin

text \<open>
  The threads of a server: \<^verbatim>\<open>run\<close> and \<^verbatim>\<open>stop\<close> of \<^verbatim>\<open>src/HttpsServer.cpp\<close>, \<^verbatim>\<open>src/Server.cpp\<close> and \<^verbatim>\<open>src/WebSocketServer.cpp\<close> with the worker
  threads and the statistics thread. Each access to the shared flags, each locking and each start or
  end of a thread is one step, and the steps of all threads interleave in any order. Connections are
  in \<^verbatim>\<open>HttpsAccept\<close>; here the wait for them in \<^verbatim>\<open>stop\<close>, which ends after ten seconds at the latest, is one
  step. Starting a thread succeeds, and \<^verbatim>\<open>stop\<close> is called once.
\<close>

subsection \<open>The HTTPS server\<close>

datatype run_pc =
    RSpawn nat \<comment> \<open>so many worker threads are started\<close>
  | RReset \<comment> \<open>before \<^verbatim>\<open>shutdown_flag_.store(false)\<close>\<close>
  | RStats \<comment> \<open>before the statistics thread is started\<close>
  | RJoin \<comment> \<open>joining the workers\<close>
  | RJoinStats
  | RReturned

datatype stop_pc =
    SIdle \<comment> \<open>not called yet\<close>
  | SFlagged \<comment> \<open>\<^verbatim>\<open>shutdown_flag_\<close> is set\<close>
  | SShutting \<comment> \<open>\<^verbatim>\<open>shutting_down_\<close> is set\<close>
  | SNotified \<comment> \<open>\<^verbatim>\<open>stats_cv_\<close> was notified under the lock\<close>
  | SClosed \<comment> \<open>the acceptors are closed\<close>
  | SGuards \<comment> \<open>the work guards are reset\<close>
  | SDrained \<comment> \<open>the wait for the connections is over\<close>
  | SDone \<comment> \<open>the contexts are stopped\<close>

datatype stats_pc =
    Unstarted
  | Entering \<comment> \<open>before the first locking of \<^verbatim>\<open>stats_mutex_\<close>\<close>
  | Testing \<comment> \<open>before the test of the loop, with the lock\<close>
  | Predicate \<comment> \<open>before the predicate of \<^verbatim>\<open>wait_for\<close>, with the lock\<close>
  | Unmet \<comment> \<open>the predicate was false, still with the lock\<close>
  | Blocked \<comment> \<open>waiting, the lock released\<close>
  | Woken \<comment> \<open>notified, without the lock\<close>
  | TimedOut \<comment> \<open>ten seconds are over, without the lock\<close>
  | Reporting \<comment> \<open>logging, without the lock\<close>
  | StatsEnded

datatype worker = NoThread | Serving | Ended

record life =
  run_at :: run_pc
  stop_at :: stop_pc
  stats_at :: stats_pc
  workers :: "worker list" \<comment> \<open>one per context\<close>
  shutdown_flag :: bool
  guards :: bool \<comment> \<open>the work guards hold the contexts\<close>
  io_stopped :: bool

definition init_life :: "nat \<Rightarrow> life" where
  "init_life n = \<lparr>run_at = RSpawn 0, stop_at = SIdle, stats_at = Unstarted, workers = replicate n NoThread,
     shutdown_flag = False, guards = True, io_stopped = False\<rparr>"

fun has_lock :: "stats_pc \<Rightarrow> bool" where
  "has_lock Testing = True"
| "has_lock Predicate = True"
| "has_lock Unmet = True"
| "has_lock _ = False"

text \<open>\<^verbatim>\<open>HttpsServer::run\<close>.\<close>

inductive run_step :: "life \<Rightarrow> life \<Rightarrow> bool" where
  spawn: "run_at s = RSpawn k \<Longrightarrow> k < length (workers s) \<Longrightarrow>
     run_step s (s\<lparr>run_at := RSpawn (Suc k), workers := (workers s)[k := Serving]\<rparr>)"
| spawned: "run_at s = RSpawn k \<Longrightarrow> length (workers s) \<le> k \<Longrightarrow> run_step s (s\<lparr>run_at := RReset\<rparr>)"
| reset: "run_at s = RReset \<Longrightarrow> run_step s (s\<lparr>run_at := RStats, shutdown_flag := False\<rparr>)"
| start_stats: "run_at s = RStats \<Longrightarrow> run_step s (s\<lparr>run_at := RJoin, stats_at := Entering\<rparr>)"
| join_workers: "run_at s = RJoin \<Longrightarrow> workers s = replicate (length (workers s)) Ended \<Longrightarrow> run_step s (s\<lparr>run_at := RJoinStats\<rparr>)"
| join_stats: "run_at s = RJoinStats \<Longrightarrow> stats_at s = StatsEnded \<Longrightarrow> run_step s (s\<lparr>run_at := RReturned\<rparr>)"

text \<open>The thread of a context: \<^verbatim>\<open>io_context::run\<close> returns when the context is stopped, and may return when its
  guard is gone, as soon as no work is left.\<close>

inductive worker_step :: "life \<Rightarrow> life \<Rightarrow> bool" where
  "i < length (workers s) \<Longrightarrow> workers s ! i = Serving \<Longrightarrow> io_stopped s \<or> \<not> guards s \<Longrightarrow>
     worker_step s (s\<lparr>workers := (workers s)[i := Ended]\<rparr>)"

text \<open>The statistics thread: \<^verbatim>\<open>wait_for\<close> with a predicate waits while the predicate is false, and after the time-out
  returns its value.\<close>

inductive stats_step :: "life \<Rightarrow> life \<Rightarrow> bool" where
  enter: "stats_at s = Entering \<Longrightarrow> stats_step s (s\<lparr>stats_at := Testing\<rparr>)"
| test: "stats_at s = Testing \<Longrightarrow> stats_step s (s\<lparr>stats_at := (if shutdown_flag s then StatsEnded else Predicate)\<rparr>)"
| predicate: "stats_at s = Predicate \<Longrightarrow> stats_step s (s\<lparr>stats_at := (if shutdown_flag s then StatsEnded else Unmet)\<rparr>)"
| block: "stats_at s = Unmet \<Longrightarrow> stats_step s (s\<lparr>stats_at := Blocked\<rparr>)"
| spurious: "stats_at s = Blocked \<Longrightarrow> stats_step s (s\<lparr>stats_at := Woken\<rparr>)"
| time_out: "stats_at s = Blocked \<Longrightarrow> stats_step s (s\<lparr>stats_at := TimedOut\<rparr>)"
| relock: "stats_at s = Woken \<Longrightarrow> stats_step s (s\<lparr>stats_at := Predicate\<rparr>)"
| last_look: "stats_at s = TimedOut \<Longrightarrow> stats_step s (s\<lparr>stats_at := (if shutdown_flag s then StatsEnded else Reporting)\<rparr>)"
| report: "stats_at s = Reporting \<Longrightarrow> stats_step s (s\<lparr>stats_at := Testing\<rparr>)"

text \<open>\<^verbatim>\<open>HttpsServer::stop\<close>.\<close>

inductive stop_step :: "life \<Rightarrow> life \<Rightarrow> bool" where
  flag: "stop_at s = SIdle \<Longrightarrow> stop_step s (s\<lparr>stop_at := SFlagged, shutdown_flag := True\<rparr>)"
| shutting: "stop_at s = SFlagged \<Longrightarrow> stop_step s (s\<lparr>stop_at := SShutting\<rparr>)"
| notify: "stop_at s = SShutting \<Longrightarrow> \<not> has_lock (stats_at s) \<Longrightarrow>
     stop_step s (s\<lparr>stop_at := SNotified, stats_at := (if stats_at s = Blocked then Woken else stats_at s)\<rparr>)"
| close: "stop_at s = SNotified \<Longrightarrow> stop_step s (s\<lparr>stop_at := SClosed\<rparr>)"
| drop_guards: "stop_at s = SClosed \<Longrightarrow> stop_step s (s\<lparr>stop_at := SGuards, guards := False\<rparr>)"
| drained: "stop_at s = SGuards \<Longrightarrow> stop_step s (s\<lparr>stop_at := SDrained\<rparr>)"
| stop_io: "stop_at s = SDrained \<Longrightarrow> stop_step s (s\<lparr>stop_at := SDone, io_stopped := True\<rparr>)"

definition life_step :: "life \<Rightarrow> life \<Rightarrow> bool" where
  "life_step s t \<longleftrightarrow> run_step s t \<or> worker_step s t \<or> stats_step s t \<or> stop_step s t"

inductive_cases run_stepE: "run_step s t"
inductive_cases worker_stepE: "worker_step s t"
inductive_cases stats_stepE: "stats_step s t"
inductive_cases stop_stepE: "stop_step s t"

lemmas life_cases = run_stepE worker_stepE stats_stepE stop_stepE

definition life_reach :: "nat \<Rightarrow> life \<Rightarrow> bool" where
  "life_reach n s \<longleftrightarrow> life_step\<^sup>*\<^sup>* (init_life n) s"

subsection \<open>What every state satisfies\<close>

fun past_reset :: "run_pc \<Rightarrow> bool" where
  "past_reset (RSpawn _) = False"
| "past_reset RReset = False"
| "past_reset _ = True"

fun notified :: "stop_pc \<Rightarrow> bool" where
  "notified SIdle = False"
| "notified SFlagged = False"
| "notified SShutting = False"
| "notified _ = True"

text \<open>\<^verbatim>\<open>stop\<close> has set the flag, and \<^verbatim>\<open>run\<close> does not take it back any more.\<close>

definition late :: "life \<Rightarrow> bool" where
  "late s \<longleftrightarrow> past_reset (run_at s) \<and> shutdown_flag s"

fun spawned_upto :: "life \<Rightarrow> nat" where
  "spawned_upto s = (case run_at s of RSpawn k \<Rightarrow> k | _ \<Rightarrow> length (workers s))"

definition life_inv :: "life \<Rightarrow> bool" where
  "life_inv s \<longleftrightarrow>
     (\<forall>i < length (workers s). i < spawned_upto s \<longrightarrow> workers s ! i \<noteq> NoThread) \<and>
     (stats_at s = Unstarted \<longleftrightarrow> \<not> past_reset (run_at s) \<or> run_at s = RStats) \<and>
     (shutdown_flag s \<longrightarrow> stop_at s \<noteq> SIdle) \<and>
     (stop_at s = SDone \<longrightarrow> io_stopped s) \<and>
     (late s \<and> notified (stop_at s) \<longrightarrow> stats_at s \<noteq> Unmet \<and> stats_at s \<noteq> Blocked)"

lemma init_life_inv: "life_inv (init_life n)"
  by (simp add: life_inv_def init_life_def late_def)

lemma run_step_inv: "life_inv s \<Longrightarrow> run_step s t \<Longrightarrow> life_inv t"
proof (erule run_stepE, goal_cases)
  case (1 k)
  then show ?case by (simp add: life_inv_def late_def nth_list_update)
qed (simp_all add: life_inv_def late_def)

lemma worker_step_inv: "life_inv s \<Longrightarrow> worker_step s t \<Longrightarrow> life_inv t"
  by (erule worker_stepE) (auto simp: life_inv_def late_def nth_list_update split: run_pc.splits)

lemma stats_step_inv: "life_inv s \<Longrightarrow> stats_step s t \<Longrightarrow> life_inv t"
  by (erule stats_stepE) (auto simp: life_inv_def late_def split: run_pc.splits)

lemma stop_step_inv: "life_inv s \<Longrightarrow> stop_step s t \<Longrightarrow> life_inv t"
  by (erule stop_stepE) (auto simp: life_inv_def late_def split: run_pc.splits)

lemma life_step_inv: "life_inv s \<Longrightarrow> life_step s t \<Longrightarrow> life_inv t"
  unfolding life_step_def by (elim disjE) (rule run_step_inv worker_step_inv stats_step_inv stop_step_inv; assumption)+

lemma life_reach_inv: "life_reach n s \<Longrightarrow> life_inv s"
  unfolding life_reach_def by (induction rule: rtranclp_induct) (use init_life_inv life_step_inv in blast)+

lemma late_kept: "late s \<Longrightarrow> life_step s t \<Longrightarrow> late t"
  unfolding life_step_def by (elim disjE life_cases) (auto simp: late_def)

subsection \<open>After a late stop everything ends\<close>

fun run_left :: "run_pc \<Rightarrow> nat" where
  "run_left RStats = 20"
| "run_left RJoin = 2"
| "run_left RJoinStats = 1"
| "run_left _ = 0"

fun stop_left :: "stop_pc \<Rightarrow> nat" where
  "stop_left SFlagged = 6"
| "stop_left SShutting = 5"
| "stop_left SNotified = 4"
| "stop_left SClosed = 3"
| "stop_left SGuards = 2"
| "stop_left SDrained = 1"
| "stop_left _ = 0"

fun stats_left :: "stats_pc \<Rightarrow> nat" where
  "stats_left Entering = 7"
| "stats_left Unmet = 6"
| "stats_left Blocked = 5"
| "stats_left Woken = 4"
| "stats_left TimedOut = 4"
| "stats_left Reporting = 4"
| "stats_left Testing = 3"
| "stats_left Predicate = 3"
| "stats_left _ = 0"

definition life_left :: "life \<Rightarrow> nat" where
  "life_left s = run_left (run_at s) + stop_left (stop_at s) + stats_left (stats_at s)
     + length (filter (\<lambda>w. w \<noteq> Ended) (workers s))"

definition life_over :: "life \<Rightarrow> bool" where
  "life_over s \<longleftrightarrow> run_at s = RReturned \<and> stop_at s = SDone \<and> stats_at s = StatsEnded
     \<and> workers s = replicate (length (workers s)) Ended"

lemma filter_update_less:
  "i < length xs \<Longrightarrow> P (xs ! i) \<Longrightarrow> \<not> P y \<Longrightarrow> length (filter P (xs[i := y])) < length (filter P xs)"
proof (induction xs arbitrary: i)
  case (Cons x xs)
  then show ?case by (cases i) auto
qed simp

lemma life_left_falls:
  assumes "life_inv s" "late s" "life_step s t"
  shows "life_left t < life_left s"
proof -
  have "run_step s t \<Longrightarrow> ?thesis" using assms by (elim run_stepE) (auto simp: life_left_def late_def life_inv_def)
  moreover have "worker_step s t \<Longrightarrow> ?thesis" using assms by (elim worker_stepE) (auto simp: life_left_def filter_update_less)
  moreover have "stats_step s t \<Longrightarrow> ?thesis" using assms by (elim stats_stepE) (auto simp: life_left_def late_def)
  moreover have "stop_step s t \<Longrightarrow> ?thesis" using assms by (elim stop_stepE) (auto simp: life_left_def late_def life_inv_def)
  ultimately show ?thesis using assms(3) by (auto simp: life_step_def)
qed

lemma stats_goes_on: "stats_at s \<noteq> Unstarted \<Longrightarrow> stats_at s \<noteq> StatsEnded \<Longrightarrow> \<exists>t. stats_step s t"
  by (cases "stats_at s") (blast intro: stats_step.intros)+

lemma stop_goes_on: "stop_at s \<noteq> SDone \<Longrightarrow> \<not> has_lock (stats_at s) \<Longrightarrow> \<exists>t. stop_step s t"
  by (cases "stop_at s") (blast intro: stop_step.intros)+

lemma serving_exists:
  assumes "\<forall>i < length ws. ws ! i \<noteq> NoThread" "ws \<noteq> replicate (length ws) Ended"
  shows "\<exists>i < length ws. ws ! i = Serving"
proof -
  from assms(2) obtain i where "i < length ws" "ws ! i \<noteq> Ended"
    by (metis length_replicate nth_equalityI nth_replicate)
  with assms(1) show ?thesis by (cases "ws ! i") auto
qed

lemma workers_go_on:
  assumes "life_inv s" "past_reset (run_at s)" "io_stopped s" "workers s \<noteq> replicate (length (workers s)) Ended"
  shows "\<exists>t. worker_step s t"
proof -
  have "\<forall>i < length (workers s). workers s ! i \<noteq> NoThread"
    using assms(1,2) by (cases "run_at s") (auto simp: life_inv_def)
  from serving_exists [OF this assms(4)] assms(3) show ?thesis by (blast intro: worker_step.intros)
qed

lemma life_goes_on:
  assumes "life_inv s" "late s" "\<not> life_over s"
  shows "\<exists>t. life_step s t"
proof (rule ccontr)
  assume stuck: "\<nexists>t. life_step s t"
  from assms(2) have r: "past_reset (run_at s)" by (simp add: late_def)
  have "run_at s \<noteq> RStats" using stuck run_step.start_stats by (auto simp: life_step_def)
  then have "stats_at s \<noteq> Unstarted" using assms(1) r by (simp add: life_inv_def)
  then have st: "stats_at s = StatsEnded" using stuck stats_goes_on by (auto simp: life_step_def)
  then have so: "stop_at s = SDone" using stuck stop_goes_on [of s] by (auto simp: life_step_def)
  then have "io_stopped s" using assms(1) by (simp add: life_inv_def)
  then have w: "workers s = replicate (length (workers s)) Ended"
    using stuck workers_go_on [OF assms(1) r] by (auto simp: life_step_def)
  have "run_at s \<noteq> RJoin" "run_at s \<noteq> RJoinStats"
    using stuck run_step.join_workers [OF _ w] run_step.join_stats [OF _ st] by (auto simp: life_step_def)
  with r \<open>run_at s \<noteq> RStats\<close> have "run_at s = RReturned" by (cases "run_at s") auto
  with st so w assms(3) show False by (simp add: life_over_def)
qed

interpretation https_life: ending_machine life_step "\<lambda>s. life_inv s \<and> late s" life_left life_over
  using life_step_inv late_kept life_left_falls life_goes_on by unfold_locales blast+


lemma life_left_bound: "life_left s \<le> 33 + length (workers s)"
proof -
  have "run_left (run_at s) \<le> 20" by (cases "run_at s") auto
  moreover have "stop_left (stop_at s) \<le> 6" by (cases "stop_at s") auto
  moreover have "stats_left (stats_at s) \<le> 7" by (cases "stats_at s") auto
  moreover have "length (filter (\<lambda>w. w \<noteq> Ended) (workers s)) \<le> length (workers s)" by simp
  ultimately show ?thesis unfolding life_left_def by linarith
qed

lemma life_reach_init: "life_reach n (init_life n)"
  by (simp add: life_reach_def)

lemma life_reach_step: "life_reach n s \<Longrightarrow> life_step s t \<Longrightarrow> life_reach n t"
  by (simp add: life_reach_def)

text \<open>C11: Once \<^verbatim>\<open>run\<close> has cleared the shutdown flag, a call of \<^verbatim>\<open>stop\<close> ends the server in every interleaving: from
  any such state only a bounded number of steps is left, no thread waits for another for ever, and when
  nothing can happen any more \<^verbatim>\<open>run\<close> and \<^verbatim>\<open>stop\<close> have returned and all threads have ended.\<close>

theorem https_stop_ends_run:
  assumes "life_reach n s" "late s" "(life_step ^^ k) s t"
  shows "k \<le> 33 + length (workers s) \<and> ((\<forall>u. \<not> life_step t u) \<longrightarrow> life_over t)"
  using https_life.runs_end [OF assms(3)] life_reach_inv [OF assms(1)] assms(2) life_left_bound [of s] by auto

text \<open>A state with one worker in which \<^verbatim>\<open>stop\<close> has just set the flag.\<close>

definition sample_life :: life where
  "sample_life = \<lparr>run_at = RJoin, stop_at = SFlagged, stats_at = Entering, workers = [Serving],
     shutdown_flag = True, guards = True, io_stopped = False\<rparr>"

lemma sample_life_reach: "life_reach 1 sample_life"
proof -
  let ?a = "init_life 1\<lparr>run_at := RSpawn 1, workers := [Serving]\<rparr>"
  have 1: "life_step (init_life 1) ?a"
    using run_step.spawn [of "init_life 1" 0] by (simp add: life_step_def init_life_def)
  have 2: "life_step ?a (?a\<lparr>run_at := RReset\<rparr>)"
    using run_step.spawned [of ?a 1] by (simp add: life_step_def)
  have 3: "life_step (?a\<lparr>run_at := RReset\<rparr>) (?a\<lparr>run_at := RStats, shutdown_flag := False\<rparr>)"
    using run_step.reset [of "?a\<lparr>run_at := RReset\<rparr>"] by (simp add: life_step_def)
  have 4: "life_step (?a\<lparr>run_at := RStats, shutdown_flag := False\<rparr>) (?a\<lparr>run_at := RJoin, stats_at := Entering, shutdown_flag := False\<rparr>)"
    using run_step.start_stats [of "?a\<lparr>run_at := RStats, shutdown_flag := False\<rparr>"] by (simp add: life_step_def init_life_def)
  have 5: "life_step (?a\<lparr>run_at := RJoin, stats_at := Entering, shutdown_flag := False\<rparr>) sample_life"
    using stop_step.flag [of "?a\<lparr>run_at := RJoin, stats_at := Entering, shutdown_flag := False\<rparr>"]
    by (simp add: life_step_def sample_life_def init_life_def)
  note r = life_reach_step [of 1]
  show ?thesis by (rule r [OF r [OF r [OF r [OF r [OF life_reach_init 1] 2] 3] 4] 5])
qed

theorem https_stop_ends_run_witness:
  "\<exists>k t. (life_step ^^ k) sample_life t \<and> k \<le> 34 \<and> life_over t"
proof -
  have l: "late sample_life" by (simp add: late_def sample_life_def)
  with life_reach_inv [OF sample_life_reach] https_life.final_reached [of sample_life]
  obtain t where t: "life_step\<^sup>*\<^sup>* sample_life t" "life_over t" by blast
  then obtain k where k: "(life_step ^^ k) sample_life t" by (metis rtranclp_power)
  from https_stop_ends_run [OF sample_life_reach l k] t k show ?thesis by (auto simp: sample_life_def)
qed

text \<open>No wake-up of the statistics thread is lost: once such a \<^verbatim>\<open>stop\<close> has notified it, that thread is not about
  to wait and not waiting, so \<^verbatim>\<open>run\<close> does not have to sit out its ten seconds.\<close>

theorem https_stats_woken:
  assumes "life_reach n s" "late s" "notified (stop_at s)"
  shows "stats_at s \<noteq> Unmet \<and> stats_at s \<noteq> Blocked"
  using life_reach_inv [OF assms(1)] assms(2,3) by (simp add: life_inv_def)

lemma sample_notified_reach: "life_reach 1 (sample_life\<lparr>stop_at := SNotified\<rparr>)"
proof -
  have "life_step sample_life (sample_life\<lparr>stop_at := SShutting\<rparr>)"
    using stop_step.shutting [of sample_life] by (simp add: life_step_def sample_life_def)
  moreover have "life_step (sample_life\<lparr>stop_at := SShutting\<rparr>) (sample_life\<lparr>stop_at := SNotified\<rparr>)"
    using stop_step.notify [of "sample_life\<lparr>stop_at := SShutting\<rparr>"] by (simp add: life_step_def sample_life_def)
  ultimately show ?thesis using sample_life_reach life_reach_step by metis
qed

theorem https_stats_woken_witness: "stats_at (sample_life\<lparr>stop_at := SNotified\<rparr>) \<noteq> Blocked"
  using https_stats_woken [OF sample_notified_reach] by (simp add: late_def sample_life_def)

text \<open>The flag is taken back.\<close>

definition lost :: "life \<Rightarrow> bool" where
  "lost s \<longleftrightarrow> stop_at s \<noteq> SIdle \<and> run_at s \<noteq> RReturned \<and> stats_at s \<noteq> StatsEnded \<and>
     (past_reset (run_at s) \<longrightarrow> \<not> shutdown_flag s) \<and> (\<not> past_reset (run_at s) \<longrightarrow> stats_at s = Unstarted)"

lemma lost_step: "lost s \<Longrightarrow> life_step s t \<Longrightarrow> lost t"
  unfolding life_step_def by (elim disjE life_cases) (auto simp: lost_def)

text \<open>C29: A \<^verbatim>\<open>stop\<close> that sets the flag before \<^verbatim>\<open>run\<close> clears it is lost for the statistics thread: \<^verbatim>\<open>run\<close> never
  returns, in no interleaving.\<close>

theorem https_early_stop_lost:
  assumes "life_reach n s" "stop_at s \<noteq> SIdle" "\<not> past_reset (run_at s)" "life_step\<^sup>*\<^sup>* s t"
  shows "run_at t \<noteq> RReturned"
proof -
  have "stats_at s = Unstarted" using life_reach_inv [OF assms(1)] assms(3) by (simp add: life_inv_def)
  with assms(2,3) have "lost s" by (auto simp: lost_def)
  with assms(4) have "lost t" by (induction rule: rtranclp_induct) (use lost_step in blast)+
  then show ?thesis by (simp add: lost_def)
qed

theorem https_early_stop_lost_witness:
  "\<exists>s. life_step (init_life 2) s \<and> stop_at s = SFlagged \<and> run_at (s\<lparr>stop_at := SShutting\<rparr>) \<noteq> RReturned"
proof -
  let ?s = "init_life 2\<lparr>stop_at := SFlagged, shutdown_flag := True\<rparr>"
  have st: "life_step (init_life 2) ?s"
    using stop_step.flag [of "init_life 2"] by (simp add: life_step_def init_life_def)
  have st2: "life_step ?s (?s\<lparr>stop_at := SShutting\<rparr>)"
    using stop_step.shutting [of ?s] by (simp add: life_step_def)
  have "run_at (?s\<lparr>stop_at := SShutting\<rparr>) \<noteq> RReturned"
    using https_early_stop_lost [OF life_reach_step [OF life_reach_init st] _ _ r_into_rtranclp [of life_step, OF st2]]
    by (simp add: init_life_def)
  with st show ?thesis by force
qed


subsection \<open>The plain server\<close>

text \<open>\<^verbatim>\<open>Server::run\<close> and \<^verbatim>\<open>Server::stop\<close>: here all workers share one context, the statistics thread sleeps without a
  lock, and it is \<^verbatim>\<open>stop\<close> that joins it, if it was started.\<close>

datatype plain_run = PSpawn nat | PReset | PStats | PJoin | PReturned

datatype plain_stop = PIdle | PFlagged | PGuard | PJoining | PDone

datatype plain_stats = PUnstarted | PTest | PSleep | PLook | PReport | PEnded

record plain_life =
  prun :: plain_run
  pstop :: plain_stop
  pstats :: plain_stats
  pworkers :: "worker list"
  pflag :: bool
  pguard :: bool
  pio_stopped :: bool

definition init_plain :: "nat \<Rightarrow> plain_life" where
  "init_plain n = \<lparr>prun = PSpawn 0, pstop = PIdle, pstats = PUnstarted, pworkers = replicate n NoThread,
     pflag = False, pguard = True, pio_stopped = False\<rparr>"

inductive prun_step :: "plain_life \<Rightarrow> plain_life \<Rightarrow> bool" where
  pspawn: "prun s = PSpawn k \<Longrightarrow> k < length (pworkers s) \<Longrightarrow>
     prun_step s (s\<lparr>prun := PSpawn (Suc k), pworkers := (pworkers s)[k := Serving]\<rparr>)"
| pspawned: "prun s = PSpawn k \<Longrightarrow> length (pworkers s) \<le> k \<Longrightarrow> prun_step s (s\<lparr>prun := PReset\<rparr>)"
| preset: "prun s = PReset \<Longrightarrow> prun_step s (s\<lparr>prun := PStats, pflag := False\<rparr>)"
| pstart: "prun s = PStats \<Longrightarrow> prun_step s (s\<lparr>prun := PJoin, pstats := PTest\<rparr>)"
| pjoin: "prun s = PJoin \<Longrightarrow> pworkers s = replicate (length (pworkers s)) Ended \<Longrightarrow> prun_step s (s\<lparr>prun := PReturned\<rparr>)"

inductive pworker_step :: "plain_life \<Rightarrow> plain_life \<Rightarrow> bool" where
  "i < length (pworkers s) \<Longrightarrow> pworkers s ! i = Serving \<Longrightarrow> pio_stopped s \<or> \<not> pguard s \<Longrightarrow>
     pworker_step s (s\<lparr>pworkers := (pworkers s)[i := Ended]\<rparr>)"

inductive pstats_step :: "plain_life \<Rightarrow> plain_life \<Rightarrow> bool" where
  ptest: "pstats s = PTest \<Longrightarrow> pstats_step s (s\<lparr>pstats := (if pflag s then PEnded else PSleep)\<rparr>)"
| pslept: "pstats s = PSleep \<Longrightarrow> pstats_step s (s\<lparr>pstats := PLook\<rparr>)"
| plook: "pstats s = PLook \<Longrightarrow> pstats_step s (s\<lparr>pstats := (if pflag s then PEnded else PReport)\<rparr>)"
| preport: "pstats s = PReport \<Longrightarrow> pstats_step s (s\<lparr>pstats := PTest\<rparr>)"

inductive pstop_step :: "plain_life \<Rightarrow> plain_life \<Rightarrow> bool" where
  pflagged: "pstop s = PIdle \<Longrightarrow> pstop_step s (s\<lparr>pstop := PFlagged, pflag := True\<rparr>)"
| punguard: "pstop s = PFlagged \<Longrightarrow> pstop_step s (s\<lparr>pstop := PGuard, pguard := False\<rparr>)"
| pstop_io: "pstop s = PGuard \<Longrightarrow> pstop_step s (s\<lparr>pstop := PJoining, pio_stopped := True\<rparr>)"
| pjoined: "pstop s = PJoining \<Longrightarrow> pstats s = PUnstarted \<or> pstats s = PEnded \<Longrightarrow> pstop_step s (s\<lparr>pstop := PDone\<rparr>)"

definition plain_step :: "plain_life \<Rightarrow> plain_life \<Rightarrow> bool" where
  "plain_step s t \<longleftrightarrow> prun_step s t \<or> pworker_step s t \<or> pstats_step s t \<or> pstop_step s t"

inductive_cases prun_stepE: "prun_step s t"
inductive_cases pworker_stepE: "pworker_step s t"
inductive_cases pstats_stepE: "pstats_step s t"
inductive_cases pstop_stepE: "pstop_step s t"

lemmas plain_cases = prun_stepE pworker_stepE pstats_stepE pstop_stepE

definition plain_reach :: "nat \<Rightarrow> plain_life \<Rightarrow> bool" where
  "plain_reach n s \<longleftrightarrow> plain_step\<^sup>*\<^sup>* (init_plain n) s"

fun pafter :: "plain_run \<Rightarrow> bool" where
  "pafter (PSpawn _) = False"
| "pafter PReset = False"
| "pafter _ = True"

definition plain_late :: "plain_life \<Rightarrow> bool" where
  "plain_late s \<longleftrightarrow> pafter (prun s) \<and> pflag s"

definition plain_inv :: "plain_life \<Rightarrow> bool" where
  "plain_inv s \<longleftrightarrow>
     (\<forall>i < length (pworkers s). i < (case prun s of PSpawn k \<Rightarrow> k | _ \<Rightarrow> length (pworkers s)) \<longrightarrow> pworkers s ! i \<noteq> NoThread) \<and>
     (pstats s = PUnstarted \<longleftrightarrow> \<not> pafter (prun s) \<or> prun s = PStats) \<and>
     (pflag s \<longrightarrow> pstop s \<noteq> PIdle) \<and>
     (pstop s = PJoining \<or> pstop s = PDone \<longrightarrow> pio_stopped s)"

lemma init_plain_inv: "plain_inv (init_plain n)"
  by (simp add: plain_inv_def init_plain_def)

lemma prun_step_inv: "plain_inv s \<Longrightarrow> prun_step s t \<Longrightarrow> plain_inv t"
proof (erule prun_stepE, goal_cases)
  case (1 k)
  then show ?case by (simp add: plain_inv_def nth_list_update)
qed (simp_all add: plain_inv_def)

lemma pworker_step_inv: "plain_inv s \<Longrightarrow> pworker_step s t \<Longrightarrow> plain_inv t"
  by (erule pworker_stepE) (auto simp: plain_inv_def nth_list_update split: plain_run.splits)

lemma pstats_step_inv: "plain_inv s \<Longrightarrow> pstats_step s t \<Longrightarrow> plain_inv t"
  by (erule pstats_stepE) (auto simp: plain_inv_def split: plain_run.splits)

lemma pstop_step_inv: "plain_inv s \<Longrightarrow> pstop_step s t \<Longrightarrow> plain_inv t"
  by (erule pstop_stepE) (auto simp: plain_inv_def split: plain_run.splits)

lemma plain_step_inv: "plain_inv s \<Longrightarrow> plain_step s t \<Longrightarrow> plain_inv t"
  unfolding plain_step_def by (elim disjE) (rule prun_step_inv pworker_step_inv pstats_step_inv pstop_step_inv; assumption)+

lemma plain_reach_inv: "plain_reach n s \<Longrightarrow> plain_inv s"
  unfolding plain_reach_def by (induction rule: rtranclp_induct) (use init_plain_inv plain_step_inv in blast)+

lemma plain_late_kept: "plain_late s \<Longrightarrow> plain_step s t \<Longrightarrow> plain_late t"
  unfolding plain_step_def by (elim disjE plain_cases) (auto simp: plain_late_def)

fun prun_left :: "plain_run \<Rightarrow> nat" where
  "prun_left PStats = 10"
| "prun_left PJoin = 1"
| "prun_left _ = 0"

fun pstop_left :: "plain_stop \<Rightarrow> nat" where
  "pstop_left PFlagged = 3"
| "pstop_left PGuard = 2"
| "pstop_left PJoining = 1"
| "pstop_left _ = 0"

fun pstats_left :: "plain_stats \<Rightarrow> nat" where
  "pstats_left PSleep = 3"
| "pstats_left PLook = 1"
| "pstats_left PReport = 2"
| "pstats_left PTest = 1"
| "pstats_left _ = 0"

definition plain_left :: "plain_life \<Rightarrow> nat" where
  "plain_left s = prun_left (prun s) + pstop_left (pstop s) + pstats_left (pstats s)
     + length (filter (\<lambda>w. w \<noteq> Ended) (pworkers s))"

definition plain_over :: "plain_life \<Rightarrow> bool" where
  "plain_over s \<longleftrightarrow> prun s = PReturned \<and> pstop s = PDone \<and> (pstats s = PEnded)
     \<and> pworkers s = replicate (length (pworkers s)) Ended"


lemma plain_left_falls:
  assumes "plain_inv s" "plain_late s" "plain_step s t"
  shows "plain_left t < plain_left s"
proof -
  have "prun_step s t \<Longrightarrow> ?thesis" using assms by (elim prun_stepE) (auto simp: plain_left_def plain_late_def plain_inv_def)
  moreover have "pworker_step s t \<Longrightarrow> ?thesis" using assms by (elim pworker_stepE) (auto simp: plain_left_def filter_update_less)
  moreover have "pstats_step s t \<Longrightarrow> ?thesis" using assms by (elim pstats_stepE) (auto simp: plain_left_def plain_late_def)
  moreover have "pstop_step s t \<Longrightarrow> ?thesis" using assms by (elim pstop_stepE) (auto simp: plain_left_def plain_late_def plain_inv_def)
  ultimately show ?thesis using assms(3) by (auto simp: plain_step_def)
qed

lemma pstats_goes_on: "pstats s \<noteq> PUnstarted \<Longrightarrow> pstats s \<noteq> PEnded \<Longrightarrow> \<exists>t. pstats_step s t"
  by (cases "pstats s") (blast intro: pstats_step.intros)+

lemma pstop_goes_on: "pstop s \<noteq> PDone \<Longrightarrow> pstats s = PEnded \<Longrightarrow> \<exists>t. pstop_step s t"
  by (cases "pstop s") (blast intro: pstop_step.intros)+

lemma pworkers_go_on:
  assumes "plain_inv s" "pafter (prun s)" "pio_stopped s" "pworkers s \<noteq> replicate (length (pworkers s)) Ended"
  shows "\<exists>t. pworker_step s t"
proof -
  have "\<forall>i < length (pworkers s). pworkers s ! i \<noteq> NoThread"
    using assms(1,2) by (cases "prun s") (auto simp: plain_inv_def)
  from serving_exists [OF this assms(4)] assms(3) show ?thesis by (blast intro: pworker_step.intros)
qed

lemma plain_goes_on:
  assumes "plain_inv s" "plain_late s" "\<not> plain_over s"
  shows "\<exists>t. plain_step s t"
proof (rule ccontr)
  assume stuck: "\<nexists>t. plain_step s t"
  from assms(2) have r: "pafter (prun s)" by (simp add: plain_late_def)
  have "prun s \<noteq> PStats" using stuck prun_step.pstart by (auto simp: plain_step_def)
  then have "pstats s \<noteq> PUnstarted" using assms(1) r by (simp add: plain_inv_def)
  then have st: "pstats s = PEnded" using stuck pstats_goes_on by (auto simp: plain_step_def)
  then have so: "pstop s = PDone" using stuck pstop_goes_on [of s] by (auto simp: plain_step_def)
  then have "pio_stopped s" using assms(1) by (simp add: plain_inv_def)
  then have w: "pworkers s = replicate (length (pworkers s)) Ended"
    using stuck pworkers_go_on [OF assms(1) r] by (auto simp: plain_step_def)
  have "prun s \<noteq> PJoin" using stuck prun_step.pjoin [OF _ w] by (auto simp: plain_step_def)
  with r \<open>prun s \<noteq> PStats\<close> have "prun s = PReturned" by (cases "prun s") auto
  with st so w assms(3) show False by (simp add: plain_over_def)
qed

interpretation plain_life: ending_machine plain_step "\<lambda>s. plain_inv s \<and> plain_late s" plain_left plain_over
  using plain_step_inv plain_late_kept plain_left_falls plain_goes_on by unfold_locales blast+

lemma plain_reach_init: "plain_reach n (init_plain n)"
  by (simp add: plain_reach_def)

lemma plain_reach_step: "plain_reach n s \<Longrightarrow> plain_step s t \<Longrightarrow> plain_reach n t"
  by (simp add: plain_reach_def)

text \<open>The same for the plain server: a \<^verbatim>\<open>stop\<close> after \<^verbatim>\<open>run\<close> has cleared the flag ends everything.\<close>

lemma plain_stop_ends_run:
  assumes "plain_reach n s" "plain_late s" "(plain_step ^^ k) s t"
  shows "k \<le> plain_left s \<and> ((\<forall>u. \<not> plain_step t u) \<longrightarrow> plain_over t)"
  using plain_life.runs_end [OF assms(3)] plain_reach_inv [OF assms(1)] assms(2) by auto

text \<open>But \<^verbatim>\<open>run\<close> does not wait for the statistics thread: it can return while \<^verbatim>\<open>stop\<close> is still joining that
  thread, and a caller that then destroys the server takes away the members that both use.\<close>

lemma plain_run_returns_early:
  "plain_reach 1 \<lparr>prun = PReturned, pstop = PJoining, pstats = PSleep, pworkers = [Ended],
     pflag = True, pguard = False, pio_stopped = True\<rparr>"
proof -
  let ?s = "\<lambda>r p c w f g i. \<lparr>prun = r, pstop = p, pstats = c, pworkers = [w], pflag = f, pguard = g, pio_stopped = i\<rparr>"
  note steps = plain_step_def prun_step.simps pworker_step.simps pstats_step.simps pstop_step.simps
  note r = plain_reach_step [of 1]
  have 0: "plain_reach 1 (?s (PSpawn 0) PIdle PUnstarted NoThread False True False)"
    using plain_reach_init [of 1] by (simp add: init_plain_def)
  have 1: "plain_step (?s (PSpawn 0) PIdle PUnstarted NoThread False True False) (?s (PSpawn 1) PIdle PUnstarted Serving False True False)"
    by (simp add: steps)
  have 2: "plain_step (?s (PSpawn 1) PIdle PUnstarted Serving False True False) (?s PReset PIdle PUnstarted Serving False True False)"
    by (simp add: steps)
  have 3: "plain_step (?s PReset PIdle PUnstarted Serving False True False) (?s PStats PIdle PUnstarted Serving False True False)"
    by (simp add: steps)
  have 4: "plain_step (?s PStats PIdle PUnstarted Serving False True False) (?s PJoin PIdle PTest Serving False True False)"
    by (simp add: steps)
  have 5: "plain_step (?s PJoin PIdle PTest Serving False True False) (?s PJoin PIdle PSleep Serving False True False)"
    by (simp add: steps)
  have 6: "plain_step (?s PJoin PIdle PSleep Serving False True False) (?s PJoin PFlagged PSleep Serving True True False)"
    by (simp add: steps)
  have 7: "plain_step (?s PJoin PFlagged PSleep Serving True True False) (?s PJoin PGuard PSleep Serving True False False)"
    by (simp add: steps)
  have 8: "plain_step (?s PJoin PGuard PSleep Serving True False False) (?s PJoin PJoining PSleep Serving True False True)"
    by (simp add: steps)
  have 9: "plain_step (?s PJoin PJoining PSleep Serving True False True) (?s PJoin PJoining PSleep Ended True False True)"
    by (simp add: steps)
  have 10: "plain_step (?s PJoin PJoining PSleep Ended True False True) (?s PReturned PJoining PSleep Ended True False True)"
    by (simp add: steps)
  show ?thesis
    by (rule r [OF r [OF r [OF r [OF r [OF r [OF r [OF r [OF r [OF r [OF 0 1] 2] 3] 4] 5] 6] 7] 8] 9] 10])
qed

subsection \<open>The WebSocket server\<close>

text \<open>\<^verbatim>\<open>WebSocketServer::run\<close> and \<^verbatim>\<open>stop\<close>: no statistics thread and no flag. The sessions are in \<^verbatim>\<open>WebSocketServer\<close>.\<close>

datatype ws_run_pc = WSpawn nat | WJoin | WReturned

datatype ws_stop_pc = WIdle | WClosedAll | WUnguarded | WStopped

record ws_life =
  wrun :: ws_run_pc
  wstop :: ws_stop_pc
  wworkers :: "worker list"
  wguard :: bool
  wio_stopped :: bool

definition init_ws_life :: "nat \<Rightarrow> ws_life" where
  "init_ws_life n = \<lparr>wrun = WSpawn 0, wstop = WIdle, wworkers = replicate n NoThread, wguard = True, wio_stopped = False\<rparr>"

inductive wrun_step :: "ws_life \<Rightarrow> ws_life \<Rightarrow> bool" where
  wspawn: "wrun s = WSpawn k \<Longrightarrow> k < length (wworkers s) \<Longrightarrow>
     wrun_step s (s\<lparr>wrun := WSpawn (Suc k), wworkers := (wworkers s)[k := Serving]\<rparr>)"
| wspawned: "wrun s = WSpawn k \<Longrightarrow> length (wworkers s) \<le> k \<Longrightarrow> wrun_step s (s\<lparr>wrun := WJoin\<rparr>)"
| wjoin: "wrun s = WJoin \<Longrightarrow> wworkers s = replicate (length (wworkers s)) Ended \<Longrightarrow> wrun_step s (s\<lparr>wrun := WReturned\<rparr>)"

inductive wworker_step :: "ws_life \<Rightarrow> ws_life \<Rightarrow> bool" where
  "i < length (wworkers s) \<Longrightarrow> wworkers s ! i = Serving \<Longrightarrow> wio_stopped s \<or> \<not> wguard s \<Longrightarrow>
     wworker_step s (s\<lparr>wworkers := (wworkers s)[i := Ended]\<rparr>)"

inductive wstop_step :: "ws_life \<Rightarrow> ws_life \<Rightarrow> bool" where
  wclose_all: "wstop s = WIdle \<Longrightarrow> wstop_step s (s\<lparr>wstop := WClosedAll\<rparr>)"
| wunguard: "wstop s = WClosedAll \<Longrightarrow> wstop_step s (s\<lparr>wstop := WUnguarded, wguard := False\<rparr>)"
| wstop_io: "wstop s = WUnguarded \<Longrightarrow> wstop_step s (s\<lparr>wstop := WStopped, wio_stopped := True\<rparr>)"

definition wlife_step :: "ws_life \<Rightarrow> ws_life \<Rightarrow> bool" where
  "wlife_step s t \<longleftrightarrow> wrun_step s t \<or> wworker_step s t \<or> wstop_step s t"

inductive_cases wrun_stepE: "wrun_step s t"
inductive_cases wworker_stepE: "wworker_step s t"
inductive_cases wstop_stepE: "wstop_step s t"

definition wspawned_upto :: "ws_life \<Rightarrow> nat" where
  "wspawned_upto s = (case wrun s of WSpawn k \<Rightarrow> min k (length (wworkers s)) | _ \<Rightarrow> length (wworkers s))"

definition ws_life_inv :: "ws_life \<Rightarrow> bool" where
  "ws_life_inv s \<longleftrightarrow>
     (\<forall>i < length (wworkers s). wworkers s ! i = NoThread \<longleftrightarrow> wspawned_upto s \<le> i) \<and> (wstop s = WStopped \<longrightarrow> wio_stopped s)"

lemma init_ws_life_inv: "ws_life_inv (init_ws_life n)"
  by (simp add: ws_life_inv_def init_ws_life_def wspawned_upto_def)

lemma wrun_step_inv: "ws_life_inv s \<Longrightarrow> wrun_step s t \<Longrightarrow> ws_life_inv t"
proof (erule wrun_stepE, goal_cases)
  case (1 k)
  then show ?case by (auto simp: ws_life_inv_def wspawned_upto_def nth_list_update)
qed (auto simp: ws_life_inv_def wspawned_upto_def)

lemma wworker_step_inv: "ws_life_inv s \<Longrightarrow> wworker_step s t \<Longrightarrow> ws_life_inv t"
  by (erule wworker_stepE) (auto simp: ws_life_inv_def wspawned_upto_def nth_list_update split: ws_run_pc.splits)

lemma wstop_step_inv: "ws_life_inv s \<Longrightarrow> wstop_step s t \<Longrightarrow> ws_life_inv t"
  by (erule wstop_stepE) (auto simp: ws_life_inv_def wspawned_upto_def split: ws_run_pc.splits)

lemma wlife_step_inv: "ws_life_inv s \<Longrightarrow> wlife_step s t \<Longrightarrow> ws_life_inv t"
  unfolding wlife_step_def by (elim disjE) (rule wrun_step_inv wworker_step_inv wstop_step_inv; assumption)+

definition ws_life_left :: "ws_life \<Rightarrow> nat" where
  "ws_life_left s =
     (case wrun s of WSpawn k \<Rightarrow> 2 * (length (wworkers s) - k) + 2 | WJoin \<Rightarrow> 1 | WReturned \<Rightarrow> 0)
     + (case wstop s of WIdle \<Rightarrow> 3 | WClosedAll \<Rightarrow> 2 | WUnguarded \<Rightarrow> 1 | WStopped \<Rightarrow> 0)
     + length (filter (\<lambda>w. w \<noteq> Ended) (wworkers s))"

definition ws_life_over :: "ws_life \<Rightarrow> bool" where
  "ws_life_over s \<longleftrightarrow> wrun s = WReturned \<and> wstop s = WStopped \<and> wworkers s = replicate (length (wworkers s)) Ended"

lemma filter_update_same:
  "i < length xs \<Longrightarrow> P (xs ! i) \<Longrightarrow> P y \<Longrightarrow> length (filter P (xs[i := y])) = length (filter P xs)"
proof (induction xs arbitrary: i)
  case (Cons x xs)
  then show ?case by (cases i) auto
qed simp

lemma ws_life_left_falls:
  assumes "ws_life_inv s" "wlife_step s t"
  shows "ws_life_left t < ws_life_left s"
proof -
  have "wrun_step s t \<Longrightarrow> ?thesis" using assms(1)
  proof (elim wrun_stepE, goal_cases)
    case (1 k)
    then have "wworkers s ! k \<noteq> Ended" by (auto simp: ws_life_inv_def wspawned_upto_def)
    with 1 show ?case by (simp add: ws_life_left_def filter_update_same)
  qed (auto simp: ws_life_left_def)
  moreover have "wworker_step s t \<Longrightarrow> ?thesis" by (elim wworker_stepE) (cases "wrun s"; auto simp: ws_life_left_def filter_update_less)
  moreover have "wstop_step s t \<Longrightarrow> ?thesis" by (elim wstop_stepE) (cases "wrun s"; auto simp: ws_life_left_def)+
  ultimately show ?thesis using assms(2) by (auto simp: wlife_step_def)
qed


lemma wlife_goes_on:
  assumes "ws_life_inv s" "\<not> ws_life_over s"
  shows "\<exists>t. wlife_step s t"
proof (rule ccontr)
  assume stuck: "\<nexists>t. wlife_step s t"
  have so: "wstop s = WStopped"
    using stuck wstop_step.intros [of s] by (cases "wstop s") (auto simp: wlife_step_def)
  then have io: "wio_stopped s" using assms(1) by (simp add: ws_life_inv_def)
  have r: "wrun s = WJoin \<or> wrun s = WReturned"
    using stuck wrun_step.wspawn [of s] wrun_step.wspawned [of s]
    by (cases "wrun s") (auto simp: wlife_step_def, meson not_less)
  then have "\<forall>i < length (wworkers s). wworkers s ! i \<noteq> NoThread"
    using assms(1) by (auto simp: ws_life_inv_def wspawned_upto_def)
  then have w: "wworkers s = replicate (length (wworkers s)) Ended"
    using stuck serving_exists [of "wworkers s"] io wworker_step.intros [of _ s] by (auto simp: wlife_step_def)
  then have "wrun s \<noteq> WJoin" using stuck wrun_step.wjoin [OF _ w] by (auto simp: wlife_step_def)
  with r so w assms(2) show False by (simp add: ws_life_over_def)
qed

interpretation ws_threads: ending_machine wlife_step ws_life_inv ws_life_left ws_life_over
  using wlife_step_inv ws_life_left_falls wlife_goes_on by unfold_locales blast+

lemma ws_life_reach_inv: "wlife_step\<^sup>*\<^sup>* (init_ws_life n) s \<Longrightarrow> ws_life_inv s"
  by (induction rule: rtranclp_induct) (use init_ws_life_inv wlife_step_inv in blast)+

text \<open>The WebSocket server ends whenever \<^verbatim>\<open>stop\<close> is called, also before \<^verbatim>\<open>run\<close>: in every interleaving of a run and a
  stop, from any reachable state, a bounded number of steps is left and the last state has both returned.\<close>

theorem ws_stop_ends_run:
  assumes "wlife_step\<^sup>*\<^sup>* (init_ws_life n) s" "(wlife_step ^^ k) s t"
  shows "k \<le> ws_life_left s \<and> ((\<forall>u. \<not> wlife_step t u) \<longrightarrow> ws_life_over t)"
  using ws_threads.runs_end [OF assms(2) ws_life_reach_inv [OF assms(1)]] .

theorem ws_stop_ends_run_witness: "\<exists>k t. (wlife_step ^^ k) (init_ws_life 2) t \<and> k \<le> ws_life_left (init_ws_life 2) \<and> ws_life_over t"
proof -
  obtain t where t: "wlife_step\<^sup>*\<^sup>* (init_ws_life 2) t" "ws_life_over t"
    using ws_threads.final_reached [OF init_ws_life_inv] by blast
  then obtain k where k: "(wlife_step ^^ k) (init_ws_life 2) t" by (metis rtranclp_power)
  from ws_stop_ends_run [OF rtranclp.rtrancl_refl k] t k show ?thesis by blast
qed

subsection \<open>Accept loops\<close>

text \<open>\<^verbatim>\<open>accept_loop\<close> of the plain and of the WebSocket server: an accept error is thrown out of the coroutine, which was
  spawned detached, so the exception is dropped. The results of the accepts are a script; the loop gives
  the connections it spawns and whether it still accepts.\<close>

fun Server_accept_loop :: "(string + 'sock) list \<Rightarrow> 'sock list \<times> bool" where
  "Server_accept_loop [] = ([], True)"
| "Server_accept_loop (Inl e # rest) = ([], False)"
| "Server_accept_loop (Inr s # rest) = (case Server_accept_loop rest of (ss, on) \<Rightarrow> (s # ss, on))"

definition ws_accept_loop :: "(string + 'sock) list \<Rightarrow> 'sock list \<times> bool" where
  "ws_accept_loop script = Server_accept_loop script"

text \<open>The loops of the HTTPS server log the error and go on; here without the connection limit, which is in
  \<^verbatim>\<open>HttpsAccept\<close>.\<close>

fun https_accept_loop :: "(string + 'sock) list \<Rightarrow> 'sock list \<times> bool" where
  "https_accept_loop [] = ([], True)"
| "https_accept_loop (Inl e # rest) = https_accept_loop rest"
| "https_accept_loop (Inr s # rest) = (case https_accept_loop rest of (ss, on) \<Rightarrow> (s # ss, on))"

lemma https_accept_loop_all: "https_accept_loop script = (List.map_filter (\<lambda>x. case x of Inl _ \<Rightarrow> None | Inr s \<Rightarrow> Some s) script, True)"
  by (induction script rule: https_accept_loop.induct) (auto simp: map_filter_simps)

text \<open>One failed accept, for example because the process has no descriptor left for a moment, ends the accept
  loop of the plain and of the WebSocket server for good: they accept exactly the connections before it,
  stay up and accept nothing again, whereas the HTTPS server accepts every connection of the same script.\<close>

theorem accept_error_is_final:
  "Server_accept_loop (map Inr ss @ Inl e # rest) = (ss, False) \<and>
   ws_accept_loop (map Inr ss @ Inl e # rest) = (ss, False) \<and>
   https_accept_loop (map Inr ss @ Inl e # rest) = (ss @ fst (https_accept_loop rest), True)"
proof -
  have "Server_accept_loop (map Inr ss @ Inl e # rest) = (ss, False)" by (induction ss) auto
  moreover have "https_accept_loop (map Inr ss @ Inl e # rest) = (ss @ fst (https_accept_loop rest), True)"
    by (induction ss) (auto simp: https_accept_loop_all)
  ultimately show ?thesis by (simp add: ws_accept_loop_def)
qed


end
