(* ===== verification/HttpsAccept.thy ===== *)
theory HttpsAccept
  imports HttpsConfig
begin

text \<open>
  The concurrent part of the HTTPS server (\<^verbatim>\<open>src/HttpsServerConnection.cpp\<close>, \<^verbatim>\<open>src/HttpsServer.cpp\<close>): the accept
  coroutines that count and limit the connections, the connection coroutines whose guard gives the
  count back, and \<^verbatim>\<open>stop\<close>, which waits for the count to drop to zero. Each atomic access is one step;
  the steps of all coroutines and threads interleave in any order.
\<close>

subsection \<open>States\<close>

datatype acceptor =
    Accepting \<comment> \<open>in \<^verbatim>\<open>async_accept\<close>, or before it\<close>
  | Counted int \<comment> \<open>after \<^verbatim>\<open>fetch_add\<close>, with the value it returned\<close>
  | Stopped

datatype stopper =
    Running
  | Flagged \<comment> \<open>the flags are set, the drain wait not yet begun\<close>
  | Locked \<comment> \<open>holds the mutex, before the predicate\<close>
  | Refused \<comment> \<open>the predicate was false, still holds the mutex\<close>
  | Waiting \<comment> \<open>blocked on the condition variable, the mutex is free\<close>
  | Woken \<comment> \<open>notified, or woken for no reason; waits for the mutex\<close>
  | Late \<comment> \<open>the time is over; waits for the mutex\<close>
  | LockedLate \<comment> \<open>holds the mutex, before the last look at the predicate\<close>
  | Done bool \<comment> \<open>left the wait: drained or timed out\<close>

text \<open>\<^verbatim>\<open>shutdown_mutex_\<close>: free, held by \<^verbatim>\<open>stop\<close>, or by a connection that is about to notify or has done so.\<close>

datatype mutex = Free | ByStop | ByRelease bool

record srv =
  acceptors :: "acceptor list"
  connection_count :: int
  active :: nat \<comment> \<open>connection coroutines whose guard is still to run\<close>
  shutting_down :: bool
  stopper :: stopper
  shutdown_mutex :: mutex
  releasing :: nat \<comment> \<open>coroutines in \<^verbatim>\<open>release_connection\<close> that took the count to zero and wait for the mutex\<close>
  rejected_last :: bool \<comment> \<open>the count last became zero by a rejected accept\<close>

definition init_srv :: "nat \<Rightarrow> srv" where
  "init_srv n = \<lparr>acceptors = replicate n Accepting, connection_count = 0, active = 0, shutting_down = False,
     stopper = Running, shutdown_mutex = Free, releasing = 0, rejected_last = False\<rparr>"

subsection \<open>Steps\<close>

text \<open>The predicate of \<^verbatim>\<open>wait_for\<close>, evaluated with the mutex held: the wait is left, or the thread is about to block.\<close>

definition check_drained :: "srv \<Rightarrow> srv" where
  "check_drained s =
     (if connection_count s = 0 then s\<lparr>stopper := Done True, shutdown_mutex := Free\<rparr> else s\<lparr>stopper := Refused\<rparr>)"

text \<open>\<^verbatim>\<open>release_connection\<close>, run by the guard of every connection coroutine: the atomic decrement; the one that finds
  the count at one goes on to lock the mutex and notify.\<close>

definition release_connection :: "srv \<Rightarrow> srv" where
  "release_connection s =
     (let prev = connection_count s; s' = s\<lparr>connection_count := prev - 1\<rparr>
      in if prev = 1 then s'\<lparr>releasing := Suc (releasing s'), rejected_last := False\<rparr> else s')"

text \<open>\<^verbatim>\<open>notify_all\<close>: only a thread that is blocked is woken.\<close>

definition notify_all :: "srv \<Rightarrow> srv" where
  "notify_all s = s\<lparr>stopper := (if stopper s = Waiting then Woken else stopper s), shutdown_mutex := ByRelease True\<rparr>"

definition set_acceptor :: "nat \<Rightarrow> acceptor \<Rightarrow> srv \<Rightarrow> srv" where
  "set_acceptor i a s = s\<lparr>acceptors := (acceptors s)[i := a]\<rparr>"

text \<open>The second half of an accept: the limit check, then the coroutine is spawned or the socket closed.\<close>

definition dispatch :: "int \<Rightarrow> nat \<Rightarrow> int \<Rightarrow> srv \<Rightarrow> srv" where
  "dispatch max_conn i prev s =
     (if prev \<ge> max_conn
      then set_acceptor i Accepting (s\<lparr>connection_count := connection_count s - 1,
             rejected_last := (rejected_last s \<or> connection_count s = 1)\<rparr>)
      else set_acceptor i Accepting (s\<lparr>active := Suc (active s)\<rparr>))"

text \<open>The steps that bring a finished connection and the waiting \<^verbatim>\<open>stop\<close> together: locking and unlocking of the mutex,
  the notification, and what \<^verbatim>\<open>wait_for\<close> does with the mutex.\<close>

inductive signal_step :: "srv \<Rightarrow> srv \<Rightarrow> bool" where
  release_lock: "0 < releasing s \<Longrightarrow> shutdown_mutex s = Free \<Longrightarrow>
     signal_step s (s\<lparr>releasing := releasing s - 1, shutdown_mutex := ByRelease False\<rparr>)"
| release_notify: "shutdown_mutex s = ByRelease False \<Longrightarrow> signal_step s (notify_all s)"
| release_unlock: "shutdown_mutex s = ByRelease True \<Longrightarrow> signal_step s (s\<lparr>shutdown_mutex := Free\<rparr>)"
| stop_lock: "stopper s = Flagged \<or> stopper s = Woken \<Longrightarrow> shutdown_mutex s = Free \<Longrightarrow>
     signal_step s (s\<lparr>stopper := Locked, shutdown_mutex := ByStop\<rparr>)"
| stop_check: "stopper s = Locked \<Longrightarrow> signal_step s (check_drained s)"
| stop_block: "stopper s = Refused \<Longrightarrow> signal_step s (s\<lparr>stopper := Waiting, shutdown_mutex := Free\<rparr>)"

text \<open>All steps. \<open>accept_failed\<close> is the \<^verbatim>\<open>continue\<close> after an accept error; \<open>stop_spurious\<close> a wake-up without a reason.\<close>

inductive srv_step :: "int \<Rightarrow> srv \<Rightarrow> srv \<Rightarrow> bool" for max_conn :: int where
  accept: "i < length (acceptors s) \<Longrightarrow> acceptors s ! i = Accepting \<Longrightarrow>
     srv_step max_conn s (set_acceptor i (Counted (connection_count s)) (s\<lparr>connection_count := connection_count s + 1\<rparr>))"
| accept_failed: "i < length (acceptors s) \<Longrightarrow> acceptors s ! i = Accepting \<Longrightarrow> srv_step max_conn s s"
| accept_ended: "i < length (acceptors s) \<Longrightarrow> acceptors s ! i = Accepting \<Longrightarrow> shutting_down s \<Longrightarrow>
     srv_step max_conn s (set_acceptor i Stopped s)"
| dispatched: "i < length (acceptors s) \<Longrightarrow> acceptors s ! i = Counted prev \<Longrightarrow>
     srv_step max_conn s (dispatch max_conn i prev s)"
| connection_done: "0 < active s \<Longrightarrow> srv_step max_conn s (release_connection (s\<lparr>active := active s - 1\<rparr>))"
| stop_flags: "stopper s = Running \<Longrightarrow> srv_step max_conn s (s\<lparr>shutting_down := True, stopper := Flagged\<rparr>)"
| signal: "signal_step s t \<Longrightarrow> srv_step max_conn s t"
| stop_spurious: "stopper s = Waiting \<Longrightarrow> srv_step max_conn s (s\<lparr>stopper := Woken\<rparr>)"
| stop_timeout: "stopper s = Waiting \<Longrightarrow> srv_step max_conn s (s\<lparr>stopper := Late\<rparr>)"
| stop_lock_late: "stopper s = Late \<Longrightarrow> shutdown_mutex s = Free \<Longrightarrow>
     srv_step max_conn s (s\<lparr>stopper := LockedLate, shutdown_mutex := ByStop\<rparr>)"
| stop_give_up: "stopper s = LockedLate \<Longrightarrow>
     srv_step max_conn s (s\<lparr>stopper := Done (connection_count s = 0), shutdown_mutex := Free\<rparr>)"

inductive_cases signal_step_cases [elim]: "signal_step s t"
inductive_cases srv_step_cases [elim]: "srv_step m s t"

inductive srv_reach :: "int \<Rightarrow> nat \<Rightarrow> srv \<Rightarrow> bool" for max_conn :: int and n :: nat where
  start: "srv_reach max_conn n (init_srv n)"
| step: "srv_reach max_conn n s \<Longrightarrow> srv_step max_conn s t \<Longrightarrow> srv_reach max_conn n t"

subsection \<open>The invariant\<close>

fun counted :: "acceptor \<Rightarrow> bool" where
  "counted (Counted _) = True"
| "counted _ = False"

fun admitted :: "int \<Rightarrow> acceptor \<Rightarrow> bool" where
  "admitted m (Counted p) = (p < m)"
| "admitted m _ = False"

definition number :: "(acceptor \<Rightarrow> bool) \<Rightarrow> srv \<Rightarrow> nat" where
  "number P s = length (filter P (acceptors s))"

text \<open>The counter is the number of running connections plus the accepts between their two atomic
  accesses; those that will be admitted fit under the limit together with the running ones.\<close>

definition srv_inv :: "int \<Rightarrow> nat \<Rightarrow> srv \<Rightarrow> bool" where
  "srv_inv m n s \<longleftrightarrow> length (acceptors s) = n
     \<and> connection_count s = int (active s) + int (number counted s)
     \<and> int (active s) + int (number (admitted m) s) \<le> max m 0"

text \<open>\<^verbatim>\<open>stop\<close> holds the mutex exactly where it should.\<close>

definition mutex_inv :: "srv \<Rightarrow> bool" where
  "mutex_inv s \<longleftrightarrow> (shutdown_mutex s = ByStop \<longleftrightarrow> stopper s \<in> {Locked, Refused, LockedLate})"

text \<open>A connection on its way to notify.\<close>

definition notifier :: "srv \<Rightarrow> bool" where
  "notifier s \<longleftrightarrow> 0 < releasing s \<or> shutdown_mutex s = ByRelease False"

text \<open>When \<^verbatim>\<open>stop\<close> is about to block or blocked although the count is zero, a notification is still to come, unless the
  zero is that of a rejected accept.\<close>

definition wake_inv :: "srv \<Rightarrow> bool" where
  "wake_inv s \<longleftrightarrow> mutex_inv s \<and>
     (stopper s \<in> {Refused, Waiting} \<and> connection_count s = 0 \<and> \<not> rejected_last s \<longrightarrow> notifier s)"

lemma number_update:
  assumes "i < length (acceptors s)"
  shows "int (number P (set_acceptor i a s)) =
     int (number P s) - (if P (acceptors s ! i) then 1 else 0) + (if P a then 1 else 0)"
proof -
  have "length (filter P (xs[i := a])) + (if P (xs ! i) then 1 else 0) = length (filter P xs) + (if P a then 1 else 0)"
    if "i < length xs" for xs
    using that
  proof (induction xs arbitrary: i)
    case (Cons x xs)
    show ?case
    proof (cases i)
      case (Suc j)
      with Cons.prems have "j < length xs" by simp
      from Cons.IH [OF this] Suc show ?thesis by simp
    qed simp
  qed simp
  from this [OF assms] show ?thesis by (simp add: number_def set_acceptor_def split: if_splits)
qed

lemma number_le: "number (admitted m) s \<le> number counted s" "number P s \<le> length (acceptors s)"
proof -
  have "length (filter (admitted m) xs) \<le> length (filter counted xs)" for xs
  proof (induction xs)
    case (Cons x xs)
    then show ?case by (cases x) auto
  qed simp
  then show "number (admitted m) s \<le> number counted s" by (simp add: number_def)
qed (simp add: number_def)

lemma number_fields [simp]:
  "number P (s\<lparr>connection_count := c\<rparr>) = number P s" "number P (s\<lparr>active := k\<rparr>) = number P s"
  "number P (s\<lparr>shutting_down := b\<rparr>) = number P s" "number P (s\<lparr>stopper := x\<rparr>) = number P s"
  "number P (s\<lparr>shutdown_mutex := y\<rparr>) = number P s" "number P (s\<lparr>releasing := r\<rparr>) = number P s"
  "number P (s\<lparr>rejected_last := b\<rparr>) = number P s"
  by (simp_all add: number_def)

lemma set_acceptor_fields [simp]:
  "connection_count (set_acceptor i a s) = connection_count s" "active (set_acceptor i a s) = active s"
  "shutting_down (set_acceptor i a s) = shutting_down s" "stopper (set_acceptor i a s) = stopper s"
  "shutdown_mutex (set_acceptor i a s) = shutdown_mutex s" "releasing (set_acceptor i a s) = releasing s"
  "rejected_last (set_acceptor i a s) = rejected_last s" "length (acceptors (set_acceptor i a s)) = length (acceptors s)"
  by (simp_all add: set_acceptor_def)

lemma srv_inv_init: "srv_inv m n (init_srv n)"
  by (simp add: srv_inv_def init_srv_def number_def)

lemma srv_inv_signal: "signal_step s t \<Longrightarrow> srv_inv m n s \<Longrightarrow> srv_inv m n t"
  by (erule signal_step_cases) (simp_all add: srv_inv_def check_drained_def notify_all_def)

lemma srv_inv_step:
  assumes "srv_step m s t" "srv_inv m n s" shows "srv_inv m n t"
  using assms
proof (cases rule: srv_step.cases)
  case (accept i)
  then show ?thesis using assms(2) number_le(1) [of m s] by (simp add: srv_inv_def number_update)
next
  case (accept_ended i)
  then show ?thesis using assms(2) by (simp add: srv_inv_def number_update)
next
  case (dispatched i prev)
  then show ?thesis using assms(2) by (auto simp: srv_inv_def dispatch_def number_update)
next
  case connection_done
  then show ?thesis using assms(2) by (auto simp: srv_inv_def release_connection_def Let_def)
next
  case signal
  then show ?thesis using assms(2) srv_inv_signal by blast
qed (auto simp: srv_inv_def)

lemma wake_inv_signal: "signal_step s t \<Longrightarrow> wake_inv s \<Longrightarrow> wake_inv t"
  by (erule signal_step_cases) (auto simp: wake_inv_def mutex_inv_def notifier_def check_drained_def notify_all_def)

lemma wake_inv_step:
  assumes "srv_step m s t" "srv_inv m n s" "wake_inv s" shows "wake_inv t"
  using assms(1)
proof (cases rule: srv_step.cases)
  case (accept i)
  then show ?thesis using assms(2,3) by (auto simp: wake_inv_def mutex_inv_def notifier_def srv_inv_def)
next
  case (dispatched i prev)
  then show ?thesis using assms(3) by (auto simp: wake_inv_def mutex_inv_def notifier_def dispatch_def)
next
  case connection_done
  then show ?thesis using assms(3) by (auto simp: wake_inv_def mutex_inv_def notifier_def release_connection_def Let_def)
next
  case signal
  then show ?thesis using assms(3) wake_inv_signal by blast
qed (use assms(3) in \<open>auto simp: wake_inv_def mutex_inv_def notifier_def\<close>)

lemma srv_inv_reach: "srv_reach m n s \<Longrightarrow> srv_inv m n s"
  by (induction rule: srv_reach.induct) (auto intro: srv_inv_init srv_inv_step)

lemma wake_inv_reach: "srv_reach m n s \<Longrightarrow> wake_inv s"
proof (induction rule: srv_reach.induct)
  case (step s t)
  then show ?case using wake_inv_step srv_inv_reach by blast
qed (simp add: wake_inv_def mutex_inv_def init_srv_def)

subsection \<open>Draining\<close>

text \<open>The count is zero for good, and \<^verbatim>\<open>stop\<close> has not given up.\<close>

definition drain_inv :: "srv \<Rightarrow> bool" where
  "drain_inv s \<longleftrightarrow> wake_inv s \<and> connection_count s = 0 \<and> \<not> rejected_last s \<and>
     stopper s \<in> {Flagged, Locked, Refused, Waiting, Woken, Done True}"

fun stopper_left :: "stopper \<Rightarrow> nat" where
  "stopper_left Refused = 5"
| "stopper_left Waiting = 4"
| "stopper_left Woken = 3"
| "stopper_left Flagged = 3"
| "stopper_left Locked = 2"
| "stopper_left _ = 0"

fun mutex_left :: "mutex \<Rightarrow> nat" where
  "mutex_left (ByRelease notified) = (if notified then 1 else 2)"
| "mutex_left _ = 0"

definition signals_left :: "srv \<Rightarrow> nat" where
  "signals_left s = 3 * releasing s + mutex_left (shutdown_mutex s) + stopper_left (stopper s)"

lemma drain_inv_kept:
  assumes "drain_inv s" "signal_step s t"
  shows "drain_inv t"
proof -
  have "wake_inv t" using assms wake_inv_signal by (auto simp: drain_inv_def)
  moreover have "connection_count t = 0 \<and> \<not> rejected_last t \<and> stopper t \<in> {Flagged, Locked, Refused, Waiting, Woken, Done True}"
    using assms by (elim signal_step_cases) (auto simp: drain_inv_def check_drained_def notify_all_def)
  ultimately show ?thesis by (simp add: drain_inv_def)
qed

lemma signals_fall: "drain_inv s \<Longrightarrow> signal_step s t \<Longrightarrow> signals_left t < signals_left s"
  by (erule signal_step_cases) (auto simp: drain_inv_def signals_left_def check_drained_def notify_all_def)

lemma drain_goes_on:
  assumes "drain_inv s" "stopper s \<noteq> Done True"
  shows "\<exists>t. signal_step s t"
proof (cases "shutdown_mutex s")
  case Free
  then have "stopper s = Flagged \<or> stopper s = Woken \<or> 0 < releasing s"
    using assms by (auto simp: drain_inv_def wake_inv_def mutex_inv_def notifier_def)
  then show ?thesis using Free release_lock stop_lock by blast
next
  case ByStop
  then have "stopper s = Locked \<or> stopper s = Refused" using assms(1) by (auto simp: drain_inv_def wake_inv_def mutex_inv_def)
  then show ?thesis using stop_check stop_block by blast
next
  case (ByRelease notified)
  then show ?thesis using release_notify release_unlock by (cases notified) auto
qed

interpretation drain: ending_machine signal_step drain_inv signals_left "\<lambda>s. stopper s = Done True"
  using drain_inv_kept signals_fall drain_goes_on by unfold_locales blast+

lemma signals_left_bound: "signals_left s \<le> 3 * releasing s + 7"
proof -
  have "mutex_left (shutdown_mutex s) \<le> 2" by (cases "shutdown_mutex s") auto
  moreover have "stopper_left (stopper s) \<le> 5" by (cases "stopper s") auto
  ultimately show ?thesis by (simp add: signals_left_def)
qed

subsection \<open>Round-robin dispatch\<close>

text \<open>\<^verbatim>\<open>accept_and_dispatch\<close>: the worker of the next connection, \<^verbatim>\<open>worker_begin + (next++ % worker_count)\<close>, in
  \<^verbatim>\<open>int\<close> arithmetic.\<close>

definition worker_index :: "int32 \<Rightarrow> int32 \<Rightarrow> int32 \<Rightarrow> int32" where
  "worker_index worker_begin worker_count next = worker_begin + word_of_int (sint next smod sint worker_count)"

fun dispatch_indices :: "int32 \<Rightarrow> int32 \<Rightarrow> int32 \<Rightarrow> nat \<Rightarrow> int32 list" where
  "dispatch_indices wb wc next 0 = []"
| "dispatch_indices wb wc next (Suc k) = worker_index wb wc next # dispatch_indices wb wc (next + 1) k"

lemma worker_index_exact:
  assumes "0 < sint wc" "j < 2 ^ 31"
  shows "worker_index wb wc (word_of_nat j) = wb + word_of_nat (j mod nat (sint wc))"
proof -
  have "sint (word_of_nat j :: int32) = int j"
    using assms(2) sint_int32 [of "int j"] by simp
  then have "sint (word_of_nat j :: int32) smod sint wc = int (j mod nat (sint wc))"
    using assms(1) by (cases "j = 0") (simp_all add: signed_modulo_int_def zmod_int)
  then show ?thesis by (simp add: worker_index_def)
qed

lemma dispatch_indices_exact:
  assumes "0 < sint wc"
  shows "j + k \<le> 2 ^ 31 \<Longrightarrow> dispatch_indices wb wc (word_of_nat j) k =
    map (\<lambda>i. wb + word_of_nat (i mod nat (sint wc))) [j..<j + k]"
proof (induction k arbitrary: j)
  case (Suc k)
  have "dispatch_indices wb wc (word_of_nat j + 1) k = map (\<lambda>i. wb + word_of_nat (i mod nat (sint wc))) [Suc j..<Suc j + k]"
    using Suc.IH [of "Suc j"] Suc.prems by (simp add: add.commute)
  then show ?case using worker_index_exact [OF assms, of j wb] Suc.prems by (simp add: upt_conv_Cons del: upt.simps)
qed simp

lemma residue_count:
  assumes "w < n"
  shows "length (filter (\<lambda>i. i mod n = w) [0..<k]) = k div n + (if w < k mod n then 1 else 0)"
  using assms by (induction k) (auto simp: div_Suc mod_Suc)

lemma filter_length_cong: "(\<And>x. x \<in> set xs \<Longrightarrow> P x \<longleftrightarrow> Q x) \<Longrightarrow> length (filter P xs) = length (filter Q xs)"
  by (simp cong: filter_cong)

text \<open>States of a server with one acceptor.\<close>

definition one_acceptor :: "acceptor \<Rightarrow> int \<Rightarrow> nat \<Rightarrow> bool \<Rightarrow> stopper \<Rightarrow> srv" where
  "one_acceptor a c k b x = \<lparr>acceptors = [a], connection_count = c, active = k, shutting_down = b, stopper = x,
     shutdown_mutex = Free, releasing = 0, rejected_last = False\<rparr>"

lemma one_connection: "srv_reach 1 1 (one_acceptor Accepting 1 1 False Running)"
proof -
  have r0: "srv_reach 1 1 (one_acceptor Accepting 0 0 False Running)"
    using srv_reach.start [of 1 1] by (simp add: init_srv_def one_acceptor_def)
  have r1: "srv_reach 1 1 (one_acceptor (Counted 0) 1 0 False Running)"
    using srv_reach.step [OF r0 accept [of 0]] by (simp add: one_acceptor_def set_acceptor_def)
  show ?thesis
    using srv_reach.step [OF r1 dispatched [of 0]] by (simp add: one_acceptor_def set_acceptor_def dispatch_def)
qed

text \<open>\<^verbatim>\<open>stop\<close> finds connections left and blocks.\<close>

lemma stop_blocks:
  assumes "srv_reach m n (one_acceptor a (1 + int j) k b Flagged)"
  shows "srv_reach m n (one_acceptor a (1 + int j) k b Waiting)"
proof -
  have "srv_reach m n ((one_acceptor a (1 + int j) k b Locked)\<lparr>shutdown_mutex := ByStop\<rparr>)"
    using srv_reach.step [OF assms signal [OF stop_lock]] by (simp add: one_acceptor_def)
  from srv_reach.step [OF this signal [OF stop_check]]
  have "srv_reach m n ((one_acceptor a (1 + int j) k b Refused)\<lparr>shutdown_mutex := ByStop\<rparr>)"
    by (simp add: one_acceptor_def check_drained_def)
  from srv_reach.step [OF this signal [OF stop_block]] show ?thesis by (simp add: one_acceptor_def)
qed

subsection \<open>Properties\<close>

text \<open>C4: However the coroutines interleave, at most \<^verbatim>\<open>max_connections_\<close> connections are served at a time. The counter is
  the number of connections plus the accepts that are between counting and deciding, so it is never
  negative and exceeds the limit by at most the number of acceptors.\<close>

theorem connection_limit_respected:
  assumes "srv_reach m n s"
  shows "int (active s) \<le> max m 0 \<and> connection_count s = int (active s) + int (number counted s)
    \<and> 0 \<le> connection_count s \<and> connection_count s \<le> max m 0 + int n"
proof -
  have "srv_inv m n s" using assms by (rule srv_inv_reach)
  then show ?thesis using number_le(2) [of counted s] by (auto simp: srv_inv_def)
qed

text \<open>C18: No wake-up of \<^verbatim>\<open>stop\<close> is lost when the last connection ends: whenever \<^verbatim>\<open>stop\<close> has found connections left and is
  about to block or blocked, and the count has since dropped to zero by the end of a connection, then
  however the decrement, the locking of the mutex, the notification and the checks of the predicate
  interleave, at most three steps per finishing connection and seven more are left before \<^verbatim>\<open>stop\<close> leaves its wait with
  the server drained, without a time-out and provided no further connection is accepted. (A count that a rejected accept
  takes to zero wakes nobody.)\<close>

theorem last_connection_wakes:
  assumes "srv_reach m n s" "stopper s \<in> {Refused, Waiting}" "connection_count s = 0" "\<not> rejected_last s"
    and "(signal_step ^^ k) s t"
  shows "k \<le> 3 * releasing s + 7 \<and> ((\<forall>u. \<not> signal_step t u) \<longrightarrow> stopper t = Done True)"
proof -
  have "drain_inv s" using assms(2-4) wake_inv_reach [OF assms(1)] by (auto simp: drain_inv_def)
  then show ?thesis using drain.runs_end [OF assms(5)] signals_left_bound [of s] by fastforce
qed

text \<open>A rejected connection gives its count back without waking anyone: \<^verbatim>\<open>stop\<close> can be left waiting although
  no connection is left and none is being accepted, and then only the timeout or a spurious wake-up
  ends the wait.\<close>

theorem rejected_connection_lost_wakeup:
  "\<exists>s. srv_reach 1 1 s \<and> stopper s = Waiting \<and> connection_count s = 0 \<and> active s = 0 \<and> number counted s = 0 \<and> \<not> notifier s"
proof -
  have r3: "srv_reach 1 1 (one_acceptor (Counted 1) 2 1 False Running)"
    using srv_reach.step [OF one_connection accept [of 0]] by (simp add: one_acceptor_def set_acceptor_def)
  have r4: "srv_reach 1 1 (one_acceptor (Counted 1) 2 1 True Flagged)"
    using srv_reach.step [OF r3 stop_flags] by (simp add: one_acceptor_def)
  have r5: "srv_reach 1 1 (one_acceptor (Counted 1) 2 1 True Waiting)" using stop_blocks [where j = 1] r4 by simp
  have r6: "srv_reach 1 1 (one_acceptor (Counted 1) 1 0 True Waiting)"
    using srv_reach.step [OF r5 connection_done] by (simp add: one_acceptor_def release_connection_def)
  let ?s = "(one_acceptor Accepting 0 0 True Waiting)\<lparr>rejected_last := True\<rparr>"
  have "srv_reach 1 1 ?s"
    using srv_reach.step [OF r6 dispatched [of 0]] by (simp add: one_acceptor_def set_acceptor_def dispatch_def)
  moreover have "stopper ?s = Waiting" "connection_count ?s = 0" "active ?s = 0" "number counted ?s = 0" "\<not> notifier ?s"
    by (simp_all add: one_acceptor_def number_def notifier_def)
  ultimately show ?thesis by blast
qed

text \<open>Round-robin dispatch is in range and fair for the first \<open>2\<^sup>3\<^sup>1\<close> connections: of \<open>k\<close> connections every
  worker gets \<open>k div worker_count\<close>, the first \<open>k mod worker_count\<close> workers one more.\<close>

theorem dispatch_fair:
  assumes "0 < sint wc" "k \<le> 2 ^ 31" "w < nat (sint wc)"
  shows "length (filter (\<lambda>i. i = wb + word_of_nat w) (dispatch_indices wb wc 0 k)) =
      k div nat (sint wc) + (if w < k mod nat (sint wc) then 1 else 0)
    \<and> set (dispatch_indices wb wc 0 k) \<subseteq> (\<lambda>v. wb + word_of_nat v) ` {..<nat (sint wc)}"
proof -
  have idx: "dispatch_indices wb wc 0 k = map (\<lambda>i. wb + word_of_nat (i mod nat (sint wc))) [0..<k]"
    using dispatch_indices_exact [OF assms(1), of 0 k wb] assms(2) by simp
  have lt: "nat (sint wc) < 2 ^ 32" using int32_range [of wc] by auto
  have "wb + word_of_nat a = wb + (word_of_nat b :: int32) \<longleftrightarrow> a = b" if "a < nat (sint wc)" "b < nat (sint wc)" for a b
    using that lt by (simp add: word_of_nat_eq_iff take_bit_nat_eq_self)
  then have "length (filter (\<lambda>i. i = wb + word_of_nat w) (dispatch_indices wb wc 0 k)) =
      length (filter (\<lambda>i. i mod nat (sint wc) = w) [0..<k])"
    unfolding idx filter_map length_map comp_def using assms by (intro filter_length_cong) simp
  then show ?thesis using residue_count [OF assms(3), of k] assms(1) by (auto simp: idx)
qed

theorem connection_limit_respected_witness:
  "int (active (init_srv 4)) \<le> max 2 0 \<and> connection_count (init_srv 4) \<le> max 2 0 + int 4"
  using connection_limit_respected [OF srv_reach.start [of 2 4]] by simp

theorem last_connection_wakes_witness:
  "\<exists>k t. (signal_step ^^ k) ((one_acceptor Accepting 0 0 True Waiting)\<lparr>releasing := 1\<rparr>) t \<and> k \<le> 10 \<and> stopper t = Done True"
proof -
  let ?s = "(one_acceptor Accepting 0 0 True Waiting)\<lparr>releasing := 1\<rparr>"
  have r3: "srv_reach 1 1 (one_acceptor Accepting 1 1 True Flagged)"
    using srv_reach.step [OF one_connection stop_flags] by (simp add: one_acceptor_def)
  have r: "srv_reach 1 1 ?s"
    using srv_reach.step [OF stop_blocks [where j = 0, simplified, OF r3] connection_done] by (simp add: one_acceptor_def release_connection_def)
  have s: "stopper ?s \<in> {Refused, Waiting}" "connection_count ?s = 0" "\<not> rejected_last ?s" by (simp_all add: one_acceptor_def)
  have "drain_inv ?s" using s wake_inv_reach [OF r] by (auto simp: drain_inv_def)
  from drain.final_reached [OF this] obtain k t where t: "(signal_step ^^ k) ?s t" "stopper t = Done True"
    by (metis rtranclp_power)
  from last_connection_wakes [OF r s t(1)] t show ?thesis by (auto simp: one_acceptor_def)
qed

theorem dispatch_fair_witness:
  "length (filter (\<lambda>i. i = 0 + word_of_nat 1) (dispatch_indices 0 4 0 10)) = 3"
  using dispatch_fair [of 4 10 1 0] by simp

end
