(* ===== verification/HttpsTimers.thy ===== *)
theory HttpsTimers
  imports Prelude
begin

text \<open>
  The timers of a TLS connection and its teardown (\<^verbatim>\<open>handle_connection\<close> of \<^verbatim>\<open>src/HttpsServerConnection.cpp\<close>): the
  handshake timer, the idle timer and the timer of the TLS shutdown, whose handlers refer to the stream
  and to variables of the coroutine. The handlers and the coroutine run on one thread, so each of them is
  one step; a timer that has expired puts its handler into the queue of the thread, and cancelling the
  timer does not take it out again. At the end, the classes of errors that are logged.
\<close>

datatype timer = Handshake | Idle | Shutdown

datatype wait = Armed | Expired \<comment> \<open>queued with success\<close> | Aborted \<comment> \<open>queued with \<^verbatim>\<open>operation_aborted\<close>\<close>

datatype phase =
    Handshaking
  | Serving \<comment> \<open>in the keep-alive loop\<close>
  | Closing \<comment> \<open>in the TLS shutdown\<close>
  | Gone \<comment> \<open>the coroutine has ended and its frame is destroyed\<close>

record tls_conn =
  phase :: phase
  waits :: "(timer \<times> wait) list"
  sock_open :: bool
  timed_out :: bool
  dangling :: bool \<comment> \<open>a handler has used the destroyed frame\<close>

text \<open>\<^verbatim>\<open>cancel\<close>, \<^verbatim>\<open>expires_after\<close> and the destructor of a timer end the waits that have not expired.\<close>

definition cancel :: "timer \<Rightarrow> (timer \<times> wait) list \<Rightarrow> (timer \<times> wait) list" where
  "cancel t ws = map (\<lambda>(u, w). (u, if u = t \<and> w = Armed then Aborted else w)) ws"

text \<open>\<^verbatim>\<open>expires_after\<close> with \<^verbatim>\<open>async_wait\<close>.\<close>

definition arm :: "timer \<Rightarrow> (timer \<times> wait) list \<Rightarrow> (timer \<times> wait) list" where
  "arm t ws = cancel t ws @ [(t, Armed)]"

text \<open>A handler: with an error code it does nothing, otherwise it closes the socket, and the idle timer's
  sets \<^verbatim>\<open>timed_out\<close>. Both are gone with the coroutine.\<close>

definition run_handler :: "timer \<times> wait \<Rightarrow> tls_conn \<Rightarrow> tls_conn" where
  "run_handler h c =
     (case h of (t, w) \<Rightarrow>
        if w \<noteq> Expired then c
        else if phase c = Gone then c\<lparr>dangling := True\<rparr>
        else c\<lparr>sock_open := False, timed_out := (timed_out c \<or> t = Idle)\<rparr>)"

definition new_conn :: tls_conn where
  "new_conn = \<lparr>phase = Handshaking, waits = arm Handshake [], sock_open = True, timed_out = False, dangling = False\<rparr>"

text \<open>The coroutine. A request resets the idle timer; the loop ends for any of its reasons.\<close>

inductive coroutine_step :: "tls_conn \<Rightarrow> tls_conn \<Rightarrow> bool" where
  handshake_done: "phase c = Handshaking \<Longrightarrow> sock_open c \<Longrightarrow>
     coroutine_step c (c\<lparr>phase := Serving, waits := arm Idle (cancel Handshake (waits c))\<rparr>)"
| handshake_failed: "phase c = Handshaking \<Longrightarrow>
     coroutine_step c (c\<lparr>phase := Gone, waits := cancel Handshake (waits c), sock_open := False\<rparr>)"
| request_read: "phase c = Serving \<Longrightarrow> sock_open c \<Longrightarrow> \<not> timed_out c \<Longrightarrow>
     coroutine_step c (c\<lparr>waits := arm Idle (waits c)\<rparr>)"
| loop_left: "phase c = Serving \<Longrightarrow>
     coroutine_step c (c\<lparr>phase := Closing, waits := arm Shutdown (cancel Idle (waits c))\<rparr>)"
| closed: "phase c = Closing \<Longrightarrow>
     coroutine_step c (c\<lparr>phase := Gone, waits := cancel Shutdown (waits c), sock_open := False\<rparr>)"
| threw: "phase c = Serving \<Longrightarrow>
     coroutine_step c (c\<lparr>phase := Gone, waits := cancel Idle (waits c), sock_open := False\<rparr>)"

text \<open>The clock and the queue.\<close>

inductive queue_step :: "tls_conn \<Rightarrow> tls_conn \<Rightarrow> bool" where
  expires: "waits c = a @ (t, Armed) # b \<Longrightarrow> queue_step c (c\<lparr>waits := a @ (t, Expired) # b\<rparr>)"
| handled: "waits c = a @ (t, w) # b \<Longrightarrow> w \<noteq> Armed \<Longrightarrow> queue_step c (run_handler (t, w) (c\<lparr>waits := a @ b\<rparr>))"

definition conn_step :: "tls_conn \<Rightarrow> tls_conn \<Rightarrow> bool" where
  "conn_step c d \<longleftrightarrow> coroutine_step c d \<or> queue_step c d"

text \<open>The same with the restriction that the coroutine goes on only when no expired timer waits for its handler.\<close>

definition prompt_step :: "tls_conn \<Rightarrow> tls_conn \<Rightarrow> bool" where
  "prompt_step c d \<longleftrightarrow> coroutine_step c d \<and> (\<forall>h \<in> set (waits c). snd h \<noteq> Expired) \<or> queue_step c d"

inductive_cases coroutine_stepE: "coroutine_step c d"
inductive_cases queue_stepE: "queue_step c d"

subsection \<open>Errors that are logged\<close>

datatype conn_code = ConnectionReset | ConnectionAborted | EofCode | OperationAborted | BrokenPipe | StreamTruncated | OtherCode

datatype conn_exn = SystemError conn_code string | StdException string | UnknownException

fun connection_log :: "conn_exn \<Rightarrow> string option" where
  "connection_log (SystemError code text) =
     (if code \<noteq> ConnectionReset \<and> code \<noteq> ConnectionAborted \<and> code \<noteq> EofCode \<and> code \<noteq> OperationAborted
         \<and> code \<noteq> BrokenPipe \<and> code \<noteq> StreamTruncated
      then Some (''HTTPS connection error: '' @ text) else None)"
| "connection_log (StdException text) = Some (''HTTPS connection error: '' @ text)"
| "connection_log UnknownException = Some ''Unknown HTTPS connection error''"

subsection \<open>Which waits are left\<close>

fun live :: "phase \<Rightarrow> timer option" where
  "live Handshaking = Some Handshake"
| "live Serving = Some Idle"
| "live Closing = Some Shutdown"
| "live Gone = None"

text \<open>Only the timer of the current phase is armed.\<close>

definition armed_inv :: "tls_conn \<Rightarrow> bool" where
  "armed_inv c \<longleftrightarrow> (\<forall>(t, w) \<in> set (waits c). w = Armed \<longrightarrow> live (phase c) = Some t)"

lemma set_cancel: "set (cancel t ws) = (\<lambda>(u, w). (u, if u = t \<and> w = Armed then Aborted else w)) ` set ws"
  by (simp add: cancel_def)

lemma armed_cancel: "(u, Armed) \<in> set (cancel t ws) \<longleftrightarrow> u \<noteq> t \<and> (u, Armed) \<in> set ws"
  by (force simp: set_cancel image_iff split: if_splits)

lemma expired_cancel: "(u, Expired) \<in> set (cancel t ws) \<longleftrightarrow> (u, Expired) \<in> set ws"
  by (force simp: set_cancel image_iff split: if_splits)

lemma armed_inv_alt: "armed_inv c \<longleftrightarrow> (\<forall>t. (t, Armed) \<in> set (waits c) \<longrightarrow> live (phase c) = Some t)"
  by (auto simp: armed_inv_def)

lemma armed_inv_coroutine: "armed_inv c \<Longrightarrow> coroutine_step c d \<Longrightarrow> armed_inv d"
  by (erule coroutine_stepE) (auto simp: armed_inv_alt arm_def armed_cancel)

lemma run_handler_fields [simp]: "waits (run_handler h c) = waits c" "phase (run_handler h c) = phase c"
  by (auto simp: run_handler_def split: prod.splits)

lemma armed_inv_queue: "armed_inv c \<Longrightarrow> queue_step c d \<Longrightarrow> armed_inv d"
  by (erule queue_stepE) (simp_all add: armed_inv_alt, metis option.inject)

subsection \<open>Handlers of a connection that has ended\<close>

definition prompt_inv :: "tls_conn \<Rightarrow> bool" where
  "prompt_inv c \<longleftrightarrow> armed_inv c \<and> \<not> dangling c \<and> (phase c = Gone \<longrightarrow> (\<forall>t. (t, Expired) \<notin> set (waits c)))"

lemma prompt_inv_coroutine:
  assumes "prompt_inv c" "coroutine_step c d" "\<forall>h \<in> set (waits c). snd h \<noteq> Expired"
  shows "prompt_inv d"
proof -
  have n: "(t, Expired) \<notin> set (waits c)" for t using assms(3) by auto
  have "armed_inv d" using assms(1,2) armed_inv_coroutine by (auto simp: prompt_inv_def)
  moreover have "\<not> dangling d \<and> (phase d = Gone \<longrightarrow> (\<forall>t. (t, Expired) \<notin> set (waits d)))"
    using assms(1,2) n by (elim coroutine_stepE) (auto simp: prompt_inv_def expired_cancel)
  ultimately show ?thesis by (simp add: prompt_inv_def)
qed

lemma prompt_inv_queue:
  assumes "prompt_inv c" "queue_step c d"
  shows "prompt_inv d"
proof -
  have "armed_inv d" using assms armed_inv_queue by (auto simp: prompt_inv_def)
  moreover have "\<not> dangling d \<and> (phase d = Gone \<longrightarrow> (\<forall>t. (t, Expired) \<notin> set (waits d)))"
    using assms(2)
  proof (cases rule: queue_step.cases)
    case (expires a t b)
    then have "live (phase c) = Some t" using assms(1) by (auto simp: prompt_inv_def armed_inv_alt)
    then show ?thesis using expires assms(1) by (auto simp: prompt_inv_def)
  next
    case (handled a t w b)
    then show ?thesis using assms(1) by (auto simp: prompt_inv_def run_handler_def)
  qed
  ultimately show ?thesis by (simp add: prompt_inv_def)
qed

lemma new_conn_inv: "prompt_inv new_conn"
  by (simp add: prompt_inv_def armed_inv_alt new_conn_def arm_def cancel_def)

lemma prompt_reach_inv: "prompt_step\<^sup>*\<^sup>* new_conn c \<Longrightarrow> prompt_inv c"
proof (induction rule: rtranclp_induct)
  case (step c d)
  from step.hyps(2) show ?case unfolding prompt_step_def
    using prompt_inv_coroutine [OF step.IH] prompt_inv_queue [OF step.IH] by blast
qed (rule new_conn_inv)

lemma dangling_reachable: "\<exists>c. conn_step\<^sup>*\<^sup>* new_conn c \<and> dangling c"
proof -
  let ?a = "new_conn\<lparr>waits := [(Handshake, Expired)]\<rparr>"
  let ?b = "new_conn\<lparr>phase := Gone, waits := [(Handshake, Expired)], sock_open := False\<rparr>"
  let ?c = "new_conn\<lparr>phase := Gone, waits := [], sock_open := False, dangling := True\<rparr>"
  have 1: "conn_step new_conn ?a"
    using queue_step.expires [of new_conn "[]" Handshake "[]"] by (simp add: conn_step_def new_conn_def arm_def cancel_def)
  have 2: "conn_step ?a ?b"
    using coroutine_step.handshake_failed [of ?a] by (simp add: conn_step_def new_conn_def cancel_def)
  have 3: "conn_step ?b ?c"
    using queue_step.handled [of ?b "[]" Handshake Expired "[]"] by (simp add: conn_step_def run_handler_def new_conn_def)
  have "conn_step\<^sup>*\<^sup>* new_conn ?c"
    using r_into_rtranclp [of conn_step, OF 1] 2 3 by (meson rtranclp.rtrancl_into_rtrancl)
  then show ?thesis by (intro exI [of _ ?c]) simp
qed

text \<open>As long as the handler of an expired timer runs before the coroutine goes on, no handler ever runs after the
  connection has ended; but nothing in the code ensures that: when a timer expires just before the
  coroutine ends, cancelling it comes too late, and the queued handler uses the stream of a connection
  that no longer exists.\<close>

theorem expired_timer_race:
  "(\<forall>c. prompt_step\<^sup>*\<^sup>* new_conn c \<longrightarrow> \<not> dangling c) \<and> (\<exists>c. conn_step\<^sup>*\<^sup>* new_conn c \<and> dangling c)"
  using prompt_reach_inv dangling_reachable by (auto simp: prompt_inv_def)

theorem expired_timer_race_witness: "\<not> dangling new_conn"
  using conjunct1 [OF expired_timer_race] by blast


end
