(* ===== verification/Model.thy ===== *)
theory Model
  imports Database
begin

text \<open>
  \<^verbatim>\<open>include/brazier/Database/Models/Model.hpp\<close>, \<^verbatim>\<open>ModelQueryBuilder.hpp\<close> and \<^verbatim>\<open>Collection.hpp\<close>: the active-record layer.
  A model class is a record of its static members and hooks, a model its attributes. The database a
  model is bound to is threaded through explicitly; queries run on a connection of their own, as
  \<^verbatim>\<open>ModelQueryBuilder::get\<close> does.
\<close>

record model_class =
  table_name :: string
  fields_of :: "string list"
  fillable :: "string list"
  primary_key :: string

type_synonym model = "(string, string) std_map"

text \<open>The virtual hooks: they may change the attributes of the model, and an exception of \<^verbatim>\<open>afterSave\<close> is caught by \<^verbatim>\<open>save\<close>.\<close>

record hooks =
  validate :: "model \<Rightarrow> bool \<times> model"
  beforeSave :: "model \<Rightarrow> bool \<times> model"
  afterSave :: "model \<Rightarrow> exn option \<times> model"

text \<open>The hooks of \<^verbatim>\<open>Model\<close> itself.\<close>

definition no_hooks :: hooks where
  "no_hooks = \<lparr>validate = (\<lambda>a. (True, a)), beforeSave = (\<lambda>a. (True, a)), afterSave = (\<lambda>a. (None, a))\<rparr>"

subsection \<open>Attributes\<close>

definition isFillable :: "model_class \<Rightarrow> string \<Rightarrow> bool" where
  "isFillable C k \<longleftrightarrow> k \<in> set (fillable C)"

definition isField :: "model_class \<Rightarrow> string \<Rightarrow> bool" where
  "isField C k \<longleftrightarrow> k \<in> set (fields_of C)"

definition setAttribute :: "model_class \<Rightarrow> string \<Rightarrow> string \<Rightarrow> model \<Rightarrow> model" where
  "setAttribute C k v a = (if isField C k then smap_put k v a else a)"

definition getAttribute :: "string \<Rightarrow> model \<Rightarrow> string result" where
  "getAttribute k a =
     (case map_of a k of
        None \<Rightarrow> Inl (invalid_argument (''Attribute '' @ [CHR 0x27] @ k @ [CHR 0x27] @ '' not found.''))
      | Some v \<Rightarrow> Inr v)"

definition hasAttribute :: "string \<Rightarrow> model \<Rightarrow> bool" where
  "hasAttribute k a \<longleftrightarrow> map_of a k \<noteq> None"

fun create_from :: "model_class \<Rightarrow> bool \<Rightarrow> (string \<times> string) list \<Rightarrow> model \<Rightarrow> model" where
  "create_from C withFields [] a = a"
| "create_from C withFields ((k, v) # kvs) a =
     create_from C withFields kvs
       (if \<not> isField C k then a
        else if withFields \<or> isFillable C k then setAttribute C k v a else a)"

definition create :: "model_class \<Rightarrow> (string, string) std_map \<Rightarrow> bool \<Rightarrow> model" where
  "create C data withFields = create_from C withFields data []"

fun fill_model :: "model_class \<Rightarrow> (string, string) std_map \<Rightarrow> model \<Rightarrow> model" where
  "fill_model C [] a = a"
| "fill_model C ((k, v) # kvs) a = fill_model C kvs (if isFillable C k then setAttribute C k v a else a)"

definition toJson :: "model \<Rightarrow> json" where
  "toJson a = (if a = [] then JNull else JObj (map (\<lambda>(k, v). (k, JStr v)) a))"

definition Model_new :: model where
  "Model_new = []"

definition getAttributes :: "model \<Rightarrow> (string, string) std_map" where
  "getAttributes a = a"

definition model_index :: "model \<Rightarrow> string \<Rightarrow> string result" where
  "model_index a k = getAttribute k a"

definition debugPrintAttributes :: "model \<Rightarrow> string" where
  "debugPrintAttributes a = ''=== MODEL ATTRIBUTES ==='' @ [CHR 0x0A] @
     concat (map (\<lambda>(k, v). k @ '' = '' @ [CHR 0x27] @ v @ [CHR 0x27, CHR 0x0A]) a)"

text \<open>\<^verbatim>\<open>debugAttributes\<close> reads every declared field: the lines it logs, and the exception of the first that is
  not set.\<close>

fun debug_fields :: "string list \<Rightarrow> model \<Rightarrow> string list \<times> exn option" where
  "debug_fields [] a = ([], None)"
| "debug_fields (f # fs) a =
     (case getAttribute f a of
        Inl e \<Rightarrow> ([], Some e)
      | Inr v \<Rightarrow> (case debug_fields fs a of (ls, e) \<Rightarrow> ((''Field: '' @ f @ '' = '' @ v) # ls, e)))"

definition debugAttributes :: "model_class \<Rightarrow> model \<Rightarrow> string list \<times> exn option" where
  "debugAttributes C a = debug_fields (fields_of C) a"

lemma debugAttributes_throws: "(\<exists>f \<in> set (fields_of C). map_of a f = None) \<longleftrightarrow> snd (debugAttributes C a) \<noteq> None"
proof -
  have "(\<exists>f \<in> set fs. map_of a f = None) \<longleftrightarrow> snd (debug_fields fs a) \<noteq> None" for fs
    by (induction fs) (auto simp: getAttribute_def split: option.splits sum.splits prod.splits)
  then show ?thesis by (simp add: debugAttributes_def)
qed

subsection \<open>Queries\<close>

definition model_query :: "model_class \<Rightarrow> query_builder" where
  "model_query C = SQLQueryBuilder (table_name C)"

text \<open>\<^verbatim>\<open>ModelQueryBuilder\<close> forwards to the query builder and returns itself.\<close>

definition mq_Select :: "string list \<Rightarrow> query_builder \<Rightarrow> query_builder" where "mq_Select cols b = Select cols b"
definition mq_Select_one :: "string \<Rightarrow> query_builder \<Rightarrow> query_builder" where "mq_Select_one column b = Select [column] b"
definition mq_Select_cstr :: "string \<Rightarrow> query_builder \<Rightarrow> query_builder" where "mq_Select_cstr column b = Select [c_str column] b"
definition mq_Where :: "string \<Rightarrow> string \<Rightarrow> query_builder \<Rightarrow> query_builder" where "mq_Where condition op b = Where condition op b"
definition mq_OrderBy :: "(string, string) std_map \<Rightarrow> query_builder \<Rightarrow> query_builder" where "mq_OrderBy col_dir b = OrderBy col_dir b"
definition mq_Limit :: "int \<Rightarrow> query_builder \<Rightarrow> query_builder" where "mq_Limit v b = Limit v b"
definition mq_Offset :: "int \<Rightarrow> query_builder \<Rightarrow> query_builder" where "mq_Offset v b = Offset v b"
definition mq_getQuery :: "query_builder \<Rightarrow> string" where "mq_getQuery b = query_text b"

text \<open>\<^verbatim>\<open>ModelQueryBuilder::get\<close>: a new connection, the rows, a model of each with all valid fields.\<close>

definition get_models :: "'p pq \<Rightarrow> config \<Rightarrow> model_class \<Rightarrow> query_builder \<Rightarrow> model list result" where
  "get_models P g C b =
     bind_result (Database P g) (\<lambda>db.
       bind_result (fst (queryToVector P (query_text b) [] db)) (\<lambda>rows. Inr (map (\<lambda>row. create C row True) rows)))"

definition find_model :: "'p pq \<Rightarrow> config \<Rightarrow> model_class \<Rightarrow> int \<Rightarrow> model option" where
  "find_model P g C i =
     (case get_models P g C (Limit 1 (Where (primary_key C @ '' = '' @ show_int i) ''AND'' (model_query C))) of
        Inr [a] \<Rightarrow> Some a
      | _ \<Rightarrow> None)"

definition findOrFail :: "'p pq \<Rightarrow> config \<Rightarrow> model_class \<Rightarrow> int \<Rightarrow> model result" where
  "findOrFail P g C i =
     (case find_model P g C i of
        None \<Rightarrow> Inl (runtime_error (''Model with id '' @ show_int i @ '' not found''))
      | Some a \<Rightarrow> Inr a)"

definition where_models :: "'p pq \<Rightarrow> config \<Rightarrow> model_class \<Rightarrow> string \<Rightarrow> model list result" where
  "where_models P g C condition = get_models P g C (Where condition ''AND'' (model_query C))"

definition all_models :: "'p pq \<Rightarrow> config \<Rightarrow> model_class \<Rightarrow> model list result" where
  "all_models P g C = where_models P g C ''1 = 1''"

text \<open>\<^verbatim>\<open>belongsTo\<close> and \<^verbatim>\<open>hasMany\<close>; \<open>None\<close> is \<^verbatim>\<open>front()\<close> of an empty vector, undefined behaviour.\<close>

definition belongsTo :: "'p pq \<Rightarrow> config \<Rightarrow> model_class \<Rightarrow> string \<Rightarrow> string \<Rightarrow> model \<Rightarrow> model option result option" where
  "belongsTo P g R foreignKey ownerKey a =
     (case getAttribute foreignKey a of
        Inl e \<Rightarrow> Some (Inl e)
      | Inr v \<Rightarrow>
          if v = [] then Some (Inr None)
          else case where_models P g R (ownerKey @ '' = '' @ v) of
                 Inl e \<Rightarrow> Some (Inl e)
               | Inr [] \<Rightarrow> None
               | Inr (x # _) \<Rightarrow> Some (Inr (Some x)))"

definition hasMany :: "'p pq \<Rightarrow> config \<Rightarrow> model_class \<Rightarrow> string \<Rightarrow> string \<Rightarrow> model \<Rightarrow> model list result" where
  "hasMany P g R foreignKey localKey a =
     bind_result (getAttribute localKey a) (\<lambda>v.
       if v = [] then Inr [] else where_models P g R (foreignKey @ '' = '' @ v))"

text \<open>\<^verbatim>\<open>std::stoi\<close> is a parameter: \<open>None\<close> where it throws.\<close>

definition aggregate :: "'p pq \<Rightarrow> config \<Rightarrow> (string \<Rightarrow> int option) \<Rightarrow> model_class \<Rightarrow> string \<Rightarrow> string \<Rightarrow> string \<Rightarrow> int result" where
  "aggregate P g stoi C column name condition =
     bind_result (get_models P g C (Where condition ''AND'' (Select [column] (model_query C)))) (\<lambda>results.
       case results of
         [] \<Rightarrow> Inr 0
       | a # _ \<Rightarrow> bind_result (getAttribute name a) (\<lambda>v.
           case stoi v of None \<Rightarrow> Inl (invalid_argument ''stoi'') | Some n \<Rightarrow> Inr n))"

definition count_models :: "'p pq \<Rightarrow> config \<Rightarrow> (string \<Rightarrow> int option) \<Rightarrow> model_class \<Rightarrow> string \<Rightarrow> int result" where
  "count_models P g stoi C condition = aggregate P g stoi C ''COUNT(*) as total'' ''total'' condition"

definition max_models :: "'p pq \<Rightarrow> config \<Rightarrow> (string \<Rightarrow> int option) \<Rightarrow> model_class \<Rightarrow> string \<Rightarrow> string \<Rightarrow> int result" where
  "max_models P g stoi C column condition = aggregate P g stoi C (''MAX('' @ column @ '') as max'') ''max'' condition"

definition sum_models :: "'p pq \<Rightarrow> config \<Rightarrow> (string \<Rightarrow> int option) \<Rightarrow> model_class \<Rightarrow> string \<Rightarrow> string \<Rightarrow> int result" where
  "sum_models P g stoi C column condition = aggregate P g stoi C (''SUM('' @ column @ '') as sum'') ''sum'' condition"

definition paginate :: "'p pq \<Rightarrow> config \<Rightarrow> (string \<Rightarrow> int option) \<Rightarrow> model_class \<Rightarrow> int \<Rightarrow> int \<Rightarrow> string \<Rightarrow> (model list \<times> int) result" where
  "paginate P g stoi C page perPage condition =
     bind_result (get_models P g C (Offset ((page - 1) * perPage) (Limit perPage (Where condition ''AND'' (model_query C))))) (\<lambda>items.
       bind_result (count_models P g stoi C condition) (\<lambda>total. Inr (items, total)))"

subsection \<open>Saving and deleting\<close>

definition escaped :: "'p pq \<Rightarrow> (string, string) std_map \<Rightarrow> (string, string) std_map" where
  "escaped P kvs = map (\<lambda>(k, v). (k, EscapeString (pq_literal P) v)) kvs"

text \<open>\<^verbatim>\<open>validate\<close> and \<^verbatim>\<open>beforeSave\<close>: whether to go on, and the attributes then.\<close>

definition before_hooks :: "hooks \<Rightarrow> model \<Rightarrow> bool \<times> model" where
  "before_hooks H a = (case validate H a of (ok, a1) \<Rightarrow> if ok then beforeSave H a1 else (False, a1))"

text \<open>The end of both \<^verbatim>\<open>try\<close> blocks: the row is stored, but a hook that throws makes \<^verbatim>\<open>save\<close> return false.\<close>

definition saved :: "hooks \<Rightarrow> model \<Rightarrow> 'p database \<Rightarrow> bool \<times> model \<times> 'p database" where
  "saved H a db = (case afterSave H a of (e, a') \<Rightarrow> (e = None, a', db))"

text \<open>Inserting a new row: \<^verbatim>\<open>queryMap\<close> of the statement with \<^verbatim>\<open>RETURNING\<close>, and the key taken over.\<close>

definition save_new :: "'p pq \<Rightarrow> hooks \<Rightarrow> model_class \<Rightarrow> (string, string) std_map \<Rightarrow> model \<Rightarrow> 'p database \<Rightarrow> bool \<times> model \<times> 'p database" where
  "save_new P H C vals a db =
     (let sql = query_text (Insert vals (SQLQueryBuilder (table_name C))) @ '' RETURNING '' @ primary_key C
      in case queryMap P sql [] db of
           (Inl e, db') \<Rightarrow> (False, a, db')
         | (Inr row, db') \<Rightarrow>
             saved H (case map_of row (primary_key C) of None \<Rightarrow> a | Some v \<Rightarrow> smap_put (primary_key C) v a) db')"

definition model_save :: "'p pq \<Rightarrow> hooks \<Rightarrow> model_class \<Rightarrow> model \<Rightarrow> 'p database \<Rightarrow> bool \<times> model \<times> 'p database" where
  "model_save P H C a0 db =
     (case before_hooks H a0 of (ok, a) \<Rightarrow>
        if \<not> ok \<or> a = [] then (False, a, db)
        else let hasId = (case map_of a (primary_key C) of None \<Rightarrow> False | Some v \<Rightarrow> v \<noteq> []);
                 vals = escaped P (filter (\<lambda>(k, v). k \<noteq> primary_key C) a)
             in if vals = [] then (False, a, db)
                else if hasId
                then (case execute P (query_text (Where (primary_key C @ '' = '' @ the (map_of a (primary_key C))) ''AND''
                             (Update vals (SQLQueryBuilder (table_name C))))) db of
                        (Inl e, db') \<Rightarrow> (False, a, db')
                      | (Inr _, db') \<Rightarrow> saved H a db')
                else save_new P H C vals a db)"

definition update_model :: "'p pq \<Rightarrow> model_class \<Rightarrow> int \<Rightarrow> (string, string) std_map \<Rightarrow> 'p database \<Rightarrow> 'p database" where
  "update_model P C i data db =
     (let vals = escaped P (filter (\<lambda>(k, v). isField C k) data)
      in if vals = [] then db
         else snd (execute P (query_text (Where (''id = '' @ EscapeString (pq_literal P) (show_int i)) ''AND''
                (Update vals (SQLQueryBuilder (table_name C))))) db))"

definition delete_sql :: "model_class \<Rightarrow> string \<Rightarrow> string" where
  "delete_sql C condition = query_text (Where condition ''AND'' (Delete_q (SQLQueryBuilder (table_name C))))"

text \<open>\<^verbatim>\<open>delete_\<close> logs every failure and returns nothing.\<close>

definition delete_model :: "'p pq \<Rightarrow> model_class \<Rightarrow> model \<Rightarrow> 'p database \<Rightarrow> 'p database" where
  "delete_model P C a db =
     (case getAttribute ''id'' a of
        Inl e \<Rightarrow> db
      | Inr v \<Rightarrow> if v = [] then db
               else snd (execute P (delete_sql C (''id = '' @ EscapeString (pq_literal P) v)) db))"

definition deleteById :: "'p pq \<Rightarrow> model_class \<Rightarrow> int \<Rightarrow> 'p database \<Rightarrow> 'p database" where
  "deleteById P C i db = snd (execute P (delete_sql C (''id = '' @ EscapeString (pq_literal P) (show_int i))) db)"

definition deleteWhere :: "'p pq \<Rightarrow> model_class \<Rightarrow> string \<Rightarrow> 'p database \<Rightarrow> bool \<times> 'p database" where
  "deleteWhere P C condition db =
     (case execute P (delete_sql C condition) db of (Inl e, db') \<Rightarrow> (False, db') | (Inr _, db') \<Rightarrow> (True, db'))"

subsection \<open>Saving many models\<close>

definition has_key :: "model_class \<Rightarrow> model \<Rightarrow> bool" where
  "has_key C a = (case getAttribute (primary_key C) a of Inl e \<Rightarrow> False | Inr v \<Rightarrow> v \<noteq> [])"

text \<open>The fields, other than the key, that are set to a non-empty value.\<close>

definition set_fields :: "model_class \<Rightarrow> model \<Rightarrow> string list" where
  "set_fields C a =
     filter (\<lambda>k. k \<noteq> primary_key C \<and> (case getAttribute k a of Inl e \<Rightarrow> False | Inr v \<Rightarrow> v \<noteq> [])) (fields_of C)"

definition update_sql :: "'p pq \<Rightarrow> model_class \<Rightarrow> model \<Rightarrow> string" where
  "update_sql P C a =
     (let upd = smap_put_all (map (\<lambda>k. (k, the (map_of a k))) (set_fields C a)) []
      in if upd = [] then []
         else query_text (Where (primary_key C @ '' = '' @ EscapeString (pq_literal P) (the (map_of a (primary_key C)))) ''AND''
                (Update (escaped P upd) (SQLQueryBuilder (table_name C)))) @ ''; '')"

text \<open>One row of the insert; a model without one of the columns throws.\<close>

fun row_values :: "'p pq \<Rightarrow> string list \<Rightarrow> model \<Rightarrow> string list result" where
  "row_values P [] a = Inr []"
| "row_values P (c # cs) a =
     bind_result (getAttribute c a) (\<lambda>v. bind_result (row_values P cs a) (\<lambda>vs. Inr (EscapeString (pq_literal P) v # vs)))"

fun insert_rows :: "'p pq \<Rightarrow> string list \<Rightarrow> model list \<Rightarrow> string list result" where
  "insert_rows P cols [] = Inr []"
| "insert_rows P cols (a # as) =
     bind_result (row_values P cols a) (\<lambda>vs. bind_result (insert_rows P cols as) (\<lambda>rows. Inr ((''('' @ join '', '' vs @ '')'') # rows)))"

definition insert_sql :: "model_class \<Rightarrow> string list \<Rightarrow> string list \<Rightarrow> string" where
  "insert_sql C cols rows =
     ''INSERT INTO '' @ table_name C @ '' ('' @ join '', '' cols @ '') VALUES '' @ join '', '' rows @ '';''"

definition saveMany_insert :: "'p pq \<Rightarrow> model_class \<Rightarrow> model \<Rightarrow> model list \<Rightarrow> 'p database \<Rightarrow> bool result \<times> 'p database" where
  "saveMany_insert P C first_model toInsert db =
     (if toInsert = [] then (Inr True, db)
      else let cols = set_fields C first_model
           in if cols = [] then (Inr False, db)
              else case insert_rows P cols toInsert of
                     Inl e \<Rightarrow> (Inl e, db)
                   | Inr rows \<Rightarrow>
                       (case execute P (insert_sql C cols rows) db of
                          (Inl e, db') \<Rightarrow> (Inr False, db')
                        | (Inr _, db') \<Rightarrow> (Inr True, db')))"

definition saveMany :: "'p pq \<Rightarrow> model_class \<Rightarrow> model list \<Rightarrow> 'p database \<Rightarrow> bool result \<times> 'p database" where
  "saveMany P C models db =
     (if models = [] then (Inr False, db)
      else let toUpdate = filter (has_key C) models;
               toInsert = filter (\<lambda>a. \<not> has_key C a) models;
               batch = concat (map (update_sql P C) toUpdate)
           in if batch = [] then saveMany_insert P C (hd models) toInsert db
              else case execute P batch db of
                     (Inl e, db') \<Rightarrow> (Inr False, db')
                   | (Inr _, db') \<Rightarrow> saveMany_insert P C (hd models) toInsert db')"

subsection \<open>Collections\<close>

definition Collection_save :: "'p pq \<Rightarrow> model_class \<Rightarrow> model list \<Rightarrow> 'p database \<Rightarrow> bool result \<times> 'p database" where
  "Collection_save P C items db = (if items = [] then (Inr False, db) else saveMany P C items db)"

text \<open>\<^verbatim>\<open>Collection::delete_\<close>: the handler around \<^verbatim>\<open>item->delete_()\<close> is never entered.\<close>

definition Collection_delete :: "'p pq \<Rightarrow> model_class \<Rightarrow> model list \<Rightarrow> 'p database \<Rightarrow> bool \<times> 'p database" where
  "Collection_delete P C items db = (items \<noteq> [], fold (delete_model P C) items db)"

definition Model_collect :: "'m list \<Rightarrow> 'm list" where
  "Model_collect items = items"

definition Collection_toVector :: "'m list \<Rightarrow> 'm list" where
  "Collection_toVector items = items"

definition Collection_toJson :: "model list \<Rightarrow> json" where
  "Collection_toJson items = JArr (map toJson items)"

definition Collection_first :: "'m list \<Rightarrow> 'm option" where
  "Collection_first items = (if items = [] then None else Some (hd items))"

definition Collection_last :: "'m list \<Rightarrow> 'm option" where
  "Collection_last items = (if items = [] then None else Some (last items))"

definition Collection_filter :: "('m \<Rightarrow> bool) \<Rightarrow> 'm list \<Rightarrow> 'm list" where
  "Collection_filter p items = filter p items"

definition Collection_find :: "('m \<Rightarrow> bool) \<Rightarrow> 'm list \<Rightarrow> 'm option" where
  "Collection_find p items = List.find p items"

definition Collection_all :: "('m \<Rightarrow> bool) \<Rightarrow> 'm list \<Rightarrow> bool" where
  "Collection_all p items = list_all p items"

definition Collection_any :: "('m \<Rightarrow> bool) \<Rightarrow> 'm list \<Rightarrow> bool" where
  "Collection_any p items = list_ex p items"

subsection \<open>Facts\<close>

lemma create_from_get:
  "map_of (create_from C w kvs a) k =
     (if isField C k \<and> (w \<or> isFillable C k)
      then (case map_of (rev kvs) k of None \<Rightarrow> map_of a k | Some v \<Rightarrow> Some v) else map_of a k)"
proof (induction kvs arbitrary: a)
  case (Cons kv kvs)
  obtain k' v' where "kv = (k', v')" by force
  with Cons show ?case
    by (cases "map_of (rev kvs) k") (auto simp: setAttribute_def kv_simps map_add_def)
qed simp

lemma fill_model_get:
  "map_of (fill_model C kvs a) k =
     (if isField C k \<and> isFillable C k
      then (case map_of (rev kvs) k of None \<Rightarrow> map_of a k | Some v \<Rightarrow> Some v) else map_of a k)"
proof (induction kvs arbitrary: a)
  case (Cons kv kvs)
  obtain k' v' where "kv = (k', v')" by force
  with Cons show ?case
    by (cases "map_of (rev kvs) k") (auto simp: setAttribute_def kv_simps map_add_def)
qed simp

lemma set_join_element: "x \<in> set xs \<Longrightarrow> set x \<subseteq> set (join sep xs)"
proof (induction xs rule: induct_list012)
  case (3 a b xs)
  then show ?case by (cases "x = a") auto
qed auto

subsection \<open>Properties\<close>

text \<open>C21: Mass assignment is limited to the declared columns: \<^verbatim>\<open>create\<close> takes over exactly the data of fields that are
  fillable (all fields when asked to), and \<^verbatim>\<open>fill\<close> changes no attribute that is not fillable.\<close>

theorem mass_assignment_limited:
  assumes "smap_wf data"
  shows "map_of (create C data w) k = (if isField C k \<and> (w \<or> isFillable C k) then map_of data k else None)
    \<and> map_of (fill_model C data a) k =
       (if isField C k \<and> isFillable C k \<and> map_of data k \<noteq> None then map_of data k else map_of a k)"
proof -
  have "map_of (rev data) k = map_of data k" using assms by (simp add: map_of_rev_distinct smap_wf_distinct)
  then show ?thesis by (auto simp: create_def create_from_get fill_model_get split: option.splits)
qed

text \<open>Saving a new model fails, without any statement being sent, when one of its values contains a question
  mark: the finished \<^verbatim>\<open>INSERT\<close> is treated as a template whose placeholders have no parameters.\<close>

theorem save_rejects_question_mark:
  assumes "before_hooks H a0 = (True, a)" "map_of a (primary_key C) = None" "(k, v) \<in> set a"
    and "CHR ''?'' \<in> set (EscapeString (pq_literal P) v)"
  shows "model_save P H C a0 db = (False, a, db)"
proof -
  let ?vals = "escaped P (filter (\<lambda>(k, v). k \<noteq> primary_key C) a)"
  let ?sql = "query_text (Insert ?vals (SQLQueryBuilder (table_name C))) @ '' RETURNING '' @ primary_key C"
  have k: "k \<noteq> primary_key C" using assms(2,3) by (metis map_of_eq_None_iff fst_conv imageI)
  then have "(k, EscapeString (pq_literal P) v) \<in> set ?vals" using assms(3) by (force simp: escaped_def)
  then have "EscapeString (pq_literal P) v \<in> set (map snd ?vals)" "?vals \<noteq> []" by force+
  then have "CHR ''?'' \<in> set ?sql"
    using assms(4) set_join_element [of "EscapeString (pq_literal P) v" "map snd ?vals" "'', ''"]
    by (auto simp: query_text_def Insert_def SQLQueryBuilder_def)
  then have "count_marks ?sql \<noteq> 0" by (auto simp: count_marks_def filter_empty_conv)
  then have "save_new P H C ?vals a db = (False, a, db)" by (simp add: save_new_def queryMap_def Let_def)
  then show ?thesis using assms(1-3) by (simp add: model_save_def Let_def)
qed

text \<open>\<^verbatim>\<open>count\<close> throws whenever its query succeeds with a row, for every model class that has no field named
  \<^verbatim>\<open>total\<close>: the row is turned into a model, which drops the column that holds the count.\<close>

theorem count_never_returns:
  assumes "\<not> isField C ''total''" "Database P g = Inr db"
    and "queryToVector P (query_text (Where condition ''AND'' (Select [''COUNT(*) as total''] (model_query C)))) [] db = (Inr (row # rows), db')"
  shows "\<exists>msg. count_models P g stoi C condition = Inl (invalid_argument msg)"
proof -
  have "map_of (create C row True) ''total'' = None"
    using assms(1) by (simp add: create_def create_from_get)
  then show ?thesis
    using assms(2,3) by (simp add: count_models_def aggregate_def get_models_def getAttribute_def)
qed

subsection \<open>Witnesses\<close>

definition sample_class :: model_class where
  "sample_class = \<lparr>table_name = ''users'', fields_of = [''id'', ''name'', ''admin''], fillable = [''name''], primary_key = ''id''\<rparr>"

theorem mass_assignment_limited_witness:
  "map_of (create sample_class [(''admin'', ''1''), (''name'', ''bob'')] False) ''admin'' = None"
proof -
  have "smap_wf [(''admin'', ''1''), (''name'', ''bob'')]" "\<not> isFillable sample_class ''admin''" by code_simp+
  then show ?thesis using mass_assignment_limited [of "[(''admin'', ''1''), (''name'', ''bob'')]" sample_class False "''admin''"] by simp
qed

theorem save_rejects_question_mark_witness:
  "model_save sample_pq no_hooks sample_class [(''name'', ''who?'')] (mdb sample_manager) =
     (False, [(''name'', ''who?'')], mdb sample_manager)"
proof (rule save_rejects_question_mark)
  show "before_hooks no_hooks [(''name'', ''who?'')] = (True, [(''name'', ''who?'')])" by (simp add: before_hooks_def no_hooks_def)
  show "map_of [(''name'', ''who?'')] (primary_key sample_class) = None" by code_simp
  show "(''name'', ''who?'') \<in> set [(''name'', ''who?'')]" by simp
  show "CHR ''?'' \<in> set (EscapeString (pq_literal sample_pq) ''who?'')" by code_simp
qed

text \<open>A session whose every query answers with one row of one column.\<close>

definition count_pq :: "unit pq" where
  "count_pq = \<lparr>pq_exec = (\<lambda>q p. (TuplesOk [''total''] [[Some ''3'']], p)), pq_literal = (\<lambda>s. Some (sql_text s)),
     pq_connect = (\<lambda>s. (None, ()))\<rparr>"

theorem count_never_returns_witness:
  "\<exists>msg. count_models count_pq sample_config (\<lambda>s. Some 3) sample_class ''1=1'' = Inl (invalid_argument msg)"
proof (rule count_never_returns)
  show "\<not> isField sample_class ''total''" by code_simp
  show "Database count_pq sample_config = Inr \<lparr>conn = (), in_transaction = False\<rparr>"
    by (simp add: Database_def count_pq_def)
  show "queryToVector count_pq (query_text (Where ''1=1'' ''AND'' (Select [''COUNT(*) as total''] (model_query sample_class)))) []
      \<lparr>conn = (), in_transaction = False\<rparr> = (Inr ([(''total'', ''3'')] # []), \<lparr>conn = (), in_transaction = False\<rparr>)" by code_simp
qed

end
