(* ===== verification/ModelTransactions.thy ===== *)
theory ModelTransactions
  imports Model
begin

text \<open>
  Models inside the transactions of the database layer: what \<^verbatim>\<open>save\<close>, \<^verbatim>\<open>update\<close>, \<^verbatim>\<open>delete\<close> and \<^verbatim>\<open>saveMany\<close> of
  \<^verbatim>\<open>Model.hpp\<close> leave in the database between \<^verbatim>\<open>transaction\<close> and \<^verbatim>\<open>commit\<close> of \<^verbatim>\<open>src/Database/Database.cpp\<close>. The models
  log and swallow the exceptions of a failed statement, and \<^verbatim>\<open>execute\<close> ends the transaction when one fails.
\<close>

subsection \<open>A PostgreSQL session\<close>

text \<open>The durable contents, and inside a transaction the contents it sees.\<close>

datatype 'd session = NoTx 'd | InTx 'd 'd | AbortedTx 'd

fun stored :: "'d session \<Rightarrow> 'd" where
  "stored (NoTx d) = d"
| "stored (InTx d c) = d"
| "stored (AbortedTx d) = d"

fun committed :: "'d session \<Rightarrow> 'd" where
  "committed (NoTx d) = d"
| "committed (InTx d c) = c"
| "committed (AbortedTx d) = d"

text \<open>The effect of a statement on the contents, \<open>None\<close> when it fails. Outside a transaction it is durable at once.\<close>

type_synonym 'd effect = "string \<Rightarrow> 'd \<Rightarrow> 'd option"

definition kept_or :: "'d option \<Rightarrow> 'd \<Rightarrow> 'd" where
  "kept_or r d = (case r of None \<Rightarrow> d | Some d' \<Rightarrow> d')"

fun after :: "'d effect \<Rightarrow> string \<Rightarrow> 'd session \<Rightarrow> 'd session" where
  "after eff q (NoTx d) = NoTx (kept_or (eff q d) d)"
| "after eff q (InTx d c) = (case eff q c of None \<Rightarrow> AbortedTx d | Some c' \<Rightarrow> InTx d c')"
| "after eff q (AbortedTx d) = AbortedTx d"

fun fails :: "'d effect \<Rightarrow> string \<Rightarrow> 'd session \<Rightarrow> bool" where
  "fails eff q (NoTx d) \<longleftrightarrow> eff q d = None"
| "fails eff q (InTx d c) \<longleftrightarrow> eff q c = None"
| "fails eff q (AbortedTx d) \<longleftrightarrow> True"

text \<open>What PostgreSQL documents of a session: a failed statement aborts the transaction, and then every statement fails
  until its end; \<^verbatim>\<open>COMMIT\<close> of an aborted transaction rolls it back; \<^verbatim>\<open>COMMIT\<close> and \<^verbatim>\<open>ROLLBACK\<close> outside a transaction change
  nothing. A \<^verbatim>\<open>COMMIT\<close> that is acknowledged has taken effect; one that is not (a deferred constraint, a lost
  connection) has taken effect as a whole or not at all.\<close>

definition pg_session :: "'p pq \<Rightarrow> ('p \<Rightarrow> 'd session) \<Rightarrow> 'd effect \<Rightarrow> (string \<Rightarrow> bool) \<Rightarrow> bool" where
  "pg_session P st eff control \<longleftrightarrow>
     (\<forall>q p. \<not> control q \<longrightarrow> st (snd (pq_exec P q p)) = after eff q (st p) \<and>
        ((\<exists>e. fst (pq_exec P q p) = PgFailed e) \<longleftrightarrow> fails eff q (st p))) \<and>
     (\<forall>p d. st p = NoTx d \<longrightarrow>
        st (snd (pq_exec P ''BEGIN'' p)) = (if fst (pq_exec P ''BEGIN'' p) = CommandOk then InTx d d else NoTx d)) \<and>
     (\<forall>p. st (snd (pq_exec P ''ROLLBACK'' p)) = NoTx (stored (st p))) \<and>
     (\<forall>p. st (snd (pq_exec P ''COMMIT'' p)) = NoTx (committed (st p)) \<or>
        fst (pq_exec P ''COMMIT'' p) \<noteq> CommandOk \<and> st (snd (pq_exec P ''COMMIT'' p)) = NoTx (stored (st p)))"

subsection \<open>Operations of models\<close>

datatype model_op = SaveOp model | UpdateOp int "(string, string) std_map" | DeleteOp model | DeleteIdOp int | DeleteWhereOp string

fun apply_op :: "'p pq \<Rightarrow> hooks \<Rightarrow> model_class \<Rightarrow> model_op \<Rightarrow> 'p database \<Rightarrow> 'p database" where
  "apply_op P H C (SaveOp a) db = snd (snd (model_save P H C a db))"
| "apply_op P H C (UpdateOp i data) db = update_model P C i data db"
| "apply_op P H C (DeleteOp a) db = delete_model P C a db"
| "apply_op P H C (DeleteIdOp i) db = deleteById P C i db"
| "apply_op P H C (DeleteWhereOp condition) db = snd (deleteWhere P C condition db)"

text \<open>A transaction around them, as an application writes it: an exception of \<^verbatim>\<open>transaction\<close> skips the rest.\<close>

definition unit_of_work :: "'p pq \<Rightarrow> hooks \<Rightarrow> model_class \<Rightarrow> model_op list \<Rightarrow> 'p database \<Rightarrow> ('p, unit) db_result" where
  "unit_of_work P H C ops db =
     (case transaction P [] db of
        (Inl e, db1) \<Rightarrow> (Inl e, db1)
      | (Inr _, db1) \<Rightarrow> commit P (fold (apply_op P H C) ops db1))"

subsection \<open>The statement of an operation\<close>

text \<open>Each operation sends at most one statement, by \<^verbatim>\<open>execute\<close> (\<open>True\<close>) or by \<^verbatim>\<open>queryMap\<close>, which does not roll back.\<close>

type_synonym stmt = "bool \<times> string"

definition save_stmt :: "'p pq \<Rightarrow> hooks \<Rightarrow> model_class \<Rightarrow> model \<Rightarrow> stmt option" where
  "save_stmt P H C a0 =
     (let a = snd (before_hooks H a0);
          vals = escaped P (filter (\<lambda>(k, v). k \<noteq> primary_key C) a);
          upd = query_text (Where (primary_key C @ '' = '' @ the (map_of a (primary_key C))) ''AND''
                  (Update vals (SQLQueryBuilder (table_name C))));
          ins = query_text (Insert vals (SQLQueryBuilder (table_name C))) @ '' RETURNING '' @ primary_key C
      in if \<not> fst (before_hooks H a0) \<or> a = [] \<or> vals = [] then None
         else if (case map_of a (primary_key C) of None \<Rightarrow> False | Some v \<Rightarrow> v \<noteq> []) then Some (True, upd)
         else if count_marks ins = 0 then Some (False, ins) else None)"

fun stmt_of :: "'p pq \<Rightarrow> hooks \<Rightarrow> model_class \<Rightarrow> model_op \<Rightarrow> stmt option" where
  "stmt_of P H C (SaveOp a) = save_stmt P H C a"
| "stmt_of P H C (UpdateOp i data) =
     (let vals = escaped P (filter (\<lambda>(k, v). isField C k) data)
      in if vals = [] then None
         else Some (True, query_text (Where (''id = '' @ EscapeString (pq_literal P) (show_int i)) ''AND''
                (Update vals (SQLQueryBuilder (table_name C))))))"
| "stmt_of P H C (DeleteOp a) =
     (case getAttribute ''id'' a of
        Inl e \<Rightarrow> None
      | Inr v \<Rightarrow> if v = [] then None else Some (True, delete_sql C (''id = '' @ EscapeString (pq_literal P) v)))"
| "stmt_of P H C (DeleteIdOp i) = Some (True, delete_sql C (''id = '' @ EscapeString (pq_literal P) (show_int i)))"
| "stmt_of P H C (DeleteWhereOp condition) = Some (True, delete_sql C condition)"

fun issue :: "'p pq \<Rightarrow> stmt \<Rightarrow> 'p database \<Rightarrow> 'p database" where
  "issue P (True, q) db = snd (execute P q db)"
| "issue P (False, q) db = snd (run_sql P q db)"

lemma queryMap_run: "count_marks q = 0 \<Longrightarrow> snd (queryMap P q [] db) = snd (run_sql P q db)"
  by (auto simp: queryMap_def split: prod.splits pg_answer.splits)

lemma snd_saved [simp]: "snd (snd (saved H a db)) = db"
  by (simp add: saved_def split: prod.splits)

lemma save_new_run:
  "snd (snd (save_new P H C vals a db)) =
     snd (queryMap P (query_text (Insert vals (SQLQueryBuilder (table_name C))) @ '' RETURNING '' @ primary_key C) [] db)"
  by (auto simp: save_new_def Let_def split: prod.splits sum.splits)

lemma save_issue: "snd (snd (model_save P H C a0 db)) = (case save_stmt P H C a0 of None \<Rightarrow> db | Some s \<Rightarrow> issue P s db)"
proof -
  obtain ok a where h: "before_hooks H a0 = (ok, a)" by force
  show ?thesis
  proof (cases "count_marks (query_text (Insert (escaped P (filter (\<lambda>(k, v). k \<noteq> primary_key C) a)) (SQLQueryBuilder (table_name C)))
      @ '' RETURNING '' @ primary_key C) = 0")
    case True
    then show ?thesis
      by (auto simp: h model_save_def save_stmt_def Let_def save_new_run queryMap_run split: prod.splits sum.splits option.splits)
  next
    case False
    then show ?thesis
      by (auto simp: h model_save_def save_stmt_def Let_def save_new_run queryMap_def split: prod.splits sum.splits option.splits)
  qed
qed

lemma apply_op_issue: "apply_op P H C op db = (case stmt_of P H C op of None \<Rightarrow> db | Some s \<Rightarrow> issue P s db)"
  by (cases op) (auto simp: save_issue update_model_def delete_model_def deleteById_def deleteWhere_def Let_def
      split: prod.splits sum.splits)

definition stmts :: "'p pq \<Rightarrow> hooks \<Rightarrow> model_class \<Rightarrow> model_op list \<Rightarrow> stmt list" where
  "stmts P H C ops = List.map_filter (stmt_of P H C) ops"

lemma fold_apply_op: "fold (apply_op P H C) ops db = fold (issue P) (stmts P H C ops) db"
  by (induction ops arbitrary: db) (auto simp: stmts_def map_filter_simps apply_op_issue split: option.splits)

subsection \<open>Statements on a session\<close>

fun in_tx :: "'d session \<Rightarrow> bool" where
  "in_tx (NoTx d) = False"
| "in_tx (InTx d c) = True"
| "in_tx (AbortedTx d) = True"

text \<open>A failed \<^verbatim>\<open>execute\<close> ends the transaction.\<close>

fun issued :: "'d effect \<Rightarrow> stmt \<Rightarrow> 'd session \<Rightarrow> 'd session" where
  "issued eff (ex, q) s = (if ex \<and> in_tx s \<and> fails eff q s then NoTx (stored s) else after eff q s)"

lemma in_tx_after [simp]: "in_tx (after eff q s) = in_tx s"
  by (cases s) (auto split: option.splits)

lemma stored_after: "in_tx s \<Longrightarrow> stored (after eff q s) = stored s"
  by (cases s) (auto split: option.splits)

text \<open>The flag of the connection object follows the session.\<close>

definition tracks :: "('p \<Rightarrow> 'd session) \<Rightarrow> 'p database \<Rightarrow> bool" where
  "tracks st db \<longleftrightarrow> in_transaction db = in_tx (st (conn db))"

lemma execute_issued:
  assumes "pg_session P st eff control" "\<not> control q" "tracks st db"
  shows "st (conn (snd (execute P q db))) = issued eff (True, q) (st (conn db)) \<and> tracks st (snd (execute P q db)) \<and>
    (fst (execute P q db) = Inr () \<longleftrightarrow> \<not> fails eff q (st (conn db)))"
proof -
  obtain a db1 where r: "run_sql P q db = (a, db1)" by force
  have law: "st (conn db1) = after eff q (st (conn db))" "(\<exists>e. a = PgFailed e) \<longleftrightarrow> fails eff q (st (conn db))"
    "in_transaction db1 = in_transaction db" "\<And>p. st (snd (pq_exec P ''ROLLBACK'' p)) = NoTx (stored (st p))"
    using assms(1,2) r run_sql_simps [of P q db] by (auto simp: pg_session_def)
  show ?thesis
  proof (cases a)
    case (PgFailed e)
    then show ?thesis using r law assms(3) by (auto simp: execute_def tracks_def stored_after)
  qed (use r law assms(3) in \<open>auto simp: execute_def tracks_def\<close>)
qed

lemma issue_issued:
  assumes "pg_session P st eff control" "\<not> control (snd s)" "tracks st db"
  shows "st (conn (issue P s db)) = issued eff s (st (conn db)) \<and> tracks st (issue P s db)"
proof (cases s)
  case (Pair ex q)
  show ?thesis
  proof (cases ex)
    case True
    then show ?thesis using execute_issued [OF assms(1) _ assms(3), of q] assms(2) Pair by simp
  next
    case False
    then show ?thesis using assms Pair run_sql_simps [of P q db] by (simp add: pg_session_def tracks_def)
  qed
qed

lemma issue_all:
  assumes "pg_session P st eff control"
  shows "tracks st db \<Longrightarrow> \<forall>s \<in> set ss. \<not> control (snd s) \<Longrightarrow>
    st (conn (fold (issue P) ss db)) = fold (issued eff) ss (st (conn db))"
  by (induction ss arbitrary: db) (simp_all add: issue_issued [OF assms])

text \<open>A transaction of models refines the statements on the session between \<^verbatim>\<open>BEGIN\<close> and \<^verbatim>\<open>COMMIT\<close>.\<close>

lemma unit_of_work_session:
  assumes "pg_session P st eff control" "st (conn db) = NoTx d" "\<forall>s \<in> set (stmts P H C ops). \<not> control (snd s)"
    and "unit_of_work P H C ops db = (r, db')"
  shows "fst (transaction P [] db) \<noteq> Inr () \<and> r \<noteq> Inr () \<and> st (conn db') = NoTx d \<or>
    fst (transaction P [] db) = Inr () \<and>
    (st (conn db') = NoTx (committed (fold (issued eff) (stmts P H C ops) (InTx d d))) \<or>
     r \<noteq> Inr () \<and> st (conn db') = NoTx (stored (fold (issued eff) (stmts P H C ops) (InTx d d))))"
proof -
  obtain a db1 where b: "run_sql P ''BEGIN'' (db\<lparr>in_transaction := True\<rparr>) = (a, db1)" by force
  have law: "st (conn db1) = (if a = CommandOk then InTx d d else NoTx d)" "in_transaction db1"
    using assms(1,2) b run_sql_simps [of P "''BEGIN''" "db\<lparr>in_transaction := True\<rparr>"] by (auto simp: pg_session_def)
  let ?db2 = "fold (apply_op P H C) ops db1"
  obtain c db3 where k: "run_sql P ''COMMIT'' ?db2 = (c, db3)" by force
  have commit: "st (conn db3) = NoTx (committed (st (conn ?db2))) \<or> c \<noteq> CommandOk \<and> st (conn db3) = NoTx (stored (st (conn ?db2)))"
    using assms(1) k run_sql_simps [of P "''COMMIT''" ?db2] by (auto simp: pg_session_def)
  have "a = CommandOk \<Longrightarrow> st (conn ?db2) = fold (issued eff) (stmts P H C ops) (InTx d d)"
    using issue_all [OF assms(1) _ assms(3), of db1] law by (simp add: fold_apply_op tracks_def)
  then show ?thesis
    using assms(4) law b k commit by (cases a; cases c) (auto simp: unit_of_work_def transaction_def commit_def)
qed

subsection \<open>All or nothing\<close>

fun run_all :: "'d effect \<Rightarrow> stmt list \<Rightarrow> 'd \<Rightarrow> 'd option" where
  "run_all eff [] d = Some d"
| "run_all eff ((ex, q) # ss) d = (case eff q d of None \<Rightarrow> None | Some d' \<Rightarrow> run_all eff ss d')"

lemma run_all_append: "run_all eff (xs @ ys) d = (case run_all eff xs d of None \<Rightarrow> None | Some c \<Rightarrow> run_all eff ys c)"
  by (induction eff xs d rule: run_all.induct) (auto split: option.splits)

lemma issued_run_all: "run_all eff ss c = Some c' \<Longrightarrow> fold (issued eff) ss (InTx d c) = InTx d c'"
  by (induction eff ss c rule: run_all.induct) (auto split: option.splits)

definition autocommit :: "'d effect \<Rightarrow> stmt list \<Rightarrow> 'd \<Rightarrow> 'd" where
  "autocommit eff ss d = fold (\<lambda>(ex, q) d. kept_or (eff q d) d) ss d"

lemma issued_NoTx: "fold (issued eff) ss (NoTx d) = NoTx (autocommit eff ss d)"
  unfolding autocommit_def by (induction ss arbitrary: d) auto

lemma issued_failed:
  assumes "run_all eff pre c = Some c'" "eff q c' = None"
  shows "fold (issued eff) (pre @ (ex, q) # post) (InTx d c) =
    (if ex then NoTx (autocommit eff post d) else fold (issued eff) post (AbortedTx d))"
  using issued_run_all [OF assms(1)] assms(2) by (simp add: issued_NoTx)

text \<open>C15: A transaction of model operations of which at most the last statement fails is all or nothing: when no
  statement fails, the database holds afterwards the effect of all of them in order or what it held before, and
  the former if \<^verbatim>\<open>commit\<close> returned; when the last statement fails, or \<^verbatim>\<open>transaction\<close> throws, it holds what it held before.\<close>

theorem model_transaction_atomic:
  assumes "pg_session P st eff control" "st (conn db) = NoTx d" "\<forall>s \<in> set (stmts P H C ops). \<not> control (snd s)"
    and "run_all eff (butlast (stmts P H C ops)) d \<noteq> None" "unit_of_work P H C ops db = (r, db')"
  shows "(case run_all eff (stmts P H C ops) d of
      Some c \<Rightarrow> st (conn db') = NoTx c \<or> r \<noteq> Inr () \<and> st (conn db') = NoTx d
    | None \<Rightarrow> st (conn db') = NoTx d) \<and>
    (fst (transaction P [] db) \<noteq> Inr () \<longrightarrow> st (conn db') = NoTx d)"
proof (cases "run_all eff (stmts P H C ops) d")
  case (Some c)
  then show ?thesis using unit_of_work_session [OF assms(1-3,5)] issued_run_all [OF Some, of d] by auto
next
  case None
  then have ne: "stmts P H C ops \<noteq> []" by auto
  then obtain ss ex q where s: "stmts P H C ops = ss @ [(ex, q)]" by (metis append_butlast_last_id surj_pair)
  with assms(4) None obtain c where c: "run_all eff ss d = Some c" "eff q c = None"
    by (auto simp: run_all_append split: option.splits)
  show ?thesis using unit_of_work_session [OF assms(1-3,5)] issued_failed [OF c, of ex "[]" d] None s
    by (auto simp: autocommit_def split: if_splits)
qed

text \<open>C20: A failed update or delete inside a transaction is not only lost itself: \<^verbatim>\<open>execute\<close> rolls back what came before it
  and ends the transaction, the model swallows the exception, and every later operation of the same
  transaction becomes durable on its own, whether the final \<^verbatim>\<open>commit\<close> returns or throws.\<close>

theorem failed_update_breaks_transaction:
  assumes "pg_session P st eff control" "st (conn db) = NoTx d" "\<forall>s \<in> set (stmts P H C ops). \<not> control (snd s)"
    and "stmts P H C ops = pre @ (True, q) # post" "run_all eff pre d = Some c" "eff q c = None"
    and "fst (transaction P [] db) = Inr ()"
  shows "st (conn (snd (unit_of_work P H C ops db))) = NoTx (autocommit eff post d)"
proof -
  obtain r db' where u: "unit_of_work P H C ops db = (r, db')" by force
  from unit_of_work_session [OF assms(1-3) u] issued_failed [OF assms(5,6), of True post d] assms(4,7) u
  show ?thesis by (auto split: if_splits)
qed

subsection \<open>Saving many models\<close>

text \<open>\<^verbatim>\<open>saveMany\<close> outside a transaction is not atomic: when the batch of updates succeeds and the insert that follows
  fails, it reports failure and the updates stay in the database.\<close>

theorem saveMany_keeps_updates:
  assumes "pg_session P st eff control" "st (conn db) = NoTx d" "\<not> in_transaction db"
    and "concat (map (update_sql P C) (filter (has_key C) models)) = batch" "batch \<noteq> []" "\<not> control batch" "eff batch d = Some d'"
    and "filter (\<lambda>a. \<not> has_key C a) models \<noteq> []" "set_fields C (hd models) \<noteq> []"
    and "insert_rows P (set_fields C (hd models)) (filter (\<lambda>a. \<not> has_key C a) models) = Inr rows"
    and "\<not> control (insert_sql C (set_fields C (hd models)) rows)" "eff (insert_sql C (set_fields C (hd models)) rows) d' = None"
  shows "fst (saveMany P C models db) = Inr False \<and> st (conn (snd (saveMany P C models db))) = NoTx d'"
proof -
  let ?ins = "insert_sql C (set_fields C (hd models)) rows"
  have t: "tracks st db" using assms(2,3) by (simp add: tracks_def)
  obtain r1 db1 where b: "execute P batch db = (r1, db1)" by force
  have 1: "st (conn db1) = NoTx d'" "tracks st db1" "r1 = Inr ()"
    using execute_issued [OF assms(1,6) t] b assms(2,7) by (auto simp: kept_or_def)
  obtain r2 db2 where i: "execute P ?ins db1 = (r2, db2)" by force
  have 2: "st (conn db2) = NoTx d'" "r2 \<noteq> Inr ()"
    using execute_issued [OF assms(1,11) 1(2)] i 1(1) assms(12) by (auto simp: kept_or_def)
  then obtain e where "r2 = Inl e" by (cases r2) auto
  moreover have "models \<noteq> []" using assms(8) by auto
  ultimately show ?thesis
    using b i 1 2 assms(5,8-10) unfolding saveMany_def saveMany_insert_def Let_def assms(4) by simp
qed

subsection \<open>Witnesses\<close>

text \<open>A session whose contents are the statements that succeeded; a statement with a number sign fails.\<close>

definition log_effect :: "string list effect" where
  "log_effect q d = (if CHR ''#'' \<in> set q then None else Some (d @ [q]))"

definition log_control :: "string \<Rightarrow> bool" where
  "log_control q \<longleftrightarrow> q \<in> {''BEGIN'', ''COMMIT'', ''ROLLBACK''}"

definition log_pq :: "string list session pq" where
  "log_pq = \<lparr>pq_exec = (\<lambda>q s.
       if q = ''BEGIN'' then (CommandOk, case s of NoTx d \<Rightarrow> InTx d d | _ \<Rightarrow> s)
       else if q = ''COMMIT'' then (CommandOk, NoTx (committed s))
       else if q = ''ROLLBACK'' then (CommandOk, NoTx (stored s))
       else (if fails log_effect q s then PgFailed ''failed'' else CommandOk, after log_effect q s)),
     pq_literal = (\<lambda>s. Some (sql_text s)), pq_connect = (\<lambda>s. (None, NoTx []))\<rparr>"

lemma log_session: "pg_session log_pq (\<lambda>s. s) log_effect log_control"
  by (auto simp: pg_session_def log_pq_def log_control_def)

definition log_db :: "string list session database" where
  "log_db = \<lparr>conn = NoTx [], in_transaction = False\<rparr>"

definition sample_ops :: "string \<Rightarrow> model_op list" where
  "sample_ops name = [DeleteIdOp 1, UpdateOp 2 [(''name'', name)], DeleteIdOp 3]"

definition del :: "int \<Rightarrow> string" where
  "del i = delete_sql sample_class (''id = '' @ EscapeString (pq_literal log_pq) (show_int i))"

lemma sample_stmts:
  "stmts log_pq no_hooks sample_class (sample_ops name) =
    [(True, del 1)] @ (True, query_text (Where (''id = '' @ EscapeString (pq_literal log_pq) (show_int 2)) ''AND''
       (Update (escaped log_pq [(''name'', name)]) (SQLQueryBuilder (table_name sample_class))))) # [(True, del 3)]"
  by (simp add: stmts_def sample_ops_def map_filter_simps escaped_def isField_def sample_class_def del_def)

theorem model_transaction_atomic_witness:
  "conn (snd (unit_of_work log_pq no_hooks sample_class (sample_ops ''bob'') log_db)) \<noteq> NoTx []"
proof -
  let ?ss = "stmts log_pq no_hooks sample_class (sample_ops ''bob'')"
  have c: "\<forall>s \<in> set ?ss. \<not> log_control (snd s)" and l: "run_all log_effect (butlast ?ss) [] \<noteq> None"
    and a: "run_all log_effect ?ss [] \<noteq> None" "run_all log_effect ?ss [] \<noteq> Some []" by code_simp+
  obtain r db' where u: "unit_of_work log_pq no_hooks sample_class (sample_ops ''bob'') log_db = (r, db')" by force
  have "fst (unit_of_work log_pq no_hooks sample_class (sample_ops ''bob'') log_db) = Inr ()" by code_simp
  moreover have "conn log_db = NoTx []" by (simp add: log_db_def)
  ultimately show ?thesis using model_transaction_atomic [OF log_session _ c l u] a u by auto
qed

theorem failed_update_breaks_transaction_witness:
  "conn (snd (unit_of_work log_pq no_hooks sample_class (sample_ops ''#'') log_db)) = NoTx [del 3]"
proof -
  let ?ss = "stmts log_pq no_hooks sample_class (sample_ops ''#'')"
  have c: "\<forall>s \<in> set ?ss. \<not> log_control (snd s)" by code_simp
  have t: "fst (transaction log_pq [] log_db) = Inr ()" by code_simp
  have d: "conn log_db = NoTx []" by (simp add: log_db_def)
  have r: "run_all log_effect [(True, del 1)] [] = Some [del 1]" by code_simp
  have f: "log_effect (query_text (Where (''id = '' @ EscapeString (pq_literal log_pq) (show_int 2)) ''AND''
       (Update (escaped log_pq [(''name'', ''#'')]) (SQLQueryBuilder (table_name sample_class))))) [del 1] = None" by code_simp
  have "autocommit log_effect [(True, del 3)] [] = [del 3]" by code_simp
  then show ?thesis using failed_update_breaks_transaction [OF log_session d c sample_stmts r f t] by simp
qed

theorem saveMany_keeps_updates_witness:
  "fst (saveMany log_pq sample_class [[(''id'', ''1''), (''name'', ''ann'')], [(''name'', ''#'')]] log_db) = Inr False"
proof -
  let ?ms = "[[(''id'', ''1''), (''name'', ''ann'')], [(''name'', ''#'')]] :: model list"
  let ?b = "concat (map (update_sql log_pq sample_class) (filter (has_key sample_class) ?ms))"
  let ?i = "insert_sql sample_class (set_fields sample_class (hd ?ms)) [''('' @ sql_text ''#'' @ '')'']"
  have d: "conn log_db = NoTx []" "\<not> in_transaction log_db" by (simp_all add: log_db_def)
  have b: "?b \<noteq> []" "\<not> log_control ?b" "log_effect ?b [] = Some [?b]" by code_simp+
  have i: "filter (\<lambda>a. \<not> has_key sample_class a) ?ms \<noteq> []" "set_fields sample_class (hd ?ms) \<noteq> []"
    "insert_rows log_pq (set_fields sample_class (hd ?ms)) (filter (\<lambda>a. \<not> has_key sample_class a) ?ms) = Inr [''('' @ sql_text ''#'' @ '')'']"
    "\<not> log_control ?i" "log_effect ?i [?b] = None" by code_simp+
  show ?thesis using saveMany_keeps_updates [OF log_session d refl b i] by blast
qed

end
