(* ===== verification/SharedDatabase.thy ===== *)
theory SharedDatabase
  imports ModelTransactions
begin

text \<open>
  The default connections of the models: \<^verbatim>\<open>Model<Derived>::getDefaultDatabase\<close> makes one \<^verbatim>\<open>Database\<close> object per model
  class, which every handler that works on this class uses unless it is given another. What units of work
  mean that run one after the other on one connection, and what can happen when the calls of two handlers on
  the connection of one class are interleaved; each call is one step.
\<close>

subsection \<open>The default connections\<close>

text \<open>The \<^verbatim>\<open>Database\<close> objects, and the static variable of each instance of the class template, named by its \<^verbatim>\<open>Derived\<close>. It is
  initialised by the first call that succeeds.\<close>

record 'p databases =
  objects :: "'p database list"
  statics :: "string \<Rightarrow> nat option"

definition getDefaultDatabase :: "'p pq \<Rightarrow> config \<Rightarrow> string \<Rightarrow> 'p databases \<Rightarrow> nat result \<times> 'p databases" where
  "getDefaultDatabase P g k h =
     (case statics h k of
        Some a \<Rightarrow> (Inr a, h)
      | None \<Rightarrow> (case Database P g of
            Inl e \<Rightarrow> (Inl e, h)
          | Inr x \<Rightarrow> (Inr (length (objects h)),
              \<lparr>objects = objects h @ [x], statics = (statics h)(k := Some (length (objects h)))\<rparr>)))"

text \<open>The static variables point to objects, no two of them to the same one.\<close>

definition statics_ok :: "'p databases \<Rightarrow> bool" where
  "statics_ok h \<longleftrightarrow> (\<forall>k a. statics h k = Some a \<longrightarrow> a < length (objects h) \<and> (\<forall>k'. statics h k' = Some a \<longrightarrow> k' = k))"

lemma default_database_ok:
  assumes "statics_ok h" "getDefaultDatabase P g k h = (r, h')"
  shows "statics_ok h' \<and> (\<forall>a. r = Inr a \<longrightarrow> statics h' k = Some a)"
proof (cases "statics h k")
  case None
  show ?thesis
  proof (cases "Database P g")
    case (Inr x)
    have "a < length (objects h)" if "statics h k' = Some a" for k' a using assms(1) that by (simp add: statics_ok_def)
    moreover from this have "statics h k' \<noteq> Some (length (objects h))" for k' by blast
    ultimately show ?thesis using None Inr assms by (auto simp: getDefaultDatabase_def statics_ok_def less_Suc_eq split: if_splits)
  qed (use None assms in \<open>auto simp: getDefaultDatabase_def\<close>)
qed (use assms in \<open>auto simp: getDefaultDatabase_def\<close>)

text \<open>One connection for all handlers of a class, and different ones for different classes.\<close>

lemma default_database_per_class:
  assumes "statics_ok h" "getDefaultDatabase P g k h = (Inr a, h1)" "getDefaultDatabase P g k' h1 = (Inr b, h2)"
  shows "a = b \<longleftrightarrow> k = k'"
proof -
  have 1: "statics_ok h1" "statics h1 k = Some a" using default_database_ok [OF assms(1,2)] by simp_all
  have 2: "statics_ok h2" "statics h2 k' = Some b" using default_database_ok [OF 1(1) assms(3)] by simp_all
  have "statics h2 k = Some a \<or> k = k' \<and> b = a"
    using assms(3) 1(2) by (auto simp: getDefaultDatabase_def split: option.splits sum.splits if_splits)
  then show ?thesis using 2 by (auto simp: statics_ok_def)
qed

subsection \<open>Units of work one after the other\<close>

text \<open>The outcome of each, and the connection after all of them.\<close>

fun run_units :: "'p pq \<Rightarrow> hooks \<Rightarrow> model_class \<Rightarrow> model_op list list \<Rightarrow> 'p database \<Rightarrow> unit result list \<times> 'p database" where
  "run_units P H C [] db = ([], db)"
| "run_units P H C (ops # opss) db =
     (let (r, db1) = unit_of_work P H C ops db; (rs, db2) = run_units P H C opss db1 in (r # rs, db2))"

text \<open>The specification: a unit that returns takes effect as a whole, one that throws as a whole or not at all.\<close>

definition unit_effect :: "'d effect \<Rightarrow> stmt list \<Rightarrow> 'd \<Rightarrow> 'd" where
  "unit_effect eff ss d = kept_or (run_all eff ss d) d"

fun serial :: "'d effect \<Rightarrow> stmt list list \<Rightarrow> unit result list \<Rightarrow> 'd \<Rightarrow> 'd \<Rightarrow> bool" where
  "serial eff [] rs d d' \<longleftrightarrow> rs = [] \<and> d' = d"
| "serial eff (ss # sss) [] d d' \<longleftrightarrow> False"
| "serial eff (ss # sss) (r # rs) d d' \<longleftrightarrow> serial eff sss rs (unit_effect eff ss d) d' \<or> r \<noteq> Inr () \<and> serial eff sss rs d d'"

text \<open>In every unit at most the last statement fails, whether or not the units before it took effect.\<close>

fun fails_last :: "'d effect \<Rightarrow> stmt list list \<Rightarrow> 'd \<Rightarrow> bool" where
  "fails_last eff [] d \<longleftrightarrow> True"
| "fails_last eff (ss # sss) d \<longleftrightarrow>
     run_all eff (butlast ss) d \<noteq> None \<and> fails_last eff sss (unit_effect eff ss d) \<and> fails_last eff sss d"

lemma ended_unit:
  assumes "run_all eff (butlast ss) d \<noteq> None"
  shows "committed (fold (issued eff) ss (InTx d d)) = unit_effect eff ss d" "stored (fold (issued eff) ss (InTx d d)) = d"
proof -
  have "committed (fold (issued eff) ss (InTx d d)) = unit_effect eff ss d \<and> stored (fold (issued eff) ss (InTx d d)) = d"
  proof (cases "run_all eff ss d")
    case (Some c)
    then show ?thesis using issued_run_all [OF Some, of d] by (simp add: unit_effect_def kept_or_def)
  next
    case None
    then have "ss \<noteq> []" by auto
    then obtain ts ex q where s: "ss = ts @ [(ex, q)]" by (metis append_butlast_last_id surj_pair)
    with assms None obtain c where c: "run_all eff ts d = Some c" "eff q c = None"
      by (auto simp: run_all_append split: option.splits)
    show ?thesis using issued_failed [OF c, of ex "[]" d] None s by (simp add: autocommit_def unit_effect_def kept_or_def)
  qed
  then show "committed (fold (issued eff) ss (InTx d d)) = unit_effect eff ss d" "stored (fold (issued eff) ss (InTx d d)) = d"
    by simp_all
qed

text \<open>C24: Units of work that run one after the other on one connection are serial transactions, on the condition that in
  each of them at most the last statement fails: the database goes through them in order, each that returns takes
  effect as a whole (or not at all when its last statement fails), and each that throws, because
  \<^verbatim>\<open>BEGIN\<close> or \<^verbatim>\<open>COMMIT\<close> is not acknowledged, as a whole or not at all; no transaction is left open.\<close>

theorem serial_units_atomic:
  assumes "pg_session P st eff control" "st (conn db) = NoTx d"
    and "\<forall>ops \<in> set opss. \<forall>s \<in> set (stmts P H C ops). \<not> control (snd s)"
    and "fails_last eff (map (stmts P H C) opss) d" "run_units P H C opss db = (rs, db')"
  shows "\<exists>d'. st (conn db') = NoTx d' \<and> serial eff (map (stmts P H C) opss) rs d d'"
  using assms(2-5)
proof (induction opss arbitrary: d db rs)
  case (Cons ops opss)
  let ?ss = "stmts P H C ops"
  obtain r db1 where u: "unit_of_work P H C ops db = (r, db1)" by force
  obtain rs2 where v: "run_units P H C opss db1 = (rs2, db')" "rs = r # rs2"
    using Cons.prems(4) u by (auto split: prod.splits)
  have c: "\<forall>s \<in> set ?ss. \<not> control (snd s)" "\<forall>ops \<in> set opss. \<forall>s \<in> set (stmts P H C ops). \<not> control (snd s)"
    using Cons.prems(2) by auto
  have l: "run_all eff (butlast ?ss) d \<noteq> None" "fails_last eff (map (stmts P H C) opss) (unit_effect eff ?ss d)"
    "fails_last eff (map (stmts P H C) opss) d" using Cons.prems(3) by auto
  have "st (conn db1) = NoTx (unit_effect eff ?ss d) \<or> r \<noteq> Inr () \<and> st (conn db1) = NoTx d"
    using unit_of_work_session [OF assms(1) Cons.prems(1) c(1) u] ended_unit [OF l(1)] by auto
  then show ?case using Cons.IH [OF _ c(2) _ v(1)] l(2,3) v(2) by auto
qed simp

subsection \<open>Calls on the connection of a class\<close>

datatype db_call = CallTransaction | CallModel model_op | CallCommit | CallRollback

text \<open>The operations of models return whatever happens to their statement; the other calls throw.\<close>

fun do_call :: "'p pq \<Rightarrow> hooks \<Rightarrow> model_class \<Rightarrow> db_call \<Rightarrow> 'p database \<Rightarrow> ('p, unit) db_result" where
  "do_call P H C CallTransaction db = transaction P [] db"
| "do_call P H C (CallModel x) db = (Inr (), apply_op P H C x db)"
| "do_call P H C CallCommit db = commit P db"
| "do_call P H C CallRollback db = rollback P [] db"

text \<open>Every call takes the connection from \<^verbatim>\<open>getDefaultDatabase\<close> of the class \<open>k\<close>, the default argument of the operations.\<close>

definition call_default :: "'p pq \<Rightarrow> hooks \<Rightarrow> model_class \<Rightarrow> config \<Rightarrow> string \<Rightarrow> db_call \<Rightarrow> 'p databases \<Rightarrow> unit result \<times> 'p databases" where
  "call_default P H C g k c h =
     (case getDefaultDatabase P g k h of
        (Inl e, h1) \<Rightarrow> (Inl e, h1)
      | (Inr a, h1) \<Rightarrow> (case do_call P H C c (objects h1 ! a) of (r, db) \<Rightarrow> (r, h1\<lparr>objects := (objects h1)[a := db]\<rparr>)))"

text \<open>A handler is what it still has to call, or the exception that ended it. A schedule says whose turn it is.\<close>

type_synonym db_handler = "exn + db_call list"

fun take_turn :: "'p pq \<Rightarrow> hooks \<Rightarrow> model_class \<Rightarrow> config \<Rightarrow> string \<Rightarrow> nat \<Rightarrow> db_handler list \<times> 'p databases \<Rightarrow> db_handler list \<times> 'p databases" where
  "take_turn P H C g k i (hs, h) =
     (case hs ! i of
        Inr (c # cs) \<Rightarrow> (case call_default P H C g k c h of
            (Inl e, h') \<Rightarrow> (hs[i := Inl e], h')
          | (Inr _, h') \<Rightarrow> (hs[i := Inr cs], h'))
      | _ \<Rightarrow> (hs, h))"

definition run_handlers :: "'p pq \<Rightarrow> hooks \<Rightarrow> model_class \<Rightarrow> config \<Rightarrow> string \<Rightarrow> db_call list list \<Rightarrow> nat list \<Rightarrow> 'p databases \<Rightarrow> db_handler list \<times> 'p databases" where
  "run_handlers P H C g k css sched h = fold (take_turn P H C g k) sched (map Inr css, h)"

text \<open>The object a handler of the class works on next.\<close>

definition default_object :: "'p pq \<Rightarrow> config \<Rightarrow> string \<Rightarrow> 'p databases \<Rightarrow> 'p database option" where
  "default_object P g k h = (case getDefaultDatabase P g k h of (Inl e, h1) \<Rightarrow> None | (Inr a, h1) \<Rightarrow> Some (objects h1 ! a))"

lemma call_default_object:
  assumes "statics_ok h" "default_object P g k h = Some db" "do_call P H C c db = (r, db')"
  shows "\<exists>h'. call_default P H C g k c h = (r, h') \<and> statics_ok h' \<and> default_object P g k h' = Some db'"
proof -
  obtain a h1 where g: "getDefaultDatabase P g k h = (Inr a, h1)" "objects h1 ! a = db"
    using assms(2) by (auto simp: default_object_def split: prod.splits sum.splits)
  have o: "statics_ok h1" "statics h1 k = Some a" using default_database_ok [OF assms(1) g(1)] by simp_all
  then have "a < length (objects h1)" by (auto simp: statics_ok_def)
  with g o assms(3) show ?thesis
    by (auto simp: call_default_def default_object_def getDefaultDatabase_def [of P g k "h1\<lparr>objects := _\<rparr>"] statics_ok_def)
qed

subsection \<open>Calls on a session\<close>

text \<open>\<^verbatim>\<open>BEGIN\<close> inside a transaction is answered with a warning and changes nothing. The runs considered are those in which
  the server acknowledges the statements that begin and end transactions.\<close>

definition pg_acknowledges :: "'p pq \<Rightarrow> ('p \<Rightarrow> 'd session) \<Rightarrow> bool" where
  "pg_acknowledges P st \<longleftrightarrow>
     (\<forall>p d c. st p = InTx d c \<longrightarrow> st (snd (pq_exec P ''BEGIN'' p)) = InTx d c) \<and>
     (\<forall>p. (\<forall>d. st p \<noteq> AbortedTx d) \<longrightarrow> fst (pq_exec P ''BEGIN'' p) = CommandOk) \<and>
     (\<forall>p. fst (pq_exec P ''COMMIT'' p) = CommandOk) \<and> (\<forall>p. fst (pq_exec P ''ROLLBACK'' p) = CommandOk)"

fun call_session :: "'d effect \<Rightarrow> (model_op \<Rightarrow> stmt option) \<Rightarrow> db_call \<Rightarrow> 'd session \<Rightarrow> 'd session" where
  "call_session eff f CallTransaction s = (case s of NoTx d \<Rightarrow> InTx d d | _ \<Rightarrow> s)"
| "call_session eff f (CallModel x) s = (case f x of None \<Rightarrow> s | Some q \<Rightarrow> issued eff q s)"
| "call_session eff f CallCommit s = NoTx (committed s)"
| "call_session eff f CallRollback s = NoTx (stored s)"

text \<open>The calls that are acknowledged, on the object and on the session at once.\<close>

definition call_ok :: "('p \<Rightarrow> 'd session) \<Rightarrow> ('p, unit) db_result \<Rightarrow> 'd session \<Rightarrow> bool" where
  "call_ok st z s \<longleftrightarrow> fst z = Inr () \<and> st (conn (snd z)) = s \<and> tracks st (snd z)"

lemma transaction_session:
  assumes "pg_session P st eff control" "pg_acknowledges P st" "\<forall>d. st (conn db) \<noteq> AbortedTx d"
  shows "call_ok st (transaction P [] db) (call_session eff f CallTransaction (st (conn db)))"
proof -
  obtain a db1 where b: "run_sql P ''BEGIN'' (db\<lparr>in_transaction := True\<rparr>) = (a, db1)" by force
  then have "conn db1 = snd (pq_exec P ''BEGIN'' (conn db))" "a = CommandOk" "in_transaction db1"
    using run_sql_simps [of P "''BEGIN''" "db\<lparr>in_transaction := True\<rparr>"] assms(2,3) by (auto simp: pg_acknowledges_def)
  moreover from this have "transaction P [] db = (Inr (), db1)" using b by (simp add: transaction_def)
  ultimately show ?thesis
    using assms by (cases "st (conn db)") (auto simp: pg_session_def pg_acknowledges_def tracks_def call_ok_def)
qed

lemma commit_session:
  assumes "pg_session P st eff control" "pg_acknowledges P st"
  shows "call_ok st (commit P db) (NoTx (committed (st (conn db))))"
proof -
  obtain a db1 where b: "run_sql P ''COMMIT'' db = (a, db1)" by force
  then have "conn db1 = snd (pq_exec P ''COMMIT'' (conn db))" "a = CommandOk"
    using run_sql_simps [of P "''COMMIT''" db] assms(2) by (auto simp: pg_acknowledges_def)
  then show ?thesis using assms b by (auto simp: commit_def pg_session_def pg_acknowledges_def tracks_def call_ok_def)
qed

lemma rollback_session:
  assumes "pg_session P st eff control" "pg_acknowledges P st" "tracks st db"
  shows "call_ok st (rollback P [] db) (NoTx (stored (st (conn db))))"
proof (cases "in_transaction db")
  case True
  obtain a db1 where b: "run_sql P ''ROLLBACK'' (db\<lparr>in_transaction := False\<rparr>) = (a, db1)" by force
  then have "conn db1 = snd (pq_exec P ''ROLLBACK'' (conn db))" "a = CommandOk" "\<not> in_transaction db1"
    using run_sql_simps [of P "''ROLLBACK''" "db\<lparr>in_transaction := False\<rparr>"] assms(2) by (auto simp: pg_acknowledges_def)
  then show ?thesis using assms(1) b True by (simp add: rollback_def pg_session_def tracks_def call_ok_def)
next
  case False
  then show ?thesis using assms(3) by (cases "st (conn db)") (auto simp: rollback_def tracks_def call_ok_def)
qed

lemma do_call_session:
  assumes "pg_session P st eff control" "pg_acknowledges P st" "tracks st db"
    and "c = CallTransaction \<Longrightarrow> \<forall>d. st (conn db) \<noteq> AbortedTx d"
    and "\<And>x q. c = CallModel x \<Longrightarrow> stmt_of P H C x = Some q \<Longrightarrow> \<not> control (snd q)"
  shows "call_ok st (do_call P H C c db) (call_session eff (stmt_of P H C) c (st (conn db)))"
proof (cases c)
  case (CallModel x)
  then show ?thesis
    using assms(3,5) issue_issued [OF assms(1) _ assms(3)] by (cases "stmt_of P H C x") (auto simp: apply_op_issue call_ok_def)
qed (use transaction_session [OF assms(1,2)] assms(4) commit_session [OF assms(1,2)] rollback_session [OF assms(1-3)] in simp_all)

text \<open>One turn of a handler, on the session.\<close>

definition serves :: "'p pq \<Rightarrow> config \<Rightarrow> string \<Rightarrow> ('p \<Rightarrow> 'd session) \<Rightarrow> 'p databases \<Rightarrow> 'd session \<Rightarrow> bool" where
  "serves P g k st h s \<longleftrightarrow> statics_ok h \<and> (\<exists>db. default_object P g k h = Some db \<and> st (conn db) = s \<and> tracks st db)"

lemma turn_session:
  assumes "pg_session P st eff control" "pg_acknowledges P st" "serves P g k st h s" "hs ! i = Inr (c # cs)"
    and "c = CallTransaction \<Longrightarrow> \<forall>d. s \<noteq> AbortedTx d"
    and "\<And>x q. c = CallModel x \<Longrightarrow> stmt_of P H C x = Some q \<Longrightarrow> \<not> control (snd q)"
  shows "\<exists>h'. take_turn P H C g k i (hs, h) = (hs[i := Inr cs], h') \<and> serves P g k st h' (call_session eff (stmt_of P H C) c s)"
proof -
  obtain db where db: "statics_ok h" "default_object P g k h = Some db" "st (conn db) = s" "tracks st db"
    using assms(3) by (auto simp: serves_def)
  obtain r db' where r: "do_call P H C c db = (r, db')" by force
  have ok: "call_ok st (do_call P H C c db) (call_session eff (stmt_of P H C) c s)"
    using do_call_session [OF assms(1,2) db(4), of c H C] assms(5,6) db(3) by simp
  from call_default_object [OF db(1,2) r] obtain h'
    where "call_default P H C g k c h = (r, h')" "statics_ok h'" "default_object P g k h' = Some db'" by blast
  with ok r assms(4) show ?thesis by (auto simp: serves_def call_ok_def)
qed

subsection \<open>Units of work at the same time\<close>

text \<open>The turns of a schedule, on the session: who calls what is fixed as long as nothing throws.\<close>

inductive turns :: "'d effect \<Rightarrow> (model_op \<Rightarrow> stmt option) \<Rightarrow> (string \<Rightarrow> bool) \<Rightarrow> nat list \<Rightarrow> db_handler list \<Rightarrow> 'd session \<Rightarrow> db_handler list \<Rightarrow> 'd session \<Rightarrow> bool"
  for eff f control where
  turns_end: "turns eff f control [] hs s hs s"
| turns_next: "hs ! i = Inr (c # cs) \<Longrightarrow> (c = CallTransaction \<Longrightarrow> \<forall>d. s \<noteq> AbortedTx d) \<Longrightarrow>
    (\<And>x q. c = CallModel x \<Longrightarrow> f x = Some q \<Longrightarrow> \<not> control (snd q)) \<Longrightarrow>
    turns eff f control sched (hs[i := Inr cs]) (call_session eff f c s) hs' s' \<Longrightarrow> turns eff f control (i # sched) hs s hs' s'"

lemma turns_run:
  assumes "turns eff (stmt_of P H C) control sched hs s hs' s'" "pg_session P st eff control" "pg_acknowledges P st" "serves P g k st h s"
  shows "\<exists>h'. fold (take_turn P H C g k) sched (hs, h) = (hs', h') \<and> serves P g k st h' s'"
  using assms(1,4)
proof (induction arbitrary: h)
  case (turns_next hs i c cs s sched hs' s')
  from turn_session [OF assms(2,3) turns_next.prems turns_next.hyps(1), of H C] turns_next.hyps(2,3) obtain h1
    where 1: "take_turn P H C g k i (hs, h) = (hs[i := Inr cs], h1)" "serves P g k st h1 (call_session eff (stmt_of P H C) c s)" by blast
  show ?case using turns_next.IH [OF 1(2)] 1(1) by simp
qed auto

text \<open>Both handlers came to their end, and the database holds \<open>d\<close> with no transaction open.\<close>

definition both_done :: "'p pq \<Rightarrow> config \<Rightarrow> string \<Rightarrow> ('p \<Rightarrow> 'd session) \<Rightarrow> db_handler list \<times> 'p databases \<Rightarrow> 'd \<Rightarrow> bool" where
  "both_done P g k st z d \<longleftrightarrow>
     fst z = [Inr [], Inr []] \<and> (case default_object P g k (snd z) of None \<Rightarrow> False | Some db \<Rightarrow> st (conn db) = NoTx d)"

lemma turns_done:
  assumes "turns eff (stmt_of P H C) control sched (map Inr css) (NoTx d) [Inr [], Inr []] (NoTx d')"
    and "pg_session P st eff control" "pg_acknowledges P st"
    and "statics_ok h" "statics h k = None" "Database P g = Inr x" "st (conn x) = NoTx d"
  shows "both_done P g k st (run_handlers P H C g k css sched h) d'"
proof -
  have "\<not> in_transaction x" using assms(6) by (auto simp: Database_def split: prod.splits option.splits)
  then have "serves P g k st h (NoTx d)"
    using assms(4-7) by (auto simp: serves_def default_object_def getDefaultDatabase_def tracks_def)
  from turns_run [OF assms(1-3) this] show ?thesis by (auto simp: run_handlers_def both_done_def serves_def)
qed

text \<open>C35: Two handlers that work on the same model class do not have transactions of their own, because they share the
  connection of the class and \<^verbatim>\<open>transaction\<close> does not refuse to begin inside a transaction. With one that rolls its change
  back and one that commits, either order of running them one after the other leaves only the committed change;
  but there is an interleaving in which no call throws and after which both changes are durable, the one that
  was rolled back too. This is stated of runs in which the server acknowledges \<^verbatim>\<open>BEGIN\<close>, \<^verbatim>\<open>COMMIT\<close> and \<^verbatim>\<open>ROLLBACK\<close>,
  and of two changes that succeed.\<close>

theorem shared_connection_mixes_transactions:
  assumes "pg_session P st eff control" "pg_acknowledges P st"
    and "statics_ok h" "statics h k = None" "Database P g = Inr x" "st (conn x) = NoTx d"
    and "stmt_of P H C a = Some (e1, q1)" "stmt_of P H C b = Some (e2, q2)" "\<not> control q1" "\<not> control q2"
    and "eff q1 d = Some da" "eff q2 d = Some d2" "eff q2 da = Some dab"
  shows "let outcome = (\<lambda>sched. run_handlers P H C g k
            [[CallTransaction, CallModel a, CallRollback], [CallTransaction, CallModel b, CallCommit]] sched h)
         in both_done P g k st (outcome [0, 0, 0, 1, 1, 1]) d2 \<and> both_done P g k st (outcome [1, 1, 1, 0, 0, 0]) d2 \<and>
            both_done P g k st (outcome [0, 1, 0, 1, 1, 0]) dab"
proof -
  let ?f = "stmt_of P H C"
  let ?css = "[[CallTransaction, CallModel a, CallRollback], [CallTransaction, CallModel b, CallCommit]]"
  have 1: "turns eff ?f control [0, 0, 0, 1, 1, 1] (map Inr ?css) (NoTx d) [Inr [], Inr []] (NoTx d2)"
    using assms(7-13) by (auto intro!: turns.intros)
  have 2: "turns eff ?f control [1, 1, 1, 0, 0, 0] (map Inr ?css) (NoTx d) [Inr [], Inr []] (NoTx d2)"
    using assms(7-13) by (cases "eff q1 d2") (auto intro!: turns.intros)
  have 3: "turns eff ?f control [0, 1, 0, 1, 1, 0] (map Inr ?css) (NoTx d) [Inr [], Inr []] (NoTx dab)"
    using assms(7-13) by (auto intro!: turns.intros)
  show ?thesis
    unfolding Let_def using turns_done [OF 1 assms(1-6)] turns_done [OF 2 assms(1-6)] turns_done [OF 3 assms(1-6)] by blast
qed

subsection \<open>Witnesses\<close>

text \<open>A deferred constraint: the \<^verbatim>\<open>COMMIT\<close> of a transaction that only deletes the row 1 is refused.\<close>

definition refusing_pq :: "string list session pq" where
  "refusing_pq = log_pq\<lparr>pq_exec := (\<lambda>q s.
     if q = ''COMMIT'' \<and> committed s = [del 1] then (PgFailed ''deferred constraint'', NoTx (stored s)) else pq_exec log_pq q s)\<rparr>"

lemma refusing_session: "pg_session refusing_pq (\<lambda>s. s) log_effect log_control"
  by (auto simp: pg_session_def refusing_pq_def log_pq_def log_control_def)

theorem serial_units_atomic_witness:
  "conn (snd (run_units refusing_pq no_hooks sample_class [[DeleteIdOp 1], [DeleteIdOp 3, DeleteIdOp 4]] log_db)) = NoTx [del 3, del 4]"
proof -
  let ?o = "[[DeleteIdOp 1], [DeleteIdOp 3, DeleteIdOp 4]]"
  let ?e = "runtime_error (''Failed to commit: '' @ ''deferred constraint'')"
  have c: "\<forall>ops \<in> set ?o. \<forall>s \<in> set (stmts refusing_pq no_hooks sample_class ops). \<not> log_control (snd s)" by code_simp
  have f: "fails_last log_effect (map (stmts refusing_pq no_hooks sample_class) ?o) []" by code_simp
  have d: "conn log_db = NoTx []" by (simp add: log_db_def)
  obtain rs db' where u: "run_units refusing_pq no_hooks sample_class ?o log_db = (rs, db')" by force
  have r: "fst (run_units refusing_pq no_hooks sample_class ?o log_db) = [Inl ?e, Inr ()]" by code_simp
  have "stmts refusing_pq no_hooks sample_class [DeleteIdOp 1] = [(True, del 1)]"
    "unit_effect log_effect [(True, del 1)] [] = [del 1]"
    "stmts refusing_pq no_hooks sample_class [DeleteIdOp 3, DeleteIdOp 4] = [(True, del 3), (True, del 4)]"
    "unit_effect log_effect [(True, del 3), (True, del 4)] [] = [del 3, del 4]"
    "unit_effect log_effect [(True, del 3), (True, del 4)] [del 1] = [del 1, del 3, del 4]" by code_simp+
  moreover have "conn (snd (run_units refusing_pq no_hooks sample_class ?o log_db)) \<noteq> NoTx [del 1, del 3, del 4]" by code_simp
  ultimately show ?thesis using serial_units_atomic [OF refusing_session d c f u] r u by auto
qed

lemma log_acknowledges: "pg_acknowledges log_pq (\<lambda>s. s)"
  by (auto simp: pg_acknowledges_def log_pq_def split: session.splits)

theorem shared_connection_mixes_transactions_witness:
  "both_done log_pq sample_config ''User'' (\<lambda>s. s) (run_handlers log_pq no_hooks sample_class sample_config ''User''
     [[CallTransaction, CallModel (DeleteIdOp 1), CallRollback], [CallTransaction, CallModel (DeleteIdOp 3), CallCommit]]
     [0, 1, 0, 1, 1, 0] \<lparr>objects = [], statics = (\<lambda>k. None)\<rparr>) [del 1, del 3]"
proof -
  let ?h = "\<lparr>objects = [], statics = (\<lambda>k. None)\<rparr> :: string list session databases"
  have d: "statics_ok ?h" "statics ?h ''User'' = None" "Database log_pq sample_config = Inr log_db" "conn log_db = NoTx []"
    by (simp_all add: statics_ok_def log_db_def Database_def log_pq_def)
  have s: "stmt_of log_pq no_hooks sample_class (DeleteIdOp 1) = Some (True, del 1)"
    "stmt_of log_pq no_hooks sample_class (DeleteIdOp 3) = Some (True, del 3)" by (simp_all add: del_def)
  have e: "\<not> log_control (del 1)" "\<not> log_control (del 3)" "log_effect (del 1) [] = Some [del 1]"
    "log_effect (del 3) [] = Some [del 3]" "log_effect (del 3) [del 1] = Some [del 1, del 3]" by code_simp+
  from shared_connection_mixes_transactions [OF log_session log_acknowledges d s e] show ?thesis unfolding Let_def by blast
qed

end
