(* ===== verification/Crypto.thy ===== *)
theory Crypto
  imports Prelude
begin

text \<open>
  \<^verbatim>\<open>src/Cryptography/AES.cpp\<close>, \<^verbatim>\<open>src/Cryptography/RSA.cpp\<close> and \<^verbatim>\<open>src/Hash.cpp\<close>: the framing, encoding and error
  handling around OpenSSL, which is a parameter (\<open>evp\<close>, \<open>rsa_lib\<close>, \<open>kdf\<close>). Strings are byte strings. The casts of their
  sizes to \<^verbatim>\<open>int\<close> are left out: the theory is about strings of fewer than 2^31 bytes, where they change nothing.
\<close>

subsection \<open>Hexadecimal\<close>

definition hexChars :: string where
  "hexChars = ''0123456789abcdef''"

definition toHex :: "string \<Rightarrow> string" where
  "toHex binary = concat (map (\<lambda>c. [hexChars ! (of_char c div 16), hexChars ! (of_char c mod 16)]) binary)"

definition hex_value :: "char \<Rightarrow> nat option" where
  "hex_value c =
     (let n = of_char c in
      if 48 \<le> n \<and> n \<le> 57 then Some (n - 48)
      else if 97 \<le> n \<and> n \<le> 102 then Some (n - 97 + 10)
      else if 65 \<le> n \<and> n \<le> 70 then Some (n - 65 + 10)
      else None)"

fun hex_pairs :: "string \<Rightarrow> string result" where
  "hex_pairs (high # low # rest) =
     (case hex_value high of
        None \<Rightarrow> Inl (runtime_error ''Invalid hex character'')
      | Some h \<Rightarrow>
          (case hex_value low of
             None \<Rightarrow> Inl (runtime_error ''Invalid hex character'')
           | Some l \<Rightarrow> bind_result (hex_pairs rest) (\<lambda>bs. Inr (char_of (16 * h + l) # bs))))"
| "hex_pairs _ = Inr []"

definition fromHex :: "string \<Rightarrow> string result" where
  "fromHex hex = (if odd (length hex) then Inl (runtime_error ''Invalid hex string length'') else hex_pairs hex)"

subsection \<open>AES-256\<close>

definition KEY_SIZE :: nat where "KEY_SIZE = 32"
definition BLOCK_SIZE :: nat where "BLOCK_SIZE = 16"
definition SALT_SIZE :: nat where "SALT_SIZE = 16"
definition HMAC_SIZE :: nat where "HMAC_SIZE = 32"

record 'w evp =
  rand_bytes :: "nat \<Rightarrow> 'w \<Rightarrow> string option \<times> 'w"
  cipher_ctx :: bool
  encrypt_init :: "string \<Rightarrow> string \<Rightarrow> bool"
  encrypt_update :: "string \<Rightarrow> string \<Rightarrow> string \<Rightarrow> string option"
  encrypt_final :: "string \<Rightarrow> string \<Rightarrow> string \<Rightarrow> string option"
  decrypt_init :: "string \<Rightarrow> string \<Rightarrow> bool"
  decrypt_update :: "string \<Rightarrow> string \<Rightarrow> string \<Rightarrow> string option"
  decrypt_final :: "string \<Rightarrow> string \<Rightarrow> string \<Rightarrow> string option"
  hmac_sha256 :: "string \<Rightarrow> string \<Rightarrow> string" \<comment> \<open>key, data; its length is what \<^verbatim>\<open>HMAC\<close> reports\<close>
  pbkdf2 :: "string \<Rightarrow> string \<Rightarrow> int \<Rightarrow> string option"

definition generateRandomBytes :: "'w evp \<Rightarrow> nat \<Rightarrow> 'w \<Rightarrow> string result \<times> 'w" where
  "generateRandomBytes E n w =
     (case rand_bytes E n w of
        (None, w') \<Rightarrow> (Inl (runtime_error ''Failed to generate random bytes''), w')
      | (Some s, w') \<Rightarrow> (Inr s, w'))"

definition generateKey :: "'w evp \<Rightarrow> 'w \<Rightarrow> string result \<times> 'w" where
  "generateKey E w = generateRandomBytes E KEY_SIZE w"

definition generateIV :: "'w evp \<Rightarrow> 'w \<Rightarrow> string result \<times> 'w" where
  "generateIV E w = generateRandomBytes E BLOCK_SIZE w"

definition aes_generateSalt :: "'w evp \<Rightarrow> 'w \<Rightarrow> string result \<times> 'w" where
  "aes_generateSalt E w = generateRandomBytes E SALT_SIZE w"

definition deriveKeyFromPassword :: "'w evp \<Rightarrow> string \<Rightarrow> string \<Rightarrow> int \<Rightarrow> string result" where
  "deriveKeyFromPassword E password salt iters =
     (case pbkdf2 E password salt iters of
        None \<Rightarrow> Inl (runtime_error ''PBKDF2 key derivation failed'') | Some k \<Rightarrow> Inr k)"

definition validateKey :: "string \<Rightarrow> bool result" where
  "validateKey k =
     (if length k \<noteq> KEY_SIZE then Inl (runtime_error ''Invalid key size: must be 32 bytes (256 bits)'') else Inr True)"

definition validateIV :: "string \<Rightarrow> bool result" where
  "validateIV iv =
     (if length iv \<noteq> BLOCK_SIZE then Inl (runtime_error ''Invalid IV size: must be 16 bytes (128 bits)'') else Inr True)"

definition encrypt :: "'w evp \<Rightarrow> string \<Rightarrow> string \<Rightarrow> string \<Rightarrow> string result" where
  "encrypt E plaintext k iv =
     bind_result (validateKey k) (\<lambda>_. bind_result (validateIV iv) (\<lambda>_.
       if \<not> cipher_ctx E then Inl (runtime_error ''Failed to create cipher context'')
       else if \<not> encrypt_init E k iv then Inl (runtime_error ''Failed to initialize encryption'')
       else case encrypt_update E k iv plaintext of
              None \<Rightarrow> Inl (runtime_error ''Encryption update failed'')
            | Some a \<Rightarrow>
                (case encrypt_final E k iv plaintext of
                   None \<Rightarrow> Inl (runtime_error ''Encryption finalization failed'')
                 | Some b \<Rightarrow> Inr (a @ b))))"

definition decrypt :: "'w evp \<Rightarrow> string \<Rightarrow> string \<Rightarrow> string \<Rightarrow> string result" where
  "decrypt E ciphertext k iv =
     bind_result (validateKey k) (\<lambda>_. bind_result (validateIV iv) (\<lambda>_.
       if ciphertext = [] then Inr []
       else if \<not> cipher_ctx E then Inl (runtime_error ''Failed to create cipher context'')
       else if \<not> decrypt_init E k iv then Inl (runtime_error ''Failed to initialize decryption'')
       else case decrypt_update E k iv ciphertext of
              None \<Rightarrow> Inl (runtime_error ''Decryption update failed'')
            | Some a \<Rightarrow>
                (case decrypt_final E k iv ciphertext of
                   None \<Rightarrow> Inl (runtime_error ''Decryption finalization failed - wrong key or corrupted data'')
                 | Some b \<Rightarrow> Inr (a @ b))))"

definition computeHmac :: "'w evp \<Rightarrow> string \<Rightarrow> string \<Rightarrow> string result" where
  "computeHmac E data k =
     (let h = hmac_sha256 E k data
      in if length h \<noteq> HMAC_SIZE then Inl (runtime_error ''HMAC computation failed'') else Inr h)"

definition encryptWithHmac :: "'w evp \<Rightarrow> string \<Rightarrow> string \<Rightarrow> string \<Rightarrow> string result" where
  "encryptWithHmac E plaintext k iv =
     bind_result (encrypt E plaintext k iv) (\<lambda>c. bind_result (computeHmac E c k) (\<lambda>h. Inr (h @ c)))"

definition decryptWithHmac :: "'w evp \<Rightarrow> string \<Rightarrow> string \<Rightarrow> string \<Rightarrow> string result" where
  "decryptWithHmac E data k iv =
     (if length data < HMAC_SIZE then Inl (runtime_error ''Data is too short to contain HMAC'')
      else let h = take HMAC_SIZE data; c = drop HMAC_SIZE data
           in bind_result (computeHmac E c k) (\<lambda>h'.
                if h \<noteq> h' then Inl (runtime_error ''HMAC verification failed - message corrupted or tampered'')
                else decrypt E c k iv))"

definition encryptMessage :: "'w evp \<Rightarrow> string \<Rightarrow> string \<Rightarrow> 'w \<Rightarrow> string result \<times> 'w" where
  "encryptMessage E message k w =
     (case generateIV E w of
        (Inl e, w') \<Rightarrow> (Inl e, w')
      | (Inr iv, w') \<Rightarrow> (bind_result (encrypt E message k iv) (\<lambda>c. Inr (iv @ c)), w'))"

definition decryptMessage :: "'w evp \<Rightarrow> string \<Rightarrow> string \<Rightarrow> string result" where
  "decryptMessage E data k =
     (if length data < BLOCK_SIZE then Inl (runtime_error ''Encrypted data is too short'')
      else decrypt E (drop BLOCK_SIZE data) k (take BLOCK_SIZE data))"

subsection \<open>Password hashes\<close>

record 'w kdf =
  kdf_fetch :: bool
  kdf_ctx :: bool
  argon2id :: "nat \<Rightarrow> nat \<Rightarrow> nat \<Rightarrow> nat \<Rightarrow> string \<Rightarrow> string \<Rightarrow> string option"
    \<comment> \<open>iterations, memory cost, parallelism, output length, password and salt to the derived bytes\<close>
  kdf_rand :: "nat \<Rightarrow> 'w \<Rightarrow> string option \<times> 'w"

definition iterations :: nat where "iterations = 10"
definition memory_cost :: nat where "memory_cost = 16"
definition parallelism :: nat where "parallelism = 1"
definition output_length :: nat where "output_length = 32"

definition generateSalt :: "'w kdf \<Rightarrow> nat \<Rightarrow> 'w \<Rightarrow> string \<times> 'w" where
  "generateSalt K n w = (case kdf_rand K n w of (None, w') \<Rightarrow> ([], w') | (Some s, w') \<Rightarrow> (s, w'))"

definition hash :: "'w kdf \<Rightarrow> string \<Rightarrow> string \<Rightarrow> 'w \<Rightarrow> (string \<times> string) \<times> 'w" where
  "hash K password salt0 w =
     (if \<not> kdf_fetch K \<or> \<not> kdf_ctx K then (([], []), w)
      else let (salt, w') = (if salt0 \<noteq> [] then (salt0, w) else generateSalt K 64 w)
           in case argon2id K iterations memory_cost parallelism output_length password salt of
                None \<Rightarrow> (([], []), w')
              | Some out \<Rightarrow> ((toHex out, salt), w'))"

text \<open>\<^verbatim>\<open>strtol\<close> in base 16 on at most two characters: white space, a sign, then digits as far as they go.\<close>

definition is_space :: "char \<Rightarrow> bool" where
  "is_space c \<longleftrightarrow> c = CHR '' '' \<or> (9 \<le> (of_char c :: nat) \<and> (of_char c :: nat) \<le> 13)"

fun hex_digits :: "int \<Rightarrow> string \<Rightarrow> int" where
  "hex_digits acc [] = acc"
| "hex_digits acc (c # cs) = (case hex_value c of None \<Rightarrow> acc | Some d \<Rightarrow> hex_digits (16 * acc + int d) cs)"

definition strtol16 :: "string \<Rightarrow> int" where
  "strtol16 s =
     (case dropWhile is_space s of
        [] \<Rightarrow> 0
      | c # cs \<Rightarrow> if c = CHR ''-'' then - hex_digits 0 cs else if c = CHR ''+'' then hex_digits 0 cs
                 else hex_digits 0 (c # cs))"

fun hexStringToBytes :: "string \<Rightarrow> string" where
  "hexStringToBytes (a # b # rest) = char_of (nat (strtol16 [a, b] mod 256)) # hexStringToBytes rest"
| "hexStringToBytes [a] = [char_of (nat (strtol16 [a] mod 256))]"
| "hexStringToBytes [] = []"

definition bytesToHexString :: "string \<Rightarrow> string" where
  "bytesToHexString bytes = concat (map (\<lambda>c. [hexChars ! (of_char c div 16), hexChars ! (of_char c mod 16)]) bytes)"

definition verify :: "'w kdf \<Rightarrow> string \<Rightarrow> string \<Rightarrow> string \<Rightarrow> 'w \<Rightarrow> bool \<times> 'w" where
  "verify K password stored_hash salt w =
     (case hash K password salt w of
        ((new_hash, _), w') \<Rightarrow> (hexStringToBytes stored_hash = hexStringToBytes new_hash, w'))"

subsection \<open>RSA\<close>

datatype rsa_object = RBio | RPkey | RPkeyCtx | RMdCtx

text \<open>The OpenSSL calls; \<open>'k\<close> is a loaded key.\<close>

record 'k rsa_lib =
  keygen_ctx :: bool
  keygen_init :: bool
  keygen_bits :: "int \<Rightarrow> bool"
  keygen :: "int \<Rightarrow> 'k option"
  bio_mem :: "nat \<Rightarrow> bool" \<comment> \<open>the n-th \<^verbatim>\<open>BIO_new\<close> of the call\<close>
  write_pub :: "'k \<Rightarrow> string option"
  write_priv :: "'k \<Rightarrow> string option"
  bio_buf :: "string \<Rightarrow> bool"
  read_pub :: "string \<Rightarrow> 'k option"
  read_priv :: "string \<Rightarrow> 'k option"
  pkey_ctx :: "'k \<Rightarrow> bool"
  enc_init :: "'k \<Rightarrow> bool"
  dec_init :: "'k \<Rightarrow> bool"
  oaep :: "'k \<Rightarrow> bool"
  enc_len :: "'k \<Rightarrow> string \<Rightarrow> bool"
  enc_run :: "'k \<Rightarrow> string \<Rightarrow> string option"
  dec_len :: "'k \<Rightarrow> string \<Rightarrow> bool"
  dec_run :: "'k \<Rightarrow> string \<Rightarrow> string option"
  md_ctx :: bool
  sign_init :: "'k \<Rightarrow> bool"
  sign_update :: "string \<Rightarrow> bool"
  sign_len :: bool
  sign_final :: "'k \<Rightarrow> string \<Rightarrow> string option"
  verify_init :: "'k \<Rightarrow> bool"
  verify_update :: "string \<Rightarrow> bool"
  verify_final :: "'k \<Rightarrow> string \<Rightarrow> string \<Rightarrow> int"

type_synonym rsa_trace = "rsa_object res_event list"

text \<open>Freeing what is held and throwing; OpenSSL's error string is left out of the messages.\<close>

definition free_throw :: "rsa_object list \<Rightarrow> string \<Rightarrow> rsa_trace \<Rightarrow> 'a result \<times> rsa_trace" where
  "free_throw held msg tr = (Inl (runtime_error msg), tr @ map Release held)"

definition loadPublicKey :: "'k rsa_lib \<Rightarrow> string \<Rightarrow> rsa_trace \<Rightarrow> 'k option \<times> rsa_trace" where
  "loadPublicKey L pem tr =
     (if \<not> bio_buf L pem then (None, tr)
      else (read_pub L pem, tr @ [Acquire RBio] @ (if read_pub L pem = None then [] else [Acquire RPkey]) @ [Release RBio]))"

definition loadPrivateKey :: "'k rsa_lib \<Rightarrow> string \<Rightarrow> rsa_trace \<Rightarrow> 'k option \<times> rsa_trace" where
  "loadPrivateKey L pem tr =
     (if \<not> bio_buf L pem then (None, tr)
      else (read_priv L pem, tr @ [Acquire RBio] @ (if read_priv L pem = None then [] else [Acquire RPkey]) @ [Release RBio]))"

definition encryptWithPublic :: "'k rsa_lib \<Rightarrow> string \<Rightarrow> string \<Rightarrow> rsa_trace \<Rightarrow> string result \<times> rsa_trace" where
  "encryptWithPublic L plaintext publicKey tr =
     (case loadPublicKey L publicKey tr of
        (None, t) \<Rightarrow> free_throw [] ''Failed to load public key: '' t
      | (Some k, t) \<Rightarrow>
          if \<not> pkey_ctx L k then free_throw [RPkey] ''Failed to create encryption context: '' t
          else let t = t @ [Acquire RPkeyCtx] in
          if \<not> enc_init L k then free_throw [RPkeyCtx, RPkey] ''Failed to initialize encryption: '' t
          else if \<not> oaep L k then free_throw [RPkeyCtx, RPkey] ''Failed to set RSA padding: '' t
          else if \<not> enc_len L k plaintext then free_throw [RPkeyCtx, RPkey] ''Failed to get encrypted length: '' t
          else case enc_run L k plaintext of
                 None \<Rightarrow> free_throw [RPkeyCtx, RPkey] ''Failed to encrypt: '' t
               | Some out \<Rightarrow> (Inr out, t @ [Release RPkeyCtx, Release RPkey]))"

definition decryptWithPrivate :: "'k rsa_lib \<Rightarrow> string \<Rightarrow> string \<Rightarrow> rsa_trace \<Rightarrow> string result \<times> rsa_trace" where
  "decryptWithPrivate L ciphertext privateKey tr =
     (case loadPrivateKey L privateKey tr of
        (None, t) \<Rightarrow> free_throw [] ''Failed to load private key: '' t
      | (Some k, t) \<Rightarrow>
          if \<not> pkey_ctx L k then free_throw [RPkey] ''Failed to create decryption context: '' t
          else let t = t @ [Acquire RPkeyCtx] in
          if \<not> dec_init L k then free_throw [RPkeyCtx, RPkey] ''Failed to initialize decryption: '' t
          else if \<not> oaep L k then free_throw [RPkeyCtx, RPkey] ''Failed to set RSA padding: '' t
          else if \<not> dec_len L k ciphertext then free_throw [RPkeyCtx, RPkey] ''Failed to get decrypted length: '' t
          else case dec_run L k ciphertext of
                 None \<Rightarrow> free_throw [RPkeyCtx, RPkey] ''Failed to decrypt: '' t
               | Some out \<Rightarrow> (Inr out, t @ [Release RPkeyCtx, Release RPkey]))"

definition decryptWithPublic :: "'k rsa_lib \<Rightarrow> string \<Rightarrow> string \<Rightarrow> rsa_trace \<Rightarrow> string result \<times> rsa_trace" where
  "decryptWithPublic L ciphertext publicKey tr =
     (case loadPublicKey L publicKey tr of
        (None, t) \<Rightarrow> free_throw [] ''Failed to load public key: '' t
      | (Some k, t) \<Rightarrow>
          if \<not> pkey_ctx L k then free_throw [RPkey] ''Failed to create decryption context: '' t
          else let t = t @ [Acquire RPkeyCtx] in
          if \<not> dec_init L k then free_throw [RPkeyCtx, RPkey] ''Failed to initialize decryption: '' t
          else if \<not> oaep L k then free_throw [RPkeyCtx, RPkey] ''Failed to set RSA padding: '' t
          else if \<not> dec_len L k ciphertext then free_throw [RPkeyCtx, RPkey] ''Failed to get decrypted length: '' t
          else case dec_run L k ciphertext of
                 None \<Rightarrow> free_throw [RPkeyCtx, RPkey] ''Failed to decrypt with public key: '' t
               | Some out \<Rightarrow> (Inr out, t @ [Release RPkeyCtx, Release RPkey]))"

definition sign :: "'k rsa_lib \<Rightarrow> string \<Rightarrow> string \<Rightarrow> rsa_trace \<Rightarrow> string result \<times> rsa_trace" where
  "sign L data privateKey tr =
     (case loadPrivateKey L privateKey tr of
        (None, t) \<Rightarrow> free_throw [] ''Failed to load private key for signing: '' t
      | (Some k, t) \<Rightarrow>
          if \<not> md_ctx L then free_throw [RPkey] ''Failed to create signature context'' t
          else let t = t @ [Acquire RMdCtx] in
          if \<not> sign_init L k then free_throw [RMdCtx, RPkey] ''Failed to initialize signing: '' t
          else if \<not> sign_update L data then free_throw [RMdCtx, RPkey] ''Failed to update signature: '' t
          else if \<not> sign_len L then free_throw [RMdCtx, RPkey] ''Failed to get signature length: '' t
          else case sign_final L k data of
                 None \<Rightarrow> free_throw [RMdCtx, RPkey] ''Failed to create signature: '' t
               | Some sig \<Rightarrow> (Inr sig, t @ [Release RMdCtx, Release RPkey]))"

definition encryptWithPrivate :: "'k rsa_lib \<Rightarrow> string \<Rightarrow> string \<Rightarrow> rsa_trace \<Rightarrow> string result \<times> rsa_trace" where
  "encryptWithPrivate L plaintext privateKey tr = sign L plaintext privateKey tr"

definition RSA_verify :: "'k rsa_lib \<Rightarrow> string \<Rightarrow> string \<Rightarrow> string \<Rightarrow> rsa_trace \<Rightarrow> bool result \<times> rsa_trace" where
  "RSA_verify L data signature publicKey tr =
     (case loadPublicKey L publicKey tr of
        (None, t) \<Rightarrow> free_throw [] ''Failed to load public key for verification: '' t
      | (Some k, t) \<Rightarrow>
          if \<not> md_ctx L then free_throw [RPkey] ''Failed to create verification context'' t
          else let t = t @ [Acquire RMdCtx] in
          if \<not> verify_init L k then free_throw [RMdCtx, RPkey] ''Failed to initialize verification: '' t
          else if \<not> verify_update L data then free_throw [RMdCtx, RPkey] ''Failed to update verification: '' t
          else (Inr (verify_final L k data signature = 1), t @ [Release RMdCtx, Release RPkey]))"

definition validatePublicKey :: "'k rsa_lib \<Rightarrow> string \<Rightarrow> rsa_trace \<Rightarrow> bool \<times> rsa_trace" where
  "validatePublicKey L publicKey tr =
     (case loadPublicKey L publicKey tr of (None, t) \<Rightarrow> (False, t) | (Some _, t) \<Rightarrow> (True, t @ [Release RPkey]))"

definition validatePrivateKey :: "'k rsa_lib \<Rightarrow> string \<Rightarrow> rsa_trace \<Rightarrow> bool \<times> rsa_trace" where
  "validatePrivateKey L privateKey tr =
     (case loadPrivateKey L privateKey tr of (None, t) \<Rightarrow> (False, t) | (Some _, t) \<Rightarrow> (True, t @ [Release RPkey]))"

definition extractPublicKey :: "'k rsa_lib \<Rightarrow> string \<Rightarrow> rsa_trace \<Rightarrow> string result \<times> rsa_trace" where
  "extractPublicKey L privateKey tr =
     (case loadPrivateKey L privateKey tr of
        (None, t) \<Rightarrow> free_throw [] ''Failed to load private key: '' t
      | (Some k, t) \<Rightarrow>
          if \<not> bio_mem L 0 then free_throw [RPkey] ''Failed to create BIO'' t
          else let t = t @ [Acquire RBio] in
          case write_pub L k of
            None \<Rightarrow> free_throw [RBio, RPkey] ''Failed to extract public key: '' t
          | Some pem \<Rightarrow> (Inr pem, t @ [Release RBio, Release RPkey]))"

definition generateKeyPair :: "'k rsa_lib \<Rightarrow> int \<Rightarrow> rsa_trace \<Rightarrow> (string \<times> string) result \<times> rsa_trace" where
  "generateKeyPair L bits tr =
     (if \<not> keygen_ctx L then free_throw [] ''Failed to create RSA context: '' tr
      else let t = tr @ [Acquire RPkeyCtx] in
      if \<not> keygen_init L then free_throw [RPkeyCtx] ''Failed to initialize key generation: '' t
      else if \<not> keygen_bits L bits then free_throw [RPkeyCtx] ''Failed to set RSA key size: '' t
      else case keygen L bits of
        None \<Rightarrow> free_throw [RPkeyCtx] ''Failed to generate RSA key pair: '' t
      | Some k \<Rightarrow>
          (let t = t @ [Acquire RPkey, Release RPkeyCtx] in
           if \<not> bio_mem L 0 then free_throw [RPkey] ''Failed to create BIO for public key'' t
           else let t = t @ [Acquire RBio] in
           case write_pub L k of
             None \<Rightarrow> free_throw [RBio, RPkey] ''Failed to write public key: '' t
           | Some pub \<Rightarrow>
               (let t = t @ [Release RBio] in
                if \<not> bio_mem L 1 then free_throw [RPkey] ''Failed to create BIO for private key'' t
                else let t = t @ [Acquire RBio] in
                case write_priv L k of
                  None \<Rightarrow> free_throw [RBio, RPkey] ''Failed to write private key: '' t
                | Some priv \<Rightarrow> (Inr (pub, priv), t @ [Release RBio, Release RPkey]))))"

definition white :: "char list" where
  "white = [CHR '' '', CHR 0x09, CHR 0x0A, CHR 0x0D]"

definition formatPublicKey :: "string \<Rightarrow> string" where
  "formatPublicKey pem = filter (\<lambda>c. c \<noteq> CHR 0x0D) (trim_right white (trim_left white pem))"

definition formatPrivateKey :: "string \<Rightarrow> string" where
  "formatPrivateKey pem = formatPublicKey pem"

subsection \<open>Facts\<close>

lemma hex_value_hexChars: "n < 16 \<Longrightarrow> hex_value (hexChars ! n) = Some n"
proof -
  have "\<forall>n \<in> set [0..<16]. hex_value (hexChars ! n) = Some n" by code_simp
  then show "n < 16 \<Longrightarrow> hex_value (hexChars ! n) = Some n" by simp
qed

lemma of_char_less: "(of_char c :: nat) < 256"
proof -
  have "(of_char c :: nat) mod 256 = of_char c" by simp
  then show ?thesis by (metis mod_less_divisor zero_less_numeral)
qed

lemma length_toHex: "length (toHex b) = 2 * length b"
  by (induction b) (simp_all add: toHex_def)

lemma hex_byte: "char_of (16 * (of_char c div 16) + of_char c mod 16 :: nat) = c"
  by simp

lemma high_less: "(of_char c :: nat) div 16 < 16"
  using of_char_less[of c] by (simp add: less_mult_imp_div_less)

lemma toHex_Cons: "toHex (c # b) = hexChars ! (of_char c div 16) # hexChars ! (of_char c mod 16) # toHex b"
  by (simp add: toHex_def)

lemma toHex_Nil [simp]: "toHex [] = []"
  by (simp add: toHex_def)

lemma hex_pairs_toHex: "hex_pairs (toHex b) = Inr b"
  by (induction b) (simp_all add: toHex_Cons hex_value_hexChars high_less hex_byte)

lemma fromHex_toHex: "fromHex (toHex b) = Inr b"
  by (simp add: fromHex_def length_toHex hex_pairs_toHex)

lemma hex_pairs_ok: "even (length h) \<Longrightarrow> (\<exists>b. hex_pairs h = Inr b) \<longleftrightarrow> (\<forall>c \<in> set h. hex_value c \<noteq> None)"
  by (induction h rule: hex_pairs.induct) (auto split: option.splits)

text \<open>\<^verbatim>\<open>fromHex\<close> accepts exactly the strings of an even number of hexadecimal digits.\<close>

lemma fromHex_accepts: "(\<exists>b. fromHex h = Inr b) \<longleftrightarrow> even (length h) \<and> (\<forall>c \<in> set h. hex_value c \<noteq> None)"
  by (simp add: fromHex_def hex_pairs_ok)

lemma is_space_hex: "n < 16 \<Longrightarrow> \<not> is_space (hexChars ! n) \<and> hexChars ! n \<noteq> CHR ''-'' \<and> hexChars ! n \<noteq> CHR ''+''"
proof -
  have "\<forall>n \<in> set [0..<16]. \<not> is_space (hexChars ! n) \<and> hexChars ! n \<noteq> CHR ''-'' \<and> hexChars ! n \<noteq> CHR ''+''"
    by code_simp
  then show "n < 16 \<Longrightarrow> ?thesis" by simp
qed

lemma strtol16_pair: "h < 16 \<Longrightarrow> l < 16 \<Longrightarrow> strtol16 [hexChars ! h, hexChars ! l] = int (16 * h + l)"
  by (simp add: strtol16_def is_space_hex hex_value_hexChars)

lemma hexStringToBytes_toHex: "hexStringToBytes (toHex b) = b"
proof (induction b)
  case (Cons c b)
  have "int (16 * (of_char c div 16) + of_char c mod 16) mod 256 = int (of_char c)"
    using of_char_less[of c] by simp
  then show ?case using Cons by (simp add: toHex_Cons strtol16_pair high_less)
qed simp

lemma bytesToHexString_toHex: "bytesToHexString = toHex"
  by (simp add: bytesToHexString_def toHex_def fun_eq_iff)

lemma hexStringToBytes_eq: "hexStringToBytes (toHex a) = hexStringToBytes (toHex b) \<longleftrightarrow> a = b"
  by (simp add: hexStringToBytes_toHex)

text \<open>Documented behaviour of AES-256-CBC with PKCS padding: decryption with the same key and IV returns
  the plain text, and a cipher text is never empty. Random bytes come in the number asked for, and
  HMAC-SHA256 reports 32 bytes.\<close>

definition cbc_law :: "'w evp \<Rightarrow> bool" where
  "cbc_law E \<longleftrightarrow> cipher_ctx E \<and>
     (\<forall>k iv p. length k = KEY_SIZE \<longrightarrow> length iv = BLOCK_SIZE \<longrightarrow>
        encrypt_init E k iv \<and> decrypt_init E k iv \<and>
        (\<exists>a b c d. encrypt_update E k iv p = Some a \<and> encrypt_final E k iv p = Some b \<and> a @ b \<noteq> [] \<and>
           decrypt_update E k iv (a @ b) = Some c \<and> decrypt_final E k iv (a @ b) = Some d \<and> c @ d = p))"

definition rand_law :: "'w evp \<Rightarrow> bool" where
  "rand_law E \<longleftrightarrow> (\<forall>n w s w'. rand_bytes E n w = (Some s, w') \<longrightarrow> length s = n)"

definition hmac_law :: "'w evp \<Rightarrow> bool" where
  "hmac_law E \<longleftrightarrow> (\<forall>k d. length (hmac_sha256 E k d) = HMAC_SIZE)"

lemma decrypt_encrypt:
  assumes "cbc_law E" "length k = KEY_SIZE" "length iv = BLOCK_SIZE"
  shows "\<exists>c. encrypt E p k iv = Inr c \<and> c \<noteq> [] \<and> decrypt E c k iv = Inr p"
proof -
  from assms obtain a b c d where ab: "encrypt_update E k iv p = Some a" "encrypt_final E k iv p = Some b" "a @ b \<noteq> []"
      and cd: "decrypt_update E k iv (a @ b) = Some c" "decrypt_final E k iv (a @ b) = Some d" "c @ d = p"
      and init: "cipher_ctx E" "encrypt_init E k iv" "decrypt_init E k iv"
    unfolding cbc_law_def by blast
  have e: "encrypt E p k iv = Inr (a @ b)"
    using assms(2,3) ab init by (simp add: encrypt_def validateKey_def validateIV_def)
  have "decrypt E (a @ b) k iv = Inr (c @ d)"
    using assms(2,3) ab(3) cd(1,2) init unfolding decrypt_def validateKey_def validateIV_def by (simp del: append_is_Nil_conv)
  with e ab(3) cd(3) show ?thesis by blast
qed

lemma encrypt_guards:
  "encrypt E p k iv = Inr c \<Longrightarrow> length k = KEY_SIZE \<and> length iv = BLOCK_SIZE"
  "decrypt E p k iv = Inr c \<Longrightarrow> length k = KEY_SIZE \<and> length iv = BLOCK_SIZE"
  by (auto simp: encrypt_def decrypt_def validateKey_def validateIV_def split: if_splits)

text \<open>C26: Under the documented laws of AES-256-CBC, the random generator and HMAC-SHA256: with a 32-byte key,
  encryptMessage succeeds whenever random bytes are available, prefixes the cipher text with the fresh
  IV and decryptMessage returns the message; encryptWithHmac succeeds for a 16-byte IV and
  decryptWithHmac returns the plain text; and any data whose first 32 bytes are not the HMAC of the rest
  is refused before decryption.\<close>

theorem aes_messages:
  assumes "cbc_law E" "rand_law E" "hmac_law E" "length k = KEY_SIZE"
  shows "(\<forall>w iv w'. rand_bytes E BLOCK_SIZE w = (Some iv, w') \<longrightarrow>
            (\<exists>c. encryptMessage E p k w = (Inr (iv @ c), w') \<and> decryptMessage E (iv @ c) k = Inr p)) \<and>
         (\<forall>iv. length iv = BLOCK_SIZE \<longrightarrow>
            (\<exists>c. encryptWithHmac E p k iv = Inr c \<and> decryptWithHmac E c k iv = Inr p)) \<and>
         (\<forall>h c iv. length h = HMAC_SIZE \<longrightarrow> h \<noteq> hmac_sha256 E k c \<longrightarrow>
            decryptWithHmac E (h @ c) k iv =
              Inl (runtime_error ''HMAC verification failed - message corrupted or tampered''))"
proof (intro conjI allI impI)
  fix w iv w' assume r: "rand_bytes E BLOCK_SIZE w = (Some iv, w')"
  with assms(2) have l: "length iv = BLOCK_SIZE" unfolding rand_law_def by blast
  from decrypt_encrypt[OF assms(1,4) l] obtain c where c: "encrypt E p k iv = Inr c" "decrypt E c k iv = Inr p" by blast
  show "\<exists>c. encryptMessage E p k w = (Inr (iv @ c), w') \<and> decryptMessage E (iv @ c) k = Inr p"
    using r l c by (intro exI[of _ c]) (simp add: encryptMessage_def generateIV_def generateRandomBytes_def decryptMessage_def)
next
  fix iv :: string assume l: "length iv = BLOCK_SIZE"
  from decrypt_encrypt[OF assms(1,4) l] obtain c where c: "encrypt E p k iv = Inr c" "decrypt E c k iv = Inr p" by blast
  show "\<exists>c. encryptWithHmac E p k iv = Inr c \<and> decryptWithHmac E c k iv = Inr p"
    using c assms(3)
    by (intro exI[of _ "hmac_sha256 E k c @ c"]) (simp add: encryptWithHmac_def decryptWithHmac_def computeHmac_def hmac_law_def)
next
  fix h c iv :: string assume "length h = HMAC_SIZE" "h \<noteq> hmac_sha256 E k c"
  then show "decryptWithHmac E (h @ c) k iv = Inl (runtime_error ''HMAC verification failed - message corrupted or tampered'')"
    using assms(3) by (simp add: decryptWithHmac_def computeHmac_def hmac_law_def Let_def)
qed

text \<open>A concrete cipher for the witnesses: the identity with a padding block of one byte.\<close>

definition id_evp :: "nat evp" where
  "id_evp = \<lparr>rand_bytes = (\<lambda>n w. (Some (replicate n CHR ''r''), Suc w)), cipher_ctx = True,
     encrypt_init = (\<lambda>_ _. True), encrypt_update = (\<lambda>_ _ p. Some p), encrypt_final = (\<lambda>_ _ _. Some [CHR 0x01]),
     decrypt_init = (\<lambda>_ _. True), decrypt_update = (\<lambda>_ _ c. Some (butlast c)), decrypt_final = (\<lambda>_ _ _. Some []),
     hmac_sha256 = (\<lambda>_ d. take 32 (d @ replicate 32 CHR ''h'')), pbkdf2 = (\<lambda>_ _ _. None)\<rparr>"

lemma id_evp_laws: "cbc_law id_evp" "rand_law id_evp" "hmac_law id_evp"
  by (auto simp: cbc_law_def rand_law_def hmac_law_def id_evp_def HMAC_SIZE_def)

theorem aes_messages_witness:
  "cbc_law id_evp \<and> rand_law id_evp \<and> hmac_law id_evp \<and>
   (\<exists>c. encryptMessage id_evp ''hi'' (replicate 32 CHR ''k'') 0 = (Inr (replicate 16 CHR ''r'' @ c), 1) \<and>
        decryptMessage id_evp (replicate 16 CHR ''r'' @ c) (replicate 32 CHR ''k'') = Inr ''hi'')"
proof -
  have k: "length (replicate 32 CHR ''k'') = KEY_SIZE" by (simp add: KEY_SIZE_def)
  have r: "rand_bytes id_evp BLOCK_SIZE 0 = (Some (replicate 16 CHR ''r''), 1)" by (simp add: id_evp_def BLOCK_SIZE_def)
  show ?thesis using aes_messages[OF id_evp_laws k, of "''hi''"] id_evp_laws r by blast
qed

text \<open>The tag covers the cipher text but not the IV: with a valid tag, any IV of the right length is
  accepted and used.\<close>

lemma hmac_ignores_iv:
  assumes "length h = HMAC_SIZE" "computeHmac E c k = Inr h"
  shows "decryptWithHmac E (h @ c) k iv = decrypt E c k iv"
  using assms by (simp add: decryptWithHmac_def)

subsection \<open>Verifying passwords\<close>

text \<open>The derived bytes of the library with the parameters of \<^verbatim>\<open>Hash\<close>.\<close>

abbreviation derive :: "'w kdf \<Rightarrow> string \<Rightarrow> string \<Rightarrow> string option" where
  "derive K \<equiv> argon2id K iterations memory_cost parallelism output_length"

lemma hash_result:
  assumes "hash K pw salt w = ((h, s), w')" "h \<noteq> []"
  shows "kdf_fetch K \<and> kdf_ctx K \<and> (\<exists>out. derive K pw s = Some out \<and> h = toHex out)"
  using assms by (auto simp: hash_def Let_def split: if_splits prod.splits option.splits)

lemma hash_salted:
  "kdf_fetch K \<Longrightarrow> kdf_ctx K \<Longrightarrow> s \<noteq> [] \<Longrightarrow>
   hash K pw s w = (case derive K pw s of None \<Rightarrow> (([], []), w) | Some out \<Rightarrow> ((toHex out, s), w))"
  by (simp add: hash_def)

lemma hexStringToBytes_Nil: "hexStringToBytes h = [] \<longleftrightarrow> h = []"
  by (cases h rule: hexStringToBytes.cases) auto

text \<open>C30: A stored hash and salt that hash produced, the salt not being empty, verify against exactly the
  passwords that Argon2id derives the same bytes from: the original password is accepted, and another
  password is accepted only on a collision of the derivation; a failing derivation is a rejection.\<close>

theorem verify_exact:
  assumes "hash K pw salt w = ((h, s), w')" "h \<noteq> []" "s \<noteq> []"
  shows "verify K pw' h s w2 = (derive K pw' s = derive K pw s, w2) \<and> verify K pw h s w2 = (True, w2)"
proof -
  from hash_result[OF assms(1,2)] obtain out where k: "kdf_fetch K" "kdf_ctx K" "derive K pw s = Some out" "h = toHex out"
    by blast
  then have "hash K p s w2 = (case derive K p s of None \<Rightarrow> (([], []), w2) | Some o' \<Rightarrow> ((toHex o', s), w2))" for p
    using hash_salted[of K s p w2] assms(3) by simp
  moreover have "out \<noteq> []" using k(4) assms(2) by auto
  ultimately have "verify K p h s w2 = (derive K p s = derive K pw s, w2)" for p
    using k(3,4) by (cases "derive K p s") (auto simp: verify_def hexStringToBytes_toHex)
  then show ?thesis by simp
qed

definition id_kdf :: "nat kdf" where
  "id_kdf = \<lparr>kdf_fetch = True, kdf_ctx = True, argon2id = (\<lambda>_ _ _ _ p s. Some (s @ p)),
     kdf_rand = (\<lambda>n w. (Some (replicate n CHR ''s''), Suc w))\<rparr>"

theorem verify_exact_witness:
  "verify id_kdf ''other'' (toHex ''saltpw'') ''salt'' 7 = (False, 7) \<and> verify id_kdf ''pw'' (toHex ''saltpw'') ''salt'' 7 = (True, 7)"
proof -
  have "hash id_kdf ''pw'' ''salt'' 0 = ((toHex ''saltpw'', ''salt''), 0)" by (simp add: hash_def id_kdf_def)
  moreover have "toHex ''saltpw'' \<noteq> []" by (simp add: toHex_Cons)
  ultimately show ?thesis using verify_exact[of id_kdf "''pw''" "''salt''" 0 "toHex ''saltpw''" "''salt''" 0 "''other''" 7]
    by (simp add: id_kdf_def)
qed

text \<open>Where the derivation is not available, hash stores the empty string, and every password verifies
  against it.\<close>

theorem verify_accepts_anything:
  assumes "\<not> kdf_fetch K \<or> \<not> kdf_ctx K"
  shows "\<exists>h s. hash K pw salt w = ((h, s), w) \<and> (\<forall>pw'. verify K pw' h s w = (True, w))"
  using assms by (auto simp: hash_def verify_def)

subsection \<open>RSA releases what it acquires\<close>

lemmas rsa_defs = free_throw_def loadPublicKey_def loadPrivateKey_def

lemma load_balance:
  "loadPublicKey L pem tr = (x, t) \<Longrightarrow> balance r t = balance r tr + (if r = RPkey \<and> x \<noteq> None then 1 else 0)"
  "loadPrivateKey L pem tr = (x, t) \<Longrightarrow> balance r t = balance r tr + (if r = RPkey \<and> x \<noteq> None then 1 else 0)"
  by (auto simp: rsa_defs split: if_splits)

text \<open>What is held is released, in the error exit as in the regular one.\<close>

lemma free_throw_balance: "balance r (snd (free_throw held msg tr)) = balance r (tr @ map Release held)"
  by (simp add: free_throw_def)

lemma rsa_cipher_balance:
  "balance r (snd (encryptWithPublic L m pem tr)) = balance r tr"
  "balance r (snd (decryptWithPrivate L m pem tr)) = balance r tr"
  "balance r (snd (decryptWithPublic L m pem tr)) = balance r tr"
  by (simp_all add: encryptWithPublic_def decryptWithPrivate_def decryptWithPublic_def free_throw_balance Let_def load_balance
       split: prod.split option.split)

lemma rsa_sign_balance:
  "balance r (snd (sign L m pem tr)) = balance r tr"
  "balance r (snd (RSA_verify L m sg pem tr)) = balance r tr"
  by (simp_all add: sign_def RSA_verify_def free_throw_balance Let_def load_balance split: prod.split option.split)

lemma rsa_key_balance:
  "balance r (snd (validatePublicKey L pem tr)) = balance r tr"
  "balance r (snd (validatePrivateKey L pem tr)) = balance r tr"
  "balance r (snd (extractPublicKey L pem tr)) = balance r tr"
  by (simp_all add: validatePublicKey_def validatePrivateKey_def extractPublicKey_def free_throw_balance Let_def load_balance
       split: prod.split option.split)

lemma generateKeyPair_balance: "balance r (snd (generateKeyPair L bits tr)) = balance r tr"
  by (simp add: generateKeyPair_def free_throw_balance Let_def split: option.split)

text \<open>Every RSA operation, on every success and error path, frees each OpenSSL object it allocated
  (BIO, key, key context, digest context) exactly once: the number of live objects of every kind is
  the same after the call as before.\<close>

theorem rsa_no_leak:
  "balance r (snd (encryptWithPublic L m pem tr)) = balance r tr \<and>
   balance r (snd (decryptWithPrivate L m pem tr)) = balance r tr \<and>
   balance r (snd (encryptWithPrivate L m pem tr)) = balance r tr \<and>
   balance r (snd (decryptWithPublic L m pem tr)) = balance r tr \<and>
   balance r (snd (sign L m pem tr)) = balance r tr \<and>
   balance r (snd (RSA_verify L m sg pem tr)) = balance r tr \<and>
   balance r (snd (validatePublicKey L pem tr)) = balance r tr \<and>
   balance r (snd (validatePrivateKey L pem tr)) = balance r tr \<and>
   balance r (snd (extractPublicKey L pem tr)) = balance r tr \<and>
   balance r (snd (generateKeyPair L bits tr)) = balance r tr"
  by (simp add: encryptWithPrivate_def rsa_cipher_balance rsa_sign_balance rsa_key_balance generateKeyPair_balance)

end
