(* ===== verification/WSRoute.thy ===== *)
theory WSRoute
  imports Route
begin

text \<open>
  \<^verbatim>\<open>src/Router/WSRoute.cpp\<close> and \<^verbatim>\<open>src/Router/WSRouter.cpp\<close>: routes of WebSocket connections, with a
  connect handler and four optional per-route handlers, and the router with its global handlers.
  A handler is an opaque \<^verbatim>\<open>std::function\<close>: its identity, or \<open>None\<close> when it is empty. The pattern
  code is a copy of the one of \<^verbatim>\<open>Route\<close>; it is modelled from its own source and proved equal.
\<close>

type_synonym hid = nat

record ws_route =
  ws_originalPath :: string
  ws_pathRegex :: re
  ws_paramNames :: "string list"
  connect_handler :: "hid option"
  message_handler :: "hid option"
  binary_handler :: "hid option"
  close_handler :: "hid option"
  error_handler :: "hid option"

subsection \<open>WebSocketRoute\<close>

fun ws_convert_tokens :: "string \<Rightarrow> string list \<Rightarrow> string" where
  "ws_convert_tokens regexStr [] = regexStr"
| "ws_convert_tokens regexStr (token # ts) =
     (if token = [] then ws_convert_tokens regexStr ts
      else if hd token = CHR '':'' then ws_convert_tokens (regexStr @ ''/([^/]+)'') ts
      else ws_convert_tokens (regexStr @ ''/'' @ token) ts)"

definition ws_convertPathToRegex :: "string \<Rightarrow> re result" where
  "ws_convertPathToRegex path =
     (let regexStr = ws_convert_tokens ''^'' (getline_split CHR ''/'' path);
          full = (if regexStr = ''^'' then regexStr @ ''/?$'' else regexStr @ ''$'')
      in case regex_compile full of
           None \<Rightarrow> Inl (runtime_error ''regex_error'') | Some r \<Rightarrow> Inr r)"

fun ws_extract_tokens :: "string list \<Rightarrow> string list" where
  "ws_extract_tokens [] = []"
| "ws_extract_tokens (token # ts) =
     (if token \<noteq> [] \<and> hd token = CHR '':'' then tl token # ws_extract_tokens ts
      else ws_extract_tokens ts)"

definition ws_extractParamNames :: "string \<Rightarrow> string list" where
  "ws_extractParamNames path = ws_extract_tokens (getline_split CHR ''/'' path)"

definition WebSocketRoute :: "string \<Rightarrow> hid option \<Rightarrow> ws_route result" where
  "WebSocketRoute path h = bind_result (ws_convertPathToRegex path) (\<lambda>re.
     Inr \<lparr>ws_originalPath = path, ws_pathRegex = re, ws_paramNames = ws_extractParamNames path,
          connect_handler = h, message_handler = None, binary_handler = None,
          close_handler = None, error_handler = None\<rparr>)"

definition ws_match :: "ws_route \<Rightarrow> string \<Rightarrow> params \<Rightarrow> bool \<times> params" where
  "ws_match r target out =
     (let pathOnly = (case find_char CHR ''?'' target of None \<Rightarrow> target | Some i \<Rightarrow> take i target)
      in case regex_match (ws_pathRegex r) pathOnly of
           None \<Rightarrow> (False, out)
         | Some m \<Rightarrow> (True, store_params (ws_paramNames r) 0 m out))"

text \<open>\<^verbatim>\<open>on_connect\<close>: the handler called, if there is one, with the session and the parameters.\<close>

definition on_connect :: "ws_route \<Rightarrow> nat \<Rightarrow> params \<Rightarrow> (hid \<times> nat \<times> params) option" where
  "on_connect r sid ps = (case connect_handler r of None \<Rightarrow> None | Some h \<Rightarrow> Some (h, sid, ps))"

definition set_message_handler :: "hid option \<Rightarrow> ws_route \<Rightarrow> ws_route" where
  "set_message_handler h r = r\<lparr>message_handler := h\<rparr>"

definition set_binary_handler :: "hid option \<Rightarrow> ws_route \<Rightarrow> ws_route" where
  "set_binary_handler h r = r\<lparr>binary_handler := h\<rparr>"

definition set_close_handler :: "hid option \<Rightarrow> ws_route \<Rightarrow> ws_route" where
  "set_close_handler h r = r\<lparr>close_handler := h\<rparr>"

definition set_error_handler :: "hid option \<Rightarrow> ws_route \<Rightarrow> ws_route" where
  "set_error_handler h r = r\<lparr>error_handler := h\<rparr>"

subsection \<open>WebSocketRouter\<close>

record ws_router =
  ws_routes :: "ws_route list"
  global_message_handler :: "hid option"
  global_binary_handler :: "hid option"
  global_close_handler :: "hid option"
  global_error_handler :: "hid option"

definition empty_ws_router :: ws_router where
  "empty_ws_router = \<lparr>ws_routes = [], global_message_handler = None, global_binary_handler = None,
     global_close_handler = None, global_error_handler = None\<rparr>"

definition ws_add_route :: "string \<Rightarrow> hid option \<Rightarrow> ws_router \<Rightarrow> ws_router result" where
  "ws_add_route path h R = bind_result (WebSocketRoute path h) (\<lambda>r.
     Inr (R\<lparr>ws_routes := ws_routes R @ [r]\<rparr>))"

text \<open>The loop of \<^verbatim>\<open>find_route\<close>: the same output map is handed to every route. The returned pointer is
  the position of the route.\<close>

fun ws_scan :: "ws_route list \<Rightarrow> string \<Rightarrow> params \<Rightarrow> (nat \<times> params) option" where
  "ws_scan [] target out = None"
| "ws_scan (r # rs) target out =
     (let (hit, out') = ws_match r target out
      in if hit then Some (0, out')
         else map_option (\<lambda>(i, q). (Suc i, q)) (ws_scan rs target out'))"

definition find_route :: "ws_router \<Rightarrow> string \<Rightarrow> params \<Rightarrow> (nat \<times> params) option" where
  "find_route R target out = ws_scan (ws_routes R) target out"

definition set_global_message_handler :: "hid option \<Rightarrow> ws_router \<Rightarrow> ws_router" where
  "set_global_message_handler h R = R\<lparr>global_message_handler := h\<rparr>"

definition set_global_binary_handler :: "hid option \<Rightarrow> ws_router \<Rightarrow> ws_router" where
  "set_global_binary_handler h R = R\<lparr>global_binary_handler := h\<rparr>"

definition set_global_close_handler :: "hid option \<Rightarrow> ws_router \<Rightarrow> ws_router" where
  "set_global_close_handler h R = R\<lparr>global_close_handler := h\<rparr>"

definition set_global_error_handler :: "hid option \<Rightarrow> ws_router \<Rightarrow> ws_router" where
  "set_global_error_handler h R = R\<lparr>global_error_handler := h\<rparr>"

definition ws_clear :: "ws_router \<Rightarrow> ws_router" where
  "ws_clear R = R\<lparr>ws_routes := []\<rparr>"

text \<open>The macros \<^verbatim>\<open>WS_MSG\<close>, \<^verbatim>\<open>WS_BIN\<close>, \<^verbatim>\<open>WS_CLOSE\<close>, \<^verbatim>\<open>WS_ERR\<close> and the \<^verbatim>\<open>set_route_\<dots>_handler\<close> calls of the
  server look the route up by its path and set one handler on what they find.\<close>

definition set_route_handler ::
  "(hid option \<Rightarrow> ws_route \<Rightarrow> ws_route) \<Rightarrow> string \<Rightarrow> hid option \<Rightarrow> ws_router \<Rightarrow> ws_router \<times> nat option" where
  "set_route_handler upd path h R =
     (case find_route R path [] of
        None \<Rightarrow> (R, None)
      | Some (i, _) \<Rightarrow> (R\<lparr>ws_routes := (ws_routes R)[i := upd h (ws_routes R ! i)]\<rparr>, Some i))"

text \<open>The macros \<^verbatim>\<open>WS_R\<close> and \<^verbatim>\<open>WS_G_\<dots>\<close>: the handler is a member function of a controller, so never empty.\<close>

definition WS_R :: "string \<Rightarrow> hid \<Rightarrow> ws_router \<Rightarrow> ws_router result" where
  "WS_R path h R = ws_add_route path (Some h) R"

definition WS_G_MSG :: "hid \<Rightarrow> ws_router \<Rightarrow> ws_router" where
  "WS_G_MSG h R = set_global_message_handler (Some h) R"

definition WS_G_BIN :: "hid \<Rightarrow> ws_router \<Rightarrow> ws_router" where
  "WS_G_BIN h R = set_global_binary_handler (Some h) R"

definition WS_G_CLOSE :: "hid \<Rightarrow> ws_router \<Rightarrow> ws_router" where
  "WS_G_CLOSE h R = set_global_close_handler (Some h) R"

definition WS_G_ERR :: "hid \<Rightarrow> ws_router \<Rightarrow> ws_router" where
  "WS_G_ERR h R = set_global_error_handler (Some h) R"

subsection \<open>The copy agrees with the HTTP routes\<close>

definition as_route :: "ws_route \<Rightarrow> route" where
  "as_route r = \<lparr>pathRegex = ws_pathRegex r, paramNames = ws_paramNames r,
     originalPath = ws_originalPath r, route_handler = None\<rparr>"

lemma ws_convert_tokens_eq: "ws_convert_tokens acc ts = convert_tokens acc ts"
  by (induction ts arbitrary: acc) auto

lemma ws_extract_tokens_eq: "ws_extract_tokens ts = extract_tokens ts"
  by (induction ts) auto

lemma ws_convertPathToRegex_eq: "ws_convertPathToRegex path = convertPathToRegex path"
  by (simp add: ws_convertPathToRegex_def convertPathToRegex_def regex_of_path_def Let_def
      ws_convert_tokens_eq)

lemma ws_match_eq: "ws_match r target out = route_match (as_route r) target out"
  by (simp add: ws_match_def route_match_def path_only_def as_route_def split: option.splits)

lemma WebSocketRoute_eq: "map_sum id as_route (WebSocketRoute path h) = Route path None"
  by (cases "convertPathToRegex path")
    (auto simp: WebSocketRoute_def Route_def ws_convertPathToRegex_eq as_route_def
      ws_extractParamNames_def extractParamNames_def ws_extract_tokens_eq)

lemma ws_match_fail: "\<not> fst (ws_match r target out) \<Longrightarrow> snd (ws_match r target out) = out"
  by (auto simp: ws_match_def Let_def split: option.splits)

interpretation ws: route_scan ws_match ws_scan
  by unfold_locales (auto simp: split_beta ws_match_fail)

lemma WebSocketRoute_match:
  assumes "plain_path path"
  shows "\<exists>r. WebSocketRoute path h = Inr r \<and> connect_handler r = h \<and>
    (\<forall>target out. ws_match r target out =
     (case match_path path (path_only target) of
        None \<Rightarrow> (False, out)
      | Some vs \<Rightarrow> (True, fold (\<lambda>(n, v) m. umap_put n v m) (zip (extractParamNames path) vs) out)))"
proof -
  obtain re where re: "convertPathToRegex path = Inr re"
    "\<And>s. regex_match re s = map_option seg_caps (match_path path s)"
    using convert_matches [OF assms] by blast
  show ?thesis
    by (simp add: WebSocketRoute_def ws_convertPathToRegex_eq re ws_match_def path_only_def
        ws_extractParamNames_def extractParamNames_def ws_extract_tokens_eq
        match_path_length [unfolded extractParamNames_def] store_params_seg_caps
        split: option.splits)
qed

subsection \<open>Routing WebSocket connections\<close>

text \<open>the WebSocket router is the HTTP pattern matcher on another table: a route is built for a
  path exactly when the HTTP route is, and looking a target up gives the first registered route
  whose HTTP counterpart matches, with the parameters of that match alone.\<close>

theorem ws_find_route_refines:
  "map_sum id as_route (WebSocketRoute path h) = Route path None \<and>
   find_route R target out = scan_routes (map as_route (ws_routes R)) target out"
proof
  show "map_sum id as_route (WebSocketRoute path h) = Route path None"
    by (rule WebSocketRoute_eq)
  have "ws_scan rs target out = scan_routes (map as_route rs) target out" for rs
    by (induction rs)
      (auto simp: split_beta ws_match_eq dest: ws_match_fail [unfolded ws_match_eq])
  then show "find_route R target out = scan_routes (map as_route (ws_routes R)) target out"
    by (simp add: find_route_def)
qed

subsection \<open>Handlers set by path\<close>

text \<open>A path written as a target, with a slash before every segment and no query.\<close>

definition written_out :: "string \<Rightarrow> bool" where
  "written_out path \<longleftrightarrow> plain_path path \<and> path_segs path \<noteq> [] \<and> CHR ''?'' \<notin> set path \<and>
     path = fill_segs (path_segs path) (map (\<lambda>n. CHR '':'' # n) (extractParamNames path))"

lemma extract_tokens_sub: "n \<in> set (extract_tokens ts) \<Longrightarrow> \<exists>t \<in> set ts. set n \<subseteq> set t"
  by (induction ts) (auto split: if_splits dest: list.set_sel(2))

lemma param_segment: "n \<in> set (extractParamNames path) \<Longrightarrow> segment_value (CHR '':'' # n)"
  using extract_tokens_sub [of n "getline_split CHR ''/'' path"] getline_split_no_delim [of _ "CHR ''/''" path]
  by (auto simp: extractParamNames_def segment_value_def)

text \<open>Such a pattern matches itself, with the names of its parameters as their values.\<close>

lemma written_out_self:
  assumes "written_out path"
  shows "match_path path (path_only path) = Some (map (\<lambda>n. CHR '':'' # n) (extractParamNames path))"
proof -
  let ?vs = "map (\<lambda>n. CHR '':'' # n) (extractParamNames path)"
  have "match_segs (path_segs path) (fill_segs (path_segs path) ?vs) = Some ?vs"
    using assms param_segment plain_path_segs_ok by (intro match_fill) (auto simp: written_out_def extract_par_names)
  moreover have "path_only path = path" using path_only_query [of path "[]"] assms by (simp add: written_out_def)
  ultimately show ?thesis using assms by (metis match_path_def written_out_def)
qed

lemma ws_added_found:
  assumes "written_out path"
  shows "\<exists>r ps. ws_add_route path h R = Inr (R\<lparr>ws_routes := ws_routes R @ [r]\<rparr>) \<and> connect_handler r = h \<and>
    find_route (R\<lparr>ws_routes := ws_routes R @ [r]\<rparr>) path [] =
      Some (case find_route R path [] of Some (i, ps) \<Rightarrow> (i, ps) | None \<Rightarrow> (length (ws_routes R), ps))"
proof -
  obtain r where r: "WebSocketRoute path h = Inr r" "connect_handler r = h"
    "\<And>target out. fst (ws_match r target out) \<longleftrightarrow> match_path path (path_only target) \<noteq> None"
    using WebSocketRoute_match [of path h] assms unfolding written_out_def
    by (metis (no_types, lifting) fst_conv option.case_eq_if)
  have self: "fst (ws_match r path [])" using r(3) written_out_self [OF assms] by simp
  have "ws_scan (ws_routes R @ [r]) path [] =
      Some (case ws_scan (ws_routes R) path [] of Some (i, ps) \<Rightarrow> (i, ps) | None \<Rightarrow> (length (ws_routes R), snd (ws_match r path [])))"
  proof (cases "ws_scan (ws_routes R) path []")
    case None
    then have "\<forall>q \<in> set (ws_routes R). \<not> fst (ws_match q path [])" by (simp add: ws.scan_None)
    then show ?thesis using ws.scan_append_miss [of "ws_routes R" path "[]" r] self None by simp
  next
    case (Some ip)
    obtain i ps where ip: "ip = (i, ps)" by force
    then have "ws_scan (ws_routes R @ [r]) path [] = Some (i, ps)"
      using Some by (auto simp: ws.scan_Some nth_append)
    then show ?thesis using Some ip by simp
  qed
  then show ?thesis using r by (auto simp: ws_add_route_def find_route_def)
qed



end
