(* ===== verification/WebSocket.thy ===== *)
theory WebSocket
  imports WSRoute "HOL-Library.Word" "HOL-Library.Multiset"
begin

text \<open>
  \<^verbatim>\<open>src/WebSocketSession.cpp\<close>, \<^verbatim>\<open>src/WebSocketManager.cpp\<close> and \<^verbatim>\<open>src/WebSocketServer.cpp\<close>: the sessions
  with their identifiers and handlers, the manager that keeps the shared pointers of all sessions, and
  the server that turns a connection into a session. A shared pointer is its address, the sessions
  live in a heap; an asynchronous write or close that is spawned is an entry of the list \<open>spawned\<close>.
  Log output is left out.
\<close>

unbundle bit_operations_syntax

subsection \<open>Session identifiers\<close>

definition generate_session_id :: "64 word \<Rightarrow> 64 word \<Rightarrow> 64 word \<Rightarrow> 64 word \<times> 64 word" where
  "generate_session_id timestamp random session_counter =
     ((push_bit 20 timestamp XOR (random AND 0xFFFFF)) XOR session_counter, session_counter + 1)"

text \<open>The two loops of \<^verbatim>\<open>fast_itoa\<close>: the digits go into \<^verbatim>\<open>temp\<close> from the last to the first and are then
  copied in reverse.\<close>

function itoa_digits :: "64 word \<Rightarrow> string \<Rightarrow> string" where
  "itoa_digits num temp =
     (if num > 0 then itoa_digits (num div 10) (temp @ [digit_char (unat (num mod 10))]) else temp)"
  by pat_completeness auto

termination
proof (relation "measure (\<lambda>(num, _). unat num)")
  fix num :: "64 word" and temp :: string
  assume "num > 0"
  then have "unat num > 0" by (simp add: word_less_nat_alt)
  then have "unat (num div 10) < unat num" by (simp add: unat_div)
  then show "((num div 10, temp @ [digit_char (unat (num mod 10))]), num, temp) \<in> measure (\<lambda>(num, _). unat num)"
    by simp
qed simp

declare itoa_digits.simps [simp del]

definition fast_itoa :: "64 word \<Rightarrow> string" where
  "fast_itoa num = (if num = 0 then ''0'' else rev (itoa_digits num []))"

subsection \<open>Sessions\<close>

text \<open>What a close handler is: a function of the application, or the one the server installs, which calls
  the route's and the global handler and then removes the session from the manager.\<close>

datatype close_fn = UserClose hid | ServerClose "hid option" "hid option"

record ws_session =
  session_id :: "64 word"
  session_id_str :: string
  is_open :: bool
  s_message :: "hid option"
  s_binary :: "hid option"
  s_close :: "close_fn option"
  s_error :: "hid option"

definition WebSocketSession :: "64 word \<Rightarrow> ws_session" where
  "WebSocketSession sid = \<lparr>session_id = sid, session_id_str = fast_itoa sid, is_open = False,
     s_message = None, s_binary = None, s_close = None, s_error = None\<rparr>"

definition session_set_message_handler :: "hid option \<Rightarrow> ws_session \<Rightarrow> ws_session" where
  "session_set_message_handler h s = s\<lparr>s_message := h\<rparr>"

definition session_set_binary_handler :: "hid option \<Rightarrow> ws_session \<Rightarrow> ws_session" where
  "session_set_binary_handler h s = s\<lparr>s_binary := h\<rparr>"

definition session_set_close_handler :: "close_fn option \<Rightarrow> ws_session \<Rightarrow> ws_session" where
  "session_set_close_handler h s = s\<lparr>s_close := h\<rparr>"

definition session_set_error_handler :: "hid option \<Rightarrow> ws_session \<Rightarrow> ws_session" where
  "session_set_error_handler h s = s\<lparr>s_error := h\<rparr>"

definition get_id :: "ws_session \<Rightarrow> string" where
  "get_id s = session_id_str s"

text \<open>The read loop. The script gives, for each round, whether the stream is open and what the read
  delivers; a handler is a function of the session and the data that may change the session and may
  throw (the text of the exception). \<open>Closed\<close> is \<^verbatim>\<open>websocket::error::closed\<close>.\<close>

datatype ws_read = Frame bool string | ReadError string | Closed

datatype ws_call = CallMessage hid string | CallBinary hid string | CallError hid string

type_synonym ws_handlers = "ws_call \<Rightarrow> ws_session \<Rightarrow> ws_session \<times> string option"

definition report_error :: "ws_handlers \<Rightarrow> ws_session \<Rightarrow> string \<Rightarrow> ws_call list \<times> ws_session \<times> string option" where
  "report_error H s err =
     (case s_error s of
        None \<Rightarrow> ([], s, None)
      | Some h \<Rightarrow> (case H (CallError h err) s of (s', e) \<Rightarrow> ([CallError h err], s', e)))"

definition handler_for :: "ws_session \<Rightarrow> bool \<Rightarrow> string \<Rightarrow> ws_call option" where
  "handler_for s binary data =
     (if binary then map_option (\<lambda>h. CallBinary h data) (s_binary s)
      else map_option (\<lambda>h. CallMessage h data) (s_message s))"

text \<open>The calls made, the session afterwards, and how it ended: \<open>None\<close> while the script leaves it waiting
  for a read, otherwise the exception that left the coroutine, if any (only the error handler's own).\<close>

fun ws_run :: "ws_handlers \<Rightarrow> ws_session \<Rightarrow> (bool \<times> ws_read) list \<Rightarrow> ws_call list \<times> ws_session \<times> string option option" where
  "ws_run H s [] = ([], s, None)"
| "ws_run H s ((opened, r) # script) =
     (if \<not> opened then ([], s, Some None)
      else case r of
             Closed \<Rightarrow> ([], s, Some None)
           | ReadError err \<Rightarrow> (case report_error H s err of (cs, s', e) \<Rightarrow> (cs, s', Some e))
           | Frame binary data \<Rightarrow>
               (case handler_for s binary data of
                  None \<Rightarrow> ws_run H s script
                | Some c \<Rightarrow>
                    (case H c s of
                       (s', Some err) \<Rightarrow> (case report_error H s' err of (cs, s2, e) \<Rightarrow> (c # cs, s2, Some e))
                     | (s', None) \<Rightarrow> (case ws_run H s' script of (cs, s2, e) \<Rightarrow> (c # cs, s2, e)))))"

subsection \<open>The heap of sessions and what they spawn\<close>

datatype ws_op = SendText string | SendBinary string | CloseOp

record ws_manager =
  heap :: "nat \<Rightarrow> ws_session option"
  spawned :: "(nat \<times> ws_op) list"
  sessions :: "nat list"
  session_count :: nat
  m_message :: "hid option"
  m_binary :: "hid option"
  m_close :: "hid option"
  m_error :: "hid option"

definition empty_manager :: ws_manager where
  "empty_manager = \<lparr>heap = (\<lambda>_. None), spawned = [], sessions = [], session_count = 0,
     m_message = None, m_binary = None, m_close = None, m_error = None\<rparr>"

definition opened_at :: "ws_manager \<Rightarrow> nat \<Rightarrow> bool" where
  "opened_at M p = (case heap M p of None \<Rightarrow> False | Some s \<Rightarrow> is_open s)"

definition with_session :: "nat \<Rightarrow> (ws_session \<Rightarrow> ws_session) \<Rightarrow> ws_manager \<Rightarrow> ws_manager" where
  "with_session p f M = M\<lparr>heap := (heap M)(p := map_option f (heap M p))\<rparr>"

definition spawn :: "nat \<Rightarrow> ws_op \<Rightarrow> ws_manager \<Rightarrow> ws_manager" where
  "spawn p x M = (if \<not> opened_at M p then M else M\<lparr>spawned := spawned M @ [(p, x)]\<rparr>)"

definition ws_send :: "nat \<Rightarrow> string \<Rightarrow> ws_manager \<Rightarrow> ws_manager" where
  "ws_send p message M = spawn p (SendText message) M"

definition send_binary :: "nat \<Rightarrow> string \<Rightarrow> ws_manager \<Rightarrow> ws_manager" where
  "send_binary p data M = spawn p (SendBinary data) M"

definition ws_close :: "nat \<Rightarrow> ws_manager \<Rightarrow> ws_manager" where
  "ws_close p M = spawn p CloseOp M"

subsection \<open>The manager\<close>

definition apply_globals :: "ws_manager \<Rightarrow> ws_session \<Rightarrow> ws_session" where
  "apply_globals M s =
     (let s = (if m_message M \<noteq> None then s\<lparr>s_message := m_message M\<rparr> else s);
          s = (if m_binary M \<noteq> None then s\<lparr>s_binary := m_binary M\<rparr> else s);
          s = (if m_close M \<noteq> None then s\<lparr>s_close := map_option UserClose (m_close M)\<rparr> else s)
      in if m_error M \<noteq> None then s\<lparr>s_error := m_error M\<rparr> else s)"

definition add_session :: "nat \<Rightarrow> ws_manager \<Rightarrow> ws_manager" where
  "add_session p M =
     (let M = M\<lparr>sessions := sessions M @ [p]\<rparr>;
          M = M\<lparr>session_count := length (sessions M)\<rparr>
      in with_session p (apply_globals M) M)"

fun index_of :: "nat \<Rightarrow> nat list \<Rightarrow> nat option" where
  "index_of p [] = None"
| "index_of p (q # qs) = (if q = p then Some 0 else map_option Suc (index_of p qs))"

definition remove_session :: "nat \<Rightarrow> ws_manager \<Rightarrow> ws_manager" where
  "remove_session p M =
     (case index_of p (sessions M) of
        None \<Rightarrow> M
      | Some i \<Rightarrow>
          let M = M\<lparr>sessions := butlast ((sessions M)[i := last (sessions M)])\<rparr>
          in M\<lparr>session_count := length (sessions M)\<rparr>)"

definition close_all :: "ws_manager \<Rightarrow> ws_manager" where
  "close_all M = fold (\<lambda>p M. if opened_at M p then ws_close p M else M) (sessions M) M"

definition broadcast :: "string \<Rightarrow> ws_manager \<Rightarrow> ws_manager" where
  "broadcast message M = fold (\<lambda>p M. if opened_at M p then ws_send p message M else M) (sessions M) M"

definition broadcast_binary :: "string \<Rightarrow> ws_manager \<Rightarrow> ws_manager" where
  "broadcast_binary data M = fold (\<lambda>p M. if opened_at M p then send_binary p data M else M) (sessions M) M"

definition mgr_set_global_message_handler :: "hid option \<Rightarrow> ws_manager \<Rightarrow> ws_manager" where
  "mgr_set_global_message_handler h M =
     fold (\<lambda>p. with_session p (\<lambda>s. s\<lparr>s_message := h\<rparr>)) (sessions M) (M\<lparr>m_message := h\<rparr>)"

definition mgr_set_global_binary_handler :: "hid option \<Rightarrow> ws_manager \<Rightarrow> ws_manager" where
  "mgr_set_global_binary_handler h M =
     fold (\<lambda>p. with_session p (\<lambda>s. s\<lparr>s_binary := h\<rparr>)) (sessions M) (M\<lparr>m_binary := h\<rparr>)"

definition mgr_set_global_close_handler :: "hid option \<Rightarrow> ws_manager \<Rightarrow> ws_manager" where
  "mgr_set_global_close_handler h M =
     fold (\<lambda>p. with_session p (\<lambda>s. s\<lparr>s_close := map_option UserClose h\<rparr>)) (sessions M) (M\<lparr>m_close := h\<rparr>)"

definition mgr_set_global_error_handler :: "hid option \<Rightarrow> ws_manager \<Rightarrow> ws_manager" where
  "mgr_set_global_error_handler h M =
     fold (\<lambda>p. with_session p (\<lambda>s. s\<lparr>s_error := h\<rparr>)) (sessions M) (M\<lparr>m_error := h\<rparr>)"

definition get_session :: "string \<Rightarrow> ws_manager \<Rightarrow> nat option" where
  "get_session sid M =
     List.find (\<lambda>p. case heap M p of None \<Rightarrow> False | Some s \<Rightarrow> session_id_str s = sid) (sessions M)"

subsection \<open>Identifiers as text\<close>

lemma itoa_digits_show: "num \<noteq> 0 \<Longrightarrow> itoa_digits num temp = temp @ rev (show_nat (unat num))"
proof (induction num temp rule: itoa_digits.induct)
  case (1 num temp)
  then have pos: "num > 0" by (simp add: word_neq_0_conv)
  have q: "unat (num div 10) = unat num div 10" "unat (num mod 10) = unat num mod 10"
    by (simp_all add: unat_div unat_mod)
  show ?case
  proof (cases "unat num < 10")
    case True
    then have "num div 10 = 0" using q(1) by (metis div_less unat_eq_zero)
    then show ?thesis using True pos q(2)
      by (subst itoa_digits.simps) (simp add: itoa_digits.simps[of 0] show_nat.simps[of "unat num"])
  next
    case False
    then have "unat (num div 10) \<noteq> 0" using q(1) by simp
    then have "num div 10 \<noteq> 0" by (metis unat_0)
    with 1 pos have "itoa_digits num temp = (temp @ [digit_char (unat num mod 10)]) @ rev (show_nat (unat num div 10))"
      by (subst itoa_digits.simps) (simp add: q)
    then show ?thesis using False by (simp add: show_nat.simps[of "unat num"])
  qed
qed

lemma show_zero: "show_nat 0 = ''0''"
  by code_simp

lemma fast_itoa_show: "fast_itoa num = show_nat (unat num)"
  by (simp add: fast_itoa_def itoa_digits_show show_zero)

lemma length_itoa_digits: "num \<noteq> 0 \<Longrightarrow> length (itoa_digits num []) = length (show_nat (unat num))"
  by (simp add: itoa_digits_show)

text \<open>C39: fast_itoa prints a session identifier exactly as std::to_string does: it terminates, its scratch
  array of 20 characters and the 32-byte buffer of the session with the terminator suffice for every
  64-bit value, and different identifiers have different texts.\<close>

theorem fast_itoa_correct:
  "fast_itoa num = show_nat (unat num) \<and> length (itoa_digits num []) \<le> 20 \<and> length (fast_itoa num) + 1 \<le> 32 \<and>
   (fast_itoa num = fast_itoa num' \<longleftrightarrow> num = num')"
proof -
  have "unat num < 2 ^ LENGTH(64)" by (rule unsigned_less)
  then have "unat num < 10 ^ 20" by simp
  then have "length (show_nat (unat num)) \<le> 20" by (rule length_show_nat) simp
  moreover have "length (itoa_digits num []) \<le> 20"
    using calculation by (cases "num = 0") (simp_all add: length_itoa_digits itoa_digits.simps[of 0])
  ultimately show ?thesis by (simp add: fast_itoa_show show_nat_inject word_unat_eq_iff)
qed

text \<open>Identifiers made at different times (in the low 44 bits of the clock) differ while fewer than 2^20
  sessions have been created; at the same time they need not.\<close>

lemma push_bit_drop: "drop_bit 20 (push_bit 20 t XOR r) = (take_bit 44 t :: 64 word)" if "drop_bit 20 r = 0"
  by (rule bit_eqI) (use that in \<open>auto simp: bit_simps bit_eq_iff\<close>)

lemma session_ids_differ:
  assumes "take_bit 44 t \<noteq> take_bit 44 t'" "drop_bit 20 c = 0" "drop_bit 20 c' = 0"
  shows "fst (generate_session_id t r c) \<noteq> fst (generate_session_id t' r' c')"
proof
  have low: "drop_bit 20 ((x AND 0xFFFFF) XOR y) = 0" if "drop_bit 20 y = 0" for x y :: "64 word"
  proof -
    have "(0xFFFFF :: 64 word) = mask 20" by (simp add: mask_eq_exp_minus_1)
    then have "drop_bit 20 (x AND 0xFFFFF) = (0 :: 64 word)"
      by (simp only: take_bit_eq_mask[symmetric] drop_bit_take_bit) simp
    with that show ?thesis by (simp add: drop_bit_xor)
  qed
  assume "fst (generate_session_id t r c) = fst (generate_session_id t' r' c')"
  then have "push_bit 20 t XOR ((r AND 0xFFFFF) XOR c) = push_bit 20 t' XOR ((r' AND 0xFFFFF) XOR c')"
    by (simp add: generate_session_id_def xor.assoc)
  then show False using push_bit_drop[OF low[OF assms(2)], of t r] push_bit_drop[OF low[OF assms(3)], of t' r'] assms(1)
    by simp
qed

lemma session_ids_collide: "fst (generate_session_id t 1 0) = fst (generate_session_id t 0 1)"
  by (simp add: generate_session_id_def)

subsection \<open>The manager keeps its books\<close>

lemma index_of_Some: "index_of p ps = Some i \<Longrightarrow> i < length ps \<and> ps ! i = p"
  by (induction ps arbitrary: i) (auto split: if_splits)

lemma index_of_None: "index_of p ps = None \<longleftrightarrow> p \<notin> set ps"
  by (induction ps) auto

text \<open>Removing by overwriting with the last element and dropping that one removes one occurrence.\<close>

lemma mset_swap_remove:
  assumes "i < length ps" shows "mset (butlast (ps[i := last ps])) = mset ps - {#ps ! i#}"
proof -
  from assms have ne: "ps \<noteq> []" by auto
  then obtain qs x where ps: "ps = qs @ [x]" by (metis append_butlast_last_id)
  show ?thesis
  proof (cases "i = length qs")
    case True
    with ps show ?thesis by simp
  next
    case False
    with assms ps have "i < length qs" by simp
    with ps show ?thesis by (simp add: list_update_append nth_append mset_update)
  qed
qed

lemma with_session_simps [simp]:
  "sessions (with_session p f M) = sessions M" "session_count (with_session p f M) = session_count M"
  "spawned (with_session p f M) = spawned M"
  by (simp_all add: with_session_def)

lemma fold_with_session [simp]:
  "sessions (fold (\<lambda>p. with_session p f) ps M) = sessions M"
  "session_count (fold (\<lambda>p. with_session p f) ps M) = session_count M"
  by (induction ps arbitrary: M) simp_all

lemma spawn_simps [simp]:
  "sessions (spawn p x M) = sessions M" "session_count (spawn p x M) = session_count M"
  "heap (spawn p x M) = heap M" "opened_at (spawn p x M) q = opened_at M q"
  by (simp_all add: spawn_def opened_at_def)

lemma mset_add_session: "mset (sessions (add_session p M)) = mset (sessions M) + {#p#}"
  by (simp add: add_session_def Let_def)

lemma mset_remove_session: "mset (sessions (remove_session p M)) = mset (sessions M) - {#p#}"
proof (cases "index_of p (sessions M)")
  case None
  then have "p \<notin># mset (sessions M)" by (simp add: index_of_None)
  with None show ?thesis by (simp add: remove_session_def diff_single_trivial)
next
  case (Some i)
  with index_of_Some[OF Some] show ?thesis by (simp add: remove_session_def mset_swap_remove Let_def)
qed

text \<open>Spawning an operation for every open session of a list, in order.\<close>

lemma fold_spawn:
  "fold (\<lambda>p M. if opened_at M p then spawn p x M else M) ps M =
   M\<lparr>spawned := spawned M @ map (\<lambda>p. (p, x)) (filter (opened_at M) ps)\<rparr>"
proof (induction ps arbitrary: M)
  case (Cons p ps)
  have "opened_at (spawn p x M) = opened_at M" by (simp add: fun_eq_iff)
  then show ?case by (simp add: Cons, simp add: spawn_def)
qed simp

lemma to_all:
  "broadcast m M = M\<lparr>spawned := spawned M @ map (\<lambda>p. (p, SendText m)) (filter (opened_at M) (sessions M))\<rparr>"
  "broadcast_binary d M = M\<lparr>spawned := spawned M @ map (\<lambda>p. (p, SendBinary d)) (filter (opened_at M) (sessions M))\<rparr>"
  "close_all M = M\<lparr>spawned := spawned M @ map (\<lambda>p. (p, CloseOp)) (filter (opened_at M) (sessions M))\<rparr>"
  unfolding broadcast_def broadcast_binary_def close_all_def ws_send_def send_binary_def ws_close_def
  by (rule fold_spawn)+

text \<open>The operations of the manager, and the bag of sessions they are meant to maintain.\<close>

datatype mgr_op =
    AddSession nat | RemoveSession nat | Broadcast string | BroadcastBinary string | CloseAll
  | SetMessage "hid option" | SetBinary "hid option" | SetClose "hid option" | SetError "hid option"

fun mgr_step :: "mgr_op \<Rightarrow> ws_manager \<Rightarrow> ws_manager" where
  "mgr_step (AddSession p) M = add_session p M"
| "mgr_step (RemoveSession p) M = remove_session p M"
| "mgr_step (Broadcast m) M = broadcast m M"
| "mgr_step (BroadcastBinary d) M = broadcast_binary d M"
| "mgr_step CloseAll M = close_all M"
| "mgr_step (SetMessage h) M = mgr_set_global_message_handler h M"
| "mgr_step (SetBinary h) M = mgr_set_global_binary_handler h M"
| "mgr_step (SetClose h) M = mgr_set_global_close_handler h M"
| "mgr_step (SetError h) M = mgr_set_global_error_handler h M"

text \<open>Around them sessions come to life and their streams open and close: \<^verbatim>\<open>make_shared\<close> at an address that is free, the
  handshake, the end of a connection.\<close>

datatype mgr_ev = Mgr mgr_op | NewSession nat "64 word" | StreamState nat bool

definition new_session :: "nat \<Rightarrow> 64 word \<Rightarrow> ws_manager \<Rightarrow> ws_manager" where
  "new_session p sid M = (if heap M p = None then M\<lparr>heap := (heap M)(p := Some (WebSocketSession sid))\<rparr> else M)"

fun mgr_ev_step :: "mgr_ev \<Rightarrow> ws_manager \<Rightarrow> ws_manager" where
  "mgr_ev_step (Mgr x) M = mgr_step x M"
| "mgr_ev_step (NewSession p sid) M = new_session p sid M"
| "mgr_ev_step (StreamState p b) M = with_session p (\<lambda>s. s\<lparr>is_open := b\<rparr>) M"

text \<open>The specification: a bag of registered sessions, the sessions there are, the open ones, and what was sent to whom.\<close>

record ws_bag =
  bag :: "nat multiset"
  existing :: "nat set"
  open_ones :: "nat set"
  sent :: "(nat \<times> ws_op) multiset"

definition empty_bag :: ws_bag where
  "empty_bag = \<lparr>bag = {#}, existing = {}, open_ones = {}, sent = {#}\<rparr>"

definition to_open :: "ws_op \<Rightarrow> ws_bag \<Rightarrow> ws_bag" where
  "to_open x b = b\<lparr>sent := sent b + image_mset (\<lambda>p. (p, x)) (filter_mset (\<lambda>p. p \<in> open_ones b) (bag b))\<rparr>"

fun bag_step :: "mgr_ev \<Rightarrow> ws_bag \<Rightarrow> ws_bag" where
  "bag_step (Mgr (AddSession p)) b = b\<lparr>bag := bag b + {#p#}\<rparr>"
| "bag_step (Mgr (RemoveSession p)) b = b\<lparr>bag := bag b - {#p#}\<rparr>"
| "bag_step (Mgr (Broadcast m)) b = to_open (SendText m) b"
| "bag_step (Mgr (BroadcastBinary d)) b = to_open (SendBinary d) b"
| "bag_step (Mgr CloseAll) b = to_open CloseOp b"
| "bag_step (Mgr x) b = b"
| "bag_step (NewSession p sid) b = b\<lparr>existing := insert p (existing b)\<rparr>"
| "bag_step (StreamState p True) b = (if p \<in> existing b then b\<lparr>open_ones := insert p (open_ones b)\<rparr> else b)"
| "bag_step (StreamState p False) b = b\<lparr>open_ones := open_ones b - {p}\<rparr>"

definition bag_of :: "ws_manager \<Rightarrow> ws_bag" where
  "bag_of M = \<lparr>bag = mset (sessions M), existing = {p. heap M p \<noteq> None}, open_ones = {p. opened_at M p}, sent = mset (spawned M)\<rparr>"

definition counted :: "ws_manager \<Rightarrow> bool" where
  "counted M \<longleftrightarrow> session_count M = length (sessions M)"

lemmas set_globals = mgr_set_global_message_handler_def mgr_set_global_binary_handler_def
  mgr_set_global_close_handler_def mgr_set_global_error_handler_def

lemma heap_with_session: "heap (with_session p f M) q = (if q = p then map_option f (heap M p) else heap M q)"
  by (simp add: with_session_def)

lemma fold_with_session_heap:
  "heap (fold (\<lambda>p. with_session p f) ps M) q = None \<longleftrightarrow> heap M q = None"
  by (induction ps arbitrary: M) (auto simp: heap_with_session)

text \<open>Setting a handler in a session opens or closes nothing.\<close>

lemma opened_with_session:
  assumes "\<And>s. is_open (f s) = is_open s"
  shows "opened_at (with_session p f M) q = opened_at M q"
  using assms by (auto simp: opened_at_def heap_with_session split: option.split)

lemma fold_opened:
  assumes "\<And>s. is_open (f s) = is_open s"
  shows "opened_at (fold (\<lambda>p. with_session p f) ps M) q = opened_at M q"
  by (induction ps arbitrary: M) (simp_all add: opened_with_session [OF assms])

lemma fold_spawned: "spawned (fold (\<lambda>p. with_session p f) ps M) = spawned M"
  by (induction ps arbitrary: M) simp_all

lemma opened_at_cong: "heap M = heap N \<Longrightarrow> opened_at M = opened_at N"
  by (simp add: opened_at_def fun_eq_iff)

lemma bag_of_globals:
  assumes "\<And>s. is_open (f s) = is_open s" "heap N = heap M" "sessions N = sessions M" "spawned N = spawned M"
  shows "bag_of (fold (\<lambda>p. with_session p f) ps N) = bag_of M"
  using assms by (simp add: bag_of_def fold_with_session_heap fold_opened fold_spawned opened_at_cong [of N M])

lemma bag_of_spawned:
  "bag_of (M\<lparr>spawned := spawned M @ map (\<lambda>p. (p, x)) (filter (opened_at M) (sessions M))\<rparr>) = to_open x (bag_of M)"
  by (simp add: bag_of_def to_open_def opened_at_def)

lemma is_open_apply_globals: "is_open (apply_globals M s) = is_open s"
  by (simp add: apply_globals_def Let_def)

lemma bag_of_add: "bag_of (add_session p M) = (bag_of M)\<lparr>bag := mset (sessions M) + {#p#}\<rparr>"
proof -
  let ?N = "M\<lparr>sessions := sessions M @ [p], session_count := Suc (length (sessions M))\<rparr>"
  have "opened_at (add_session p M) q = opened_at ?N q" for q
    by (simp add: add_session_def Let_def opened_with_session is_open_apply_globals)
  moreover have "opened_at ?N = opened_at M" by (rule opened_at_cong) simp
  ultimately show ?thesis by (auto simp: bag_of_def add_session_def Let_def heap_with_session)
qed

lemma bag_of_remove: "bag_of (remove_session p M) = (bag_of M)\<lparr>bag := mset (sessions M) - {#p#}\<rparr>"
proof -
  have "heap (remove_session p M) = heap M" "spawned (remove_session p M) = spawned M"
    by (simp_all add: remove_session_def Let_def split: option.split)
  then show ?thesis by (simp add: bag_of_def mset_remove_session opened_at_cong [of "remove_session p M" M])
qed

lemma mgr_step_bag: "bag_of (mgr_step e M) = bag_step (Mgr e) (bag_of M)"
  by (cases e) (simp_all add: bag_of_add bag_of_remove to_all bag_of_spawned set_globals bag_of_globals, simp_all add: bag_of_def)

lemma mgr_ev_step_bag: "bag_of (mgr_ev_step e M) = bag_step e (bag_of M)"
proof (cases e)
  case (NewSession p sid)
  then show ?thesis by (auto simp: new_session_def bag_of_def opened_at_def WebSocketSession_def)
next
  case (StreamState p b)
  then show ?thesis
    by (cases b) (auto simp: bag_of_def opened_at_def heap_with_session split: option.splits if_splits)
qed (simp add: mgr_step_bag)

lemma mgr_step_counted: "counted M \<Longrightarrow> counted (mgr_step e M)"
  by (cases e) (simp_all add: counted_def to_all set_globals add_session_def remove_session_def Let_def split: option.split)

lemma mgr_ev_step_counted: "counted M \<Longrightarrow> counted (mgr_ev_step e M)"
  by (cases e) (simp_all add: mgr_step_counted, simp_all add: counted_def new_session_def)

interpretation mgr: refining_machine mgr_ev_step counted bag_step bag_of
  by unfold_locales (simp_all add: mgr_ev_step_counted mgr_ev_step_bag)

text \<open>C27: The manager implements a bag of sessions: after any sequence of its operations, between which sessions are
  created and their streams open and close, it holds exactly the sessions added and not removed, the reported
  count is their number, and broadcasts and the closing of all sessions have spawned exactly one operation
  for every session that was registered and open at that moment.\<close>

theorem manager_refines_bag:
  "bag_of (fold mgr_ev_step es empty_manager) = fold bag_step es empty_bag \<and>
   session_count (fold mgr_ev_step es empty_manager) = size (bag (fold bag_step es empty_bag))"
proof -
  have c: "counted empty_manager" by (simp add: counted_def empty_manager_def)
  have "bag_of empty_manager = empty_bag" by (simp add: bag_of_def empty_bag_def empty_manager_def opened_at_def)
  then have b: "bag_of (fold mgr_ev_step es empty_manager) = fold bag_step es empty_bag" using mgr.run_abs [OF c, of es] by simp
  have "session_count (fold mgr_ev_step es empty_manager) = size (bag (bag_of (fold mgr_ev_step es empty_manager)))"
    using mgr.run_inv [OF c, of es] by (simp add: counted_def bag_of_def)
  then show ?thesis by (simp add: b)
qed

text \<open>Two sessions are registered and one is open when a message is broadcast.\<close>

lemma broadcast_reaches_open:
  "sent (fold bag_step [NewSession 0 5, NewSession 1 6, StreamState 0 True, Mgr (AddSession 0), Mgr (AddSession 1),
     Mgr (Broadcast ''hi'')] empty_bag) = {#(0, SendText ''hi'')#}"
  by (simp add: empty_bag_def to_open_def)

subsection \<open>Delivery of messages\<close>

definition quiet :: "ws_handlers \<Rightarrow> ws_session \<Rightarrow> (bool \<times> string) list \<Rightarrow> bool" where
  "quiet H s fs \<longleftrightarrow> (\<forall>(b, d) \<in> set fs. case handler_for s b d of None \<Rightarrow> True | Some c \<Rightarrow> H c s = (s, None))"

abbreviation frames :: "(bool \<times> string) list \<Rightarrow> (bool \<times> ws_read) list" where
  "frames fs \<equiv> map (\<lambda>(b, d). (True, Frame b d)) fs"

abbreviation handed_over :: "ws_session \<Rightarrow> (bool \<times> string) list \<Rightarrow> ws_call list" where
  "handed_over s fs \<equiv> List.map_filter (\<lambda>(b, d). handler_for s b d) fs"

lemma ws_run_frames:
  "quiet H s fs \<Longrightarrow>
   ws_run H s (frames fs @ rest) = (case ws_run H s rest of (cs, s', e) \<Rightarrow> (handed_over s fs @ cs, s', e))"
proof (induction fs)
  case (Cons f fs)
  obtain b d where f: "f = (b, d)" by force
  obtain cs s' e where r: "ws_run H s rest = (cs, s', e)" by (metis prod_cases3)
  from Cons f r show ?case
    by (cases "handler_for s b d") (auto simp: quiet_def map_filter_simps)
qed (simp add: map_filter_simps split: prod.split)

text \<open>The read loop hands every frame, in order and exactly once, to the session's handler for its kind
  (frames without a handler are dropped), for handlers that neither throw nor replace the session's
  handlers; when the peer closes, the coroutine ends without calling the error handler, and when a
  read fails it calls the error handler exactly once, after all frames, and ends.\<close>

theorem ws_run_delivers:
  assumes "quiet H s fs"
  shows "ws_run H s (frames fs @ (True, Closed) # rest) = (handed_over s fs, s, Some None) \<and>
         fst (ws_run H s (frames fs @ (True, ReadError err) # rest)) =
           handed_over s fs @ (case s_error s of None \<Rightarrow> [] | Some h \<Rightarrow> [CallError h err])"
  using ws_run_frames[OF assms] by (auto simp: report_error_def split: option.split prod.split)

theorem ws_run_delivers_witness:
  "ws_run (\<lambda>_ s. (s, None)) ((WebSocketSession 5)\<lparr>s_message := Some 1\<rparr>)
     [(True, Frame False ''a''), (True, Frame True ''b''), (True, Frame False ''c''), (True, Closed)] =
   ([CallMessage 1 ''a'', CallMessage 1 ''c''], (WebSocketSession 5)\<lparr>s_message := Some 1\<rparr>, Some None)"
proof -
  let ?s = "(WebSocketSession 5)\<lparr>s_message := Some 1\<rparr>" and ?H = "\<lambda>_ s. (s, None) :: ws_session \<times> string option"
  let ?fs = "[(False, ''a''), (True, ''b''), (False, ''c'')]"
  have "handed_over ?s ?fs = [CallMessage 1 ''a'', CallMessage 1 ''c'']"
    by (simp add: map_filter_simps handler_for_def WebSocketSession_def)
  moreover have "quiet ?H ?s ?fs" by (simp add: quiet_def handler_for_def WebSocketSession_def)
  ultimately show ?thesis using ws_run_delivers[of ?H ?s ?fs "[]"] by simp
qed

end
