(* ===== verification/WebSocketServer.thy ===== *)
theory WebSocketServer
  imports WebSocket
begin

text \<open>
  \<^verbatim>\<open>src/WebSocketServer.cpp\<close>: the constructor's default handlers, the per-route handler calls, the upgrade
  of a connection to a session, and what happens to a session when its read loop ends. The handlers
  of the application are opaque; whether one throws and whether it keeps a shared pointer to the
  session is part of the script \<open>conn\<close> of a connection, together with what the network delivers.
  The code between two suspensions is one step; the threads are in \<^verbatim>\<open>Lifecycle\<close>.
\<close>

subsection \<open>Construction\<close>

text \<open>The four default handlers, as identities, and what the first two do.\<close>

definition default_message :: hid where "default_message = 0"
definition default_binary :: hid where "default_binary = 1"
definition default_close :: hid where "default_close = 2"
definition default_error :: hid where "default_error = 3"

definition on_default_message :: "string \<Rightarrow> nat \<Rightarrow> ws_manager \<Rightarrow> ws_manager" where
  "on_default_message message p M = ws_send p (''Echo: '' @ message) M"

definition on_default_binary :: "string \<Rightarrow> nat \<Rightarrow> ws_manager \<Rightarrow> ws_manager" where
  "on_default_binary data p M = ws_send p (''Binary received, size: '' @ show_nat (length data)) M"

record ws_server =
  router :: ws_router
  ws_mgr :: ws_manager
  connection_count :: int
  session_counter :: "64 word"
  next_ptr :: nat \<comment> \<open>the next address of the heap\<close>
  running :: "nat list" \<comment> \<open>sessions whose coroutine holds a pointer\<close>
  held :: "nat list" \<comment> \<open>sessions the application holds a pointer to\<close>
  terminated :: bool \<comment> \<open>\<^verbatim>\<open>std::terminate\<close> was called\<close>

definition WebSocketServer :: "ws_router \<Rightarrow> ws_manager \<Rightarrow> ws_server" where
  "WebSocketServer R M =
     \<lparr>router = set_global_error_handler (Some default_error) (set_global_close_handler (Some default_close)
        (set_global_binary_handler (Some default_binary) (set_global_message_handler (Some default_message) R))),
      ws_mgr = M, connection_count = 0, session_counter = 0, next_ptr = 0, running = [], held = [], terminated = False\<rparr>"

text \<open>The whole constructor: the global handlers are set only when the socket could be bound. \<^verbatim>\<open>initialize\<close> only logs;
  its argument is what the logger throws.\<close>

definition WebSocketServer_new :: "(acceptor_call \<Rightarrow> exn option) \<Rightarrow> ws_router \<Rightarrow> ws_manager \<Rightarrow> ws_server result" where
  "WebSocketServer_new answer R M = bind_result (open_acceptor answer) (\<lambda>_. Inr (WebSocketServer R M))"

definition WebSocketServer_initialize :: "exn option \<Rightarrow> bool" where
  "WebSocketServer_initialize log_error = (log_error = None)"

definition get_websocket_manager :: "ws_server \<Rightarrow> ws_manager" where
  "get_websocket_manager S = ws_mgr S"

lemma WebSocketServer_new_Inr:
  "WebSocketServer_new answer R M = Inr S \<longleftrightarrow> S = WebSocketServer R M \<and> (\<forall>c. answer c = None)"
  by (auto simp: WebSocketServer_new_def open_acceptor_iff)

definition set_websocket_message_handler :: "hid option \<Rightarrow> ws_server \<Rightarrow> ws_server" where
  "set_websocket_message_handler h S = S\<lparr>router := set_global_message_handler h (router S)\<rparr>"

definition set_websocket_binary_handler :: "hid option \<Rightarrow> ws_server \<Rightarrow> ws_server" where
  "set_websocket_binary_handler h S = S\<lparr>router := set_global_binary_handler h (router S)\<rparr>"

definition set_websocket_close_handler :: "hid option \<Rightarrow> ws_server \<Rightarrow> ws_server" where
  "set_websocket_close_handler h S = S\<lparr>router := set_global_close_handler h (router S)\<rparr>"

definition set_websocket_error_handler :: "hid option \<Rightarrow> ws_server \<Rightarrow> ws_server" where
  "set_websocket_error_handler h S = S\<lparr>router := set_global_error_handler h (router S)\<rparr>"

definition server_add_route :: "string \<Rightarrow> hid option \<Rightarrow> ws_server \<Rightarrow> ws_server result" where
  "server_add_route path h S = bind_result (ws_add_route path h (router S)) (\<lambda>R. Inr (S\<lparr>router := R\<rparr>))"

definition set_route_message_handler :: "string \<Rightarrow> hid option \<Rightarrow> ws_server \<Rightarrow> ws_server \<times> nat option" where
  "set_route_message_handler path h S =
     (case set_route_handler set_message_handler path h (router S) of (R, i) \<Rightarrow> (S\<lparr>router := R\<rparr>, i))"

definition set_route_binary_handler :: "string \<Rightarrow> hid option \<Rightarrow> ws_server \<Rightarrow> ws_server \<times> nat option" where
  "set_route_binary_handler path h S =
     (case set_route_handler set_binary_handler path h (router S) of (R, i) \<Rightarrow> (S\<lparr>router := R\<rparr>, i))"

definition set_route_close_handler :: "string \<Rightarrow> hid option \<Rightarrow> ws_server \<Rightarrow> ws_server \<times> nat option" where
  "set_route_close_handler path h S =
     (case set_route_handler set_close_handler path h (router S) of (R, i) \<Rightarrow> (S\<lparr>router := R\<rparr>, i))"

definition set_route_error_handler :: "string \<Rightarrow> hid option \<Rightarrow> ws_server \<Rightarrow> ws_server \<times> nat option" where
  "set_route_error_handler path h S =
     (case set_route_handler set_error_handler path h (router S) of (R, i) \<Rightarrow> (S\<lparr>router := R\<rparr>, i))"

subsection \<open>Lifetime of a session object\<close>

text \<open>The last pointer to a session goes: the destructor calls the close handler with
  \<^verbatim>\<open>shared_from_this()\<close>, which throws \<^verbatim>\<open>bad_weak_ptr\<close> as no shared pointer is left, and an exception
  that leaves a destructor ends the program.\<close>

definition destroy_session :: "nat \<Rightarrow> ws_server \<Rightarrow> ws_server" where
  "destroy_session p S =
     (case heap (ws_mgr S) p of
        None \<Rightarrow> S
      | Some s \<Rightarrow>
          if s_close s \<noteq> None then S\<lparr>terminated := True\<rparr>
          else S\<lparr>ws_mgr := (ws_mgr S)\<lparr>heap := (heap (ws_mgr S))(p := None)\<rparr>\<rparr>)"

definition drop_pointer :: "nat \<Rightarrow> ws_server \<Rightarrow> ws_server" where
  "drop_pointer p S =
     (if p \<in> set (sessions (ws_mgr S)) \<or> p \<in> set (running S) \<or> p \<in> set (held S) then S else destroy_session p S)"

subsection \<open>A connection\<close>

record conn =
  c_read :: "string + request" \<comment> \<open>the request, or the error of the read\<close>
  c_upgrade :: bool \<comment> \<open>\<^verbatim>\<open>websocket::is_upgrade\<close>\<close>
  c_write_error :: "string option" \<comment> \<open>writing the 400 response\<close>
  c_accept_error :: "string option" \<comment> \<open>the handshake\<close>
  c_time :: "64 word"
  c_random :: "64 word"
  c_keeps :: bool \<comment> \<open>the connect handler keeps a pointer\<close>
  c_connect_throws :: "string option"

definition extract_path :: "request \<Rightarrow> string" where
  "extract_path req = (case find_char CHR ''?'' (req_target req) of None \<Rightarrow> req_target req | Some i \<Rightarrow> take i (req_target req))"

definition upgrade_required :: "beast \<Rightarrow> request \<Rightarrow> response" where
  "upgrade_required B req =
     (let res = \<lparr>status = 400, res_version = req_version req, res_keep_alive = True, res_fields = [], res_body = []\<rparr>;
          res = set_res B ''Content-Type'' ''text/plain'' res
      in prepare_payload B (res\<lparr>res_body := ''WebSocket upgrade required''\<rparr>))"

definition own_or :: "hid option \<Rightarrow> hid option \<Rightarrow> hid option" where
  "own_or own globl = (if own \<noteq> None then own else globl)"

definition install_route :: "ws_router \<Rightarrow> ws_route \<Rightarrow> ws_session \<Rightarrow> ws_session" where
  "install_route R r s = s\<lparr>s_message := own_or (message_handler r) (global_message_handler R),
     s_binary := own_or (binary_handler r) (global_binary_handler R),
     s_error := own_or (error_handler r) (global_error_handler R),
     s_close := Some (ServerClose (close_handler r) (global_close_handler R))\<rparr>"

definition install_global :: "ws_router \<Rightarrow> ws_session \<Rightarrow> ws_session" where
  "install_global R s = s\<lparr>s_message := global_message_handler R, s_binary := global_binary_handler R,
     s_error := global_error_handler R, s_close := Some (ServerClose None (global_close_handler R))\<rparr>"

text \<open>What the coroutine has done when it suspends or ends: it threw, it returned (with what it wrote), or
  the session's read loop runs (with the connect handler it called).\<close>

datatype conn_result = Threw string | Returned "response option" | Running nat "(hid \<times> nat \<times> params) option"

definition start_session :: "nat \<Rightarrow> ws_server \<Rightarrow> ws_server" where
  "start_session p S = S\<lparr>ws_mgr := add_session p (ws_mgr S)\<rparr>"

definition handle_websocket :: "beast \<Rightarrow> conn \<Rightarrow> ws_server \<Rightarrow> ws_server \<times> conn_result" where
  "handle_websocket B c S =
     (case c_read c of
        Inl e \<Rightarrow> (S, Threw e)
      | Inr req \<Rightarrow>
          let path = extract_path req in
          if \<not> c_upgrade c then
            (case c_write_error c of Some e \<Rightarrow> (S, Threw e) | None \<Rightarrow> (S, Returned (Some (upgrade_required B req))))
          else
            let p = next_ptr S;
                (sid, n) = generate_session_id (c_time c) (c_random c) (session_counter S);
                S = S\<lparr>next_ptr := Suc p, session_counter := n,
                      ws_mgr := (ws_mgr S)\<lparr>heap := (heap (ws_mgr S))(p := Some (WebSocketSession sid))\<rparr>\<rparr>
            in case c_accept_error c of
                 Some _ \<Rightarrow> (drop_pointer p S, Returned None)
               | None \<Rightarrow>
                   let S = S\<lparr>ws_mgr := with_session p (\<lambda>s. s\<lparr>is_open := True\<rparr>) (ws_mgr S), running := p # running S\<rparr>
                   in case find_route (router S) path [] of
                        Some (i, params) \<Rightarrow>
                          let r = ws_routes (router S) ! i;
                              S = S\<lparr>ws_mgr := with_session p (install_route (router S) r) (ws_mgr S)\<rparr>;
                              S = (if connect_handler r \<noteq> None \<and> c_keeps c then S\<lparr>held := p # held S\<rparr> else S)
                          in (case (connect_handler r, c_connect_throws c) of
                                (Some _, Some e) \<Rightarrow> (drop_pointer p (S\<lparr>running := remove1 p (running S)\<rparr>), Threw e)
                              | _ \<Rightarrow> (start_session p S, Running p (on_connect r p params)))
                      | None \<Rightarrow>
                          let S = S\<lparr>ws_mgr := with_session p (install_global (router S)) (ws_mgr S)\<rparr>
                          in (start_session p S, Running p None))"

text \<open>\<^verbatim>\<open>handle_connection\<close> up to the point where the session runs, and from there to its end. An exception
  leaves the coroutine, and the counter is not decremented.\<close>

definition ws_handle_connection :: "beast \<Rightarrow> conn \<Rightarrow> ws_server \<Rightarrow> ws_server \<times> conn_result" where
  "ws_handle_connection B c S =
     (let S = S\<lparr>connection_count := connection_count S + 1\<rparr>
      in case handle_websocket B c S of
           (S', Returned r) \<Rightarrow> (S'\<lparr>connection_count := connection_count S' - 1\<rparr>, Returned r)
         | (S', r) \<Rightarrow> (S', r))"

definition session_ended :: "nat \<Rightarrow> bool \<Rightarrow> ws_server \<Rightarrow> ws_server" where
  "session_ended p threw S =
     (if p \<notin> set (running S) then S
      else let S = drop_pointer p (S\<lparr>running := remove1 p (running S)\<rparr>)
           in if threw then S else S\<lparr>connection_count := connection_count S - 1\<rparr>)"

text \<open>\<^verbatim>\<open>stop\<close> closes all sessions and then stops the \<^verbatim>\<open>io_context\<close>, so no coroutine is resumed.\<close>

definition ws_stop :: "ws_server \<Rightarrow> ws_server" where
  "ws_stop S = S\<lparr>ws_mgr := close_all (ws_mgr S)\<rparr>"

subsection \<open>Establishing a session\<close>

text \<open>The script of a connection that is upgraded and whose connect handler returns.\<close>

definition upgrades :: "conn \<Rightarrow> request \<Rightarrow> bool" where
  "upgrades c req \<longleftrightarrow> c_read c = Inr req \<and> c_upgrade c \<and> c_accept_error c = None \<and> c_connect_throws c = None"

lemma apply_globals_fields:
  "s_message (apply_globals M s) = own_or (m_message M) (s_message s)"
  "s_binary (apply_globals M s) = own_or (m_binary M) (s_binary s)"
  "s_error (apply_globals M s) = own_or (m_error M) (s_error s)"
  "s_close (apply_globals M s) = (if m_close M \<noteq> None then map_option UserClose (m_close M) else s_close s)"
  "session_id (apply_globals M s) = session_id s" "session_id_str (apply_globals M s) = session_id_str s"
  "is_open (apply_globals M s) = is_open s"
  by (simp_all add: apply_globals_def own_or_def Let_def)

lemma apply_globals_cong: "apply_globals (M\<lparr>sessions := ps, session_count := n\<rparr>) = apply_globals M"
  by (simp add: apply_globals_def fun_eq_iff)

lemma start_session_result:
  "sessions (ws_mgr (start_session p S)) = sessions (ws_mgr S) @ [p]"
  "heap (ws_mgr (start_session p S)) p = map_option (apply_globals (ws_mgr S)) (heap (ws_mgr S) p)"
  "running (start_session p S) = running S"
  by (simp_all add: start_session_def add_session_def heap_with_session apply_globals_cong Let_def)

lemma own_or_None: "own_or None h = h"
  by (simp add: own_or_def)

lemma session_created:
  assumes "upgrades c req"
  shows "\<exists>S' s. handle_websocket B c S =
           (S', Running (next_ptr S) (case find_route (router S) (extract_path req) [] of
              None \<Rightarrow> None | Some (i, ps) \<Rightarrow> on_connect (ws_routes (router S) ! i) (next_ptr S) ps)) \<and>
         sessions (ws_mgr S') = sessions (ws_mgr S) @ [next_ptr S] \<and>
         heap (ws_mgr S') (next_ptr S) = Some s \<and> is_open s \<and> session_id_str s = show_nat (unat (session_id s)) \<and>
         (let own = (\<lambda>f. case find_route (router S) (extract_path req) [] of
                None \<Rightarrow> None | Some (i, _) \<Rightarrow> f (ws_routes (router S) ! i)) in
          s_message s = own_or (m_message (ws_mgr S)) (own_or (own message_handler) (global_message_handler (router S))) \<and>
          s_binary s = own_or (m_binary (ws_mgr S)) (own_or (own binary_handler) (global_binary_handler (router S))) \<and>
          s_error s = own_or (m_error (ws_mgr S)) (own_or (own error_handler) (global_error_handler (router S))))"
proof -
  obtain sid n where g: "generate_session_id (c_time c) (c_random c) (session_counter S) = (sid, n)" by force
  note defs = handle_websocket_def upgrades_def g start_session_result heap_with_session apply_globals_fields
    WebSocketSession_def fast_itoa_show with_session_def Let_def own_or_None
  show ?thesis
  proof (cases "find_route (router S) (extract_path req) []")
    case None
    with assms show ?thesis by (simp add: defs install_global_def)
  next
    case (Some ip)
    obtain i ps where ip: "ip = (i, ps)" by force
    show ?thesis
    proof (cases "connect_handler (ws_routes (router S) ! i)")
      case None
      with assms Some ip show ?thesis by (simp add: defs install_route_def)
    next
      case (Some h)
      with assms \<open>find_route _ _ _ = Some ip\<close> ip show ?thesis by (simp add: defs install_route_def)
    qed
  qed
qed

text \<open>A connection that asks for the upgrade to a path some route matches becomes a session: its connect
  handler is called with the parameters of the first matching route, the session is open, is registered
  with the manager, bears the decimal text of its identifier, and each kind of message goes to the
  manager's global handler if one is set, otherwise to the route's, otherwise to the router's; a path
  without a route gives a session with the global handlers.\<close>

theorem session_established:
  assumes "upgrades c req"
  shows "\<exists>S' s. handle_websocket B c S =
           (S', Running (next_ptr S) (case find_route (router S) (extract_path req) [] of
              None \<Rightarrow> None | Some (i, ps) \<Rightarrow> on_connect (ws_routes (router S) ! i) (next_ptr S) ps)) \<and>
         sessions (ws_mgr S') = sessions (ws_mgr S) @ [next_ptr S] \<and>
         heap (ws_mgr S') (next_ptr S) = Some s \<and> is_open s \<and> session_id_str s = show_nat (unat (session_id s)) \<and>
         (let own = (\<lambda>f. case find_route (router S) (extract_path req) [] of
                None \<Rightarrow> None | Some (i, _) \<Rightarrow> f (ws_routes (router S) ! i)) in
          s_message s = own_or (m_message (ws_mgr S)) (own_or (own message_handler) (global_message_handler (router S))) \<and>
          s_binary s = own_or (m_binary (ws_mgr S)) (own_or (own binary_handler) (global_binary_handler (router S))) \<and>
          s_error s = own_or (m_error (ws_mgr S)) (own_or (own error_handler) (global_error_handler (router S))))"
  using assms by (rule session_created)

definition sample_conn :: "string \<Rightarrow> conn" where
  "sample_conn target = \<lparr>c_read = Inr (sample_request GET target), c_upgrade = True, c_write_error = None, c_accept_error = None,
     c_time = 5, c_random = 3, c_keeps = False, c_connect_throws = None\<rparr>"

definition sample_server :: ws_server where
  "sample_server = WebSocketServer empty_ws_router empty_manager"

lemma sample_conn_upgrades: "upgrades (sample_conn t) (sample_request GET t)"
  by (simp add: upgrades_def sample_conn_def)

theorem session_established_witness:
  "\<exists>S' s. handle_websocket sample_beast (sample_conn ''/chat?x'') sample_server = (S', Running 0 None) \<and>
     sessions (ws_mgr S') = [0] \<and> heap (ws_mgr S') 0 = Some s \<and> s_message s = Some default_message"
proof -
  have "next_ptr sample_server = 0" "sessions (ws_mgr sample_server) = []" "m_message (ws_mgr sample_server) = None"
    "global_message_handler (router sample_server) = Some default_message" "ws_routes (router sample_server) = []"
    by (simp_all add: sample_server_def WebSocketServer_def empty_manager_def empty_ws_router_def set_global_message_handler_def
        set_global_binary_handler_def set_global_close_handler_def set_global_error_handler_def)
  then show ?thesis using session_established[OF sample_conn_upgrades, of sample_beast "''/chat?x''" sample_server]
    by (auto simp: Let_def find_route_def own_or_None)
qed

subsection \<open>What becomes of sessions\<close>

text \<open>Everything that can happen to the server: connections, the end of read loops (with or without an
  exception of the error handler), calls of the application on the manager, and streams that open or close. The
  application can register only a session it has a pointer to; removing one may drop the last pointer.\<close>

datatype ws_ev = Connection conn | Ended nat bool | App mgr_op | Stream_state nat bool

fun app_call :: "mgr_op \<Rightarrow> ws_server \<Rightarrow> ws_server" where
  "app_call (AddSession p) S = (if heap (ws_mgr S) p = None then S else S\<lparr>ws_mgr := add_session p (ws_mgr S)\<rparr>)"
| "app_call (RemoveSession p) S = drop_pointer p (S\<lparr>ws_mgr := remove_session p (ws_mgr S)\<rparr>)"
| "app_call x S = S\<lparr>ws_mgr := mgr_step x (ws_mgr S)\<rparr>"

fun ws_step :: "beast \<Rightarrow> ws_ev \<Rightarrow> ws_server \<Rightarrow> ws_server" where
  "ws_step B (Connection c) S = fst (ws_handle_connection B c S)"
| "ws_step B (Ended p threw) S = session_ended p threw S"
| "ws_step B (App x) S = app_call x S"
| "ws_step B (Stream_state p b) S = S\<lparr>ws_mgr := with_session p (\<lambda>s. s\<lparr>is_open := b\<rparr>) (ws_mgr S)\<rparr>"

text \<open>A session that is registered and whose object exists.\<close>

definition retained :: "nat \<Rightarrow> ws_server \<Rightarrow> bool" where
  "retained p S \<longleftrightarrow> p \<in> set (sessions (ws_mgr S)) \<and> heap (ws_mgr S) p \<noteq> None"

lemma drop_pointer_sessions [simp]: "sessions (ws_mgr (drop_pointer p S)) = sessions (ws_mgr S)"
  by (simp add: drop_pointer_def destroy_session_def split: option.split)

lemma retained_drop: "retained p S \<Longrightarrow> retained p (drop_pointer q S)"
  by (auto simp: retained_def drop_pointer_def destroy_session_def split: option.split)

lemma retained_start: "retained p S \<Longrightarrow> retained p (start_session q S)"
  by (auto simp: retained_def start_session_def add_session_def heap_with_session Let_def)

lemma retained_cong:
  assumes "sessions (ws_mgr T) = sessions (ws_mgr S)" "heap (ws_mgr T) p = None \<Longrightarrow> heap (ws_mgr S) p = None" "retained p S"
  shows "retained p T"
  using assms unfolding retained_def by metis

lemma retained_counts [simp]:
  "retained p (S\<lparr>connection_count := n\<rparr>) = retained p S" "retained p (S\<lparr>running := ps\<rparr>) = retained p S"
  by (simp_all add: retained_def)

lemma handle_websocket_retains:
  assumes "handle_websocket B c S = (S', r)" "retained p S"
  shows "retained p S'"
  using assms by (auto simp: handle_websocket_def heap_with_session Let_def
      intro!: retained_drop retained_start retained_cong [OF _ _ assms(2)]
      split: sum.splits option.splits if_splits prod.splits)

lemma handle_websocket_registers:
  assumes "handle_websocket B c S = (S', Running p x)"
  shows "retained p S'"
  using assms by (auto simp: handle_websocket_def retained_def start_session_result heap_with_session Let_def
      split: sum.splits option.splits if_splits prod.splits)

lemma ws_handle_connection_retains: "retained p S \<Longrightarrow> retained p (fst (ws_handle_connection B c S))"
  using handle_websocket_retains [of B c "S\<lparr>connection_count := connection_count S + 1\<rparr>"]
  by (auto simp: ws_handle_connection_def split: prod.split conn_result.split)

lemma app_call_retains:
  assumes "x \<noteq> RemoveSession p" "retained p S"
  shows "retained p (app_call x S)"
proof (cases x)
  case (AddSession q)
  then show ?thesis using retained_start [OF assms(2), of q] assms(2) by (simp add: start_session_def)
next
  case (RemoveSession q)
  then have "p \<in># mset (sessions (remove_session q (ws_mgr S)))"
    using assms by (simp add: mset_remove_session retained_def in_diff_count)
  moreover have "heap (remove_session q (ws_mgr S)) = heap (ws_mgr S)"
    by (simp add: remove_session_def Let_def split: option.split)
  ultimately have "retained p (S\<lparr>ws_mgr := remove_session q (ws_mgr S)\<rparr>)" using assms(2) by (simp add: retained_def)
  then show ?thesis using RemoveSession by (simp add: retained_drop)
qed (use assms(2) in \<open>simp_all add: retained_def to_all set_globals fold_with_session_heap\<close>)

lemma ws_step_retains:
  assumes "e \<noteq> App (RemoveSession p)" "retained p S"
  shows "retained p (ws_step B e S)"
proof (cases e)
  case (Ended q threw)
  then show ?thesis using assms(2) by (simp add: session_ended_def retained_drop Let_def)
next
  case (Stream_state q b)
  then show ?thesis using assms(2) by (auto simp: retained_def heap_with_session)
qed (use assms in \<open>simp_all add: ws_handle_connection_retains app_call_retains\<close>)

interpretation ws_life: rel_machine "\<lambda>e S. if e = App (RemoveSession p) then S else ws_step B e S" "\<lambda>S T. retained p S \<longrightarrow> retained p T" for B p
  by unfold_locales (auto simp: ws_step_retains)

text \<open>C31: A session that was established is not released by the server: whatever happens afterwards, including the end of
  its connection, it stays registered with the manager and its object stays allocated, unless the application
  itself calls \<^verbatim>\<open>remove_session\<close> for it. The server removes a session only in the close handler, and that runs only in the destructor.\<close>

theorem sessions_never_released:
  assumes "ws_handle_connection B c S = (S', Running p x)" "App (RemoveSession p) \<notin> set es"
  shows "p \<in> set (sessions (ws_mgr (fold (ws_step B) es S'))) \<and> heap (ws_mgr (fold (ws_step B) es S')) p \<noteq> None"
proof -
  from assms(1) have "handle_websocket B c (S\<lparr>connection_count := connection_count S + 1\<rparr>) = (S', Running p x)"
    by (auto simp: ws_handle_connection_def split: prod.splits conn_result.splits)
  then have "retained p S'" by (rule handle_websocket_registers)
  moreover have "fold (\<lambda>e S. if e = App (RemoveSession p) then S else ws_step B e S) es S' = fold (ws_step B) es S'"
    using assms(2) by (intro fold_cong) auto
  ultimately show ?thesis using ws_life.run_rel [where es = es and s = S' and B = B and p = p] by (simp add: retained_def)
qed

theorem sessions_never_released_witness:
  "0 \<in> set (sessions (ws_mgr (fold (ws_step sample_beast) [Stream_state 0 False, Ended 0 False, App (RemoveSession 1)]
     (fst (ws_handle_connection sample_beast (sample_conn ''/'') sample_server)))))"
proof -
  have "ws_handle_connection sample_beast (sample_conn ''/'') sample_server =
      (fst (ws_handle_connection sample_beast (sample_conn ''/'') sample_server), Running 0 None)"
    by (simp add: ws_handle_connection_def handle_websocket_def sample_conn_def sample_request_def sample_server_def WebSocketServer_def
        empty_ws_router_def find_route_def extract_path_def generate_session_id_def set_global_message_handler_def
        set_global_binary_handler_def set_global_close_handler_def set_global_error_handler_def Let_def)
  from sessions_never_released [OF this, of "[Stream_state 0 False, Ended 0 False, App (RemoveSession 1)]"] show ?thesis by simp
qed

text \<open>A connect handler that throws, and keeps no pointer, ends the program: the session is destroyed with
  its close handler set.\<close>

theorem connect_exception_terminates:
  assumes "c_read c = Inr req" "c_upgrade c" "c_accept_error c = None" "c_connect_throws c = Some e" "\<not> c_keeps c"
    and "find_route (router S) (extract_path req) [] = Some (i, ps)" "connect_handler (ws_routes (router S) ! i) = Some h"
    and "next_ptr S \<notin> set (sessions (ws_mgr S))" "next_ptr S \<notin> set (running S)" "next_ptr S \<notin> set (held S)"
  shows "terminated (fst (handle_websocket B c S))"
proof -
  obtain sid n where "generate_session_id (c_time c) (c_random c) (session_counter S) = (sid, n)" by force
  with assms show ?thesis
    by (simp add: handle_websocket_def drop_pointer_def destroy_session_def heap_with_session install_route_def Let_def)
qed

text \<open>A connection whose request cannot be read leaves the connection counter incremented for good.\<close>

theorem failed_read_counted:
  assumes "c_read c = Inl e"
  shows "ws_handle_connection B c S = (S\<lparr>connection_count := connection_count S + 1\<rparr>, Threw e)"
  using assms by (simp add: ws_handle_connection_def handle_websocket_def)

end
