(* ===== verification/WebSocketService.thy ===== *)
theory WebSocketService
  imports WebSocketServer
begin

text \<open>
  The WebSocket server at work: connections are upgraded to sessions, the frames of all sessions arrive
  interleaved in any order, the read loop of each session (\<^verbatim>\<open>WebSocketSession::run\<close>) hands them to the handlers that
  the router chose for it, and the handlers act on the server.
\<close>

subsection \<open>One round of a session's read loop\<close>

text \<open>A handler acts on the server; it may throw.\<close>

type_synonym ws_actions = "ws_call \<Rightarrow> nat \<Rightarrow> ws_server \<Rightarrow> ws_server \<times> string option"

text \<open>The catch blocks of \<^verbatim>\<open>run\<close>: the error handler is called, and the coroutine ends.\<close>

definition end_with_error :: "ws_actions \<Rightarrow> nat \<Rightarrow> string \<Rightarrow> ws_server \<Rightarrow> ws_server \<times> ws_call list" where
  "end_with_error A p err S =
     (case heap (ws_mgr S) p of
        None \<Rightarrow> (S, [])
      | Some s \<Rightarrow>
          (case s_error s of
             None \<Rightarrow> (session_ended p False S, [])
           | Some h \<Rightarrow> (case A (CallError h err) p S of (S', e) \<Rightarrow> (session_ended p (e \<noteq> None) S', [CallError h err]))))"

text \<open>What a read of session \<open>p\<close> delivers, up to the next read: the loop goes on while the stream is open.\<close>

definition deliver :: "ws_actions \<Rightarrow> nat \<Rightarrow> ws_read \<Rightarrow> ws_server \<Rightarrow> ws_server \<times> ws_call list" where
  "deliver A p r S =
     (if p \<notin> set (running S) then (S, [])
      else case heap (ws_mgr S) p of
             None \<Rightarrow> (S, [])
           | Some s \<Rightarrow>
               (case r of
                  Closed \<Rightarrow> (session_ended p False S, [])
                | ReadError err \<Rightarrow> end_with_error A p err S
                | Frame binary data \<Rightarrow>
                    (let (S', calls, e) =
                       (case handler_for s binary data of
                          None \<Rightarrow> (S, [], None)
                        | Some c \<Rightarrow> (case A c p S of (S', e) \<Rightarrow> (S', [c], e)))
                     in case e of
                          Some err \<Rightarrow> (case end_with_error A p err S' of (S2, cs) \<Rightarrow> (S2, calls @ cs))
                        | None \<Rightarrow> (if opened_at (ws_mgr S') p then S' else session_ended p False S', calls))))"

text \<open>The handlers the constructor of the server installs, and those of the application.\<close>

fun server_actions :: "ws_actions \<Rightarrow> ws_actions" where
  "server_actions U (CallMessage h m) p S =
     (if h = default_message then (S\<lparr>ws_mgr := on_default_message m p (ws_mgr S)\<rparr>, None) else U (CallMessage h m) p S)"
| "server_actions U (CallBinary h d) p S =
     (if h = default_binary then (S\<lparr>ws_mgr := on_default_binary d p (ws_mgr S)\<rparr>, None) else U (CallBinary h d) p S)"
| "server_actions U (CallError h err) p S =
     (if h = default_error then (S, None) else U (CallError h err) p S)"

subsection \<open>Connections and frames in any order\<close>

datatype service_ev = Connect conn | Arrive nat ws_read

fun service_step :: "beast \<Rightarrow> ws_actions \<Rightarrow> service_ev \<Rightarrow> ws_server \<times> ws_call list \<Rightarrow> ws_server \<times> ws_call list" where
  "service_step B U (Connect c) (S, calls) = (fst (ws_handle_connection B c S), calls)"
| "service_step B U (Arrive p r) (S, calls) =
     (case deliver (server_actions U) p r S of (S', cs) \<Rightarrow> (S', calls @ cs))"

text \<open>The specification: the call for a frame depends on nothing but the path its connection asked for.\<close>

definition route_call :: "ws_router \<Rightarrow> string \<Rightarrow> bool \<Rightarrow> string \<Rightarrow> ws_call option" where
  "route_call R path binary data =
     (let own = (\<lambda>f. case find_route R path [] of None \<Rightarrow> None | Some (i, _) \<Rightarrow> f (ws_routes R ! i))
      in if binary then map_option (\<lambda>h. CallBinary h data) (own_or (own binary_handler) (global_binary_handler R))
         else map_option (\<lambda>h. CallMessage h data) (own_or (own message_handler) (global_message_handler R)))"

definition error_call :: "ws_router \<Rightarrow> string \<Rightarrow> hid option" where
  "error_call R path =
     own_or (case find_route R path [] of None \<Rightarrow> None | Some (i, _) \<Rightarrow> error_handler (ws_routes R ! i)) (global_error_handler R)"

definition list_of :: "'a option \<Rightarrow> 'a list" where
  "list_of x = (case x of None \<Rightarrow> [] | Some y \<Rightarrow> [y])"

text \<open>Which sessions read, with the path of each: the number of session objects made so far, and the paths. A session
  begins with a request for the upgrade and a handshake that succeed, and ends when its peer closes or a read fails.\<close>

type_synonym readers = "nat \<times> (nat \<Rightarrow> string option)"

fun track :: "service_ev \<Rightarrow> readers \<Rightarrow> readers" where
  "track (Connect c) (n, act) =
     (case c_read c of
        Inl e \<Rightarrow> (n, act)
      | Inr req \<Rightarrow>
          if \<not> c_upgrade c then (n, act)
          else if c_accept_error c \<noteq> None then (Suc n, act)
          else (Suc n, act(n := Some (extract_path req))))"
| "track (Arrive p (Frame binary data)) (n, act) = (n, act)"
| "track (Arrive p r) (n, act) = (n, act(p := None))"

fun calls_for :: "ws_router \<Rightarrow> (nat \<Rightarrow> string option) \<Rightarrow> service_ev \<Rightarrow> ws_call list" where
  "calls_for R act (Connect c) = []"
| "calls_for R act (Arrive p r) =
     (case act p of
        None \<Rightarrow> []
      | Some path \<Rightarrow>
          (case r of
             Frame binary data \<Rightarrow> list_of (route_call R path binary data)
           | ReadError err \<Rightarrow> list_of (map_option (\<lambda>h. CallError h err) (error_call R path))
           | Closed \<Rightarrow> []))"

fun routed_calls :: "ws_router \<Rightarrow> readers \<Rightarrow> service_ev list \<Rightarrow> ws_call list" where
  "routed_calls R z [] = []"
| "routed_calls R z (e # es) = calls_for R (snd z) e @ routed_calls R (track e z) es"

text \<open>The conditions on the application: its handlers of messages and errors return normally and do nothing to the
  server but send (or ask for a close), and its connect handlers do not throw.\<close>

definition only_sends :: "ws_actions \<Rightarrow> bool" where
  "only_sends U \<longleftrightarrow> (\<forall>c p S. \<exists>ops. U c p S = (S\<lparr>ws_mgr := (ws_mgr S)\<lparr>spawned := spawned (ws_mgr S) @ ops\<rparr>\<rparr>, None))"

fun connects :: "service_ev \<Rightarrow> bool" where
  "connects (Connect c) \<longleftrightarrow> c_connect_throws c = None"
| "connects (Arrive p r) \<longleftrightarrow> True"

subsection \<open>What a connection changes\<close>

lemma server_new_globals:
  "global_message_handler (router (WebSocketServer R M)) = Some default_message"
  "global_binary_handler (router (WebSocketServer R M)) = Some default_binary"
  "ws_routes (router (WebSocketServer R M)) = ws_routes R"
  by (simp_all add: WebSocketServer_def set_global_message_handler_def set_global_binary_handler_def
      set_global_close_handler_def set_global_error_handler_def)

text \<open>The router and the global handlers of the manager, which connections leave as they are.\<close>

definition same_globals :: "ws_server \<Rightarrow> ws_server \<Rightarrow> bool" where
  "same_globals S T \<longleftrightarrow> router T = router S \<and> m_message (ws_mgr T) = m_message (ws_mgr S) \<and>
     m_binary (ws_mgr T) = m_binary (ws_mgr S) \<and> m_error (ws_mgr T) = m_error (ws_mgr S) \<and> spawned (ws_mgr T) = spawned (ws_mgr S)"

lemma add_session_frame:
  "heap (add_session p M) q = (if q = p then map_option (apply_globals M) (heap M p) else heap M q)"
  "spawned (add_session p M) = spawned M" "m_message (add_session p M) = m_message M" "m_binary (add_session p M) = m_binary M"
  "m_error (add_session p M) = m_error M"
  by (simp_all add: add_session_def with_session_def apply_globals_cong Let_def)

lemma upgrade_frame:
  assumes "upgrades c req"
  shows "same_globals S (fst (ws_handle_connection B c S))"
    "next_ptr (fst (ws_handle_connection B c S)) = Suc (next_ptr S)"
    "running (fst (ws_handle_connection B c S)) = next_ptr S # running S"
    "q \<noteq> next_ptr S \<Longrightarrow> heap (ws_mgr (fst (ws_handle_connection B c S))) q = heap (ws_mgr S) q"
  using assms
  by (auto simp: ws_handle_connection_def handle_websocket_def upgrades_def start_session_def add_session_frame with_session_def
      same_globals_def Let_def split: prod.splits option.splits)

lemma drop_pointer_frame:
  "same_globals S (drop_pointer p S)" "next_ptr (drop_pointer p S) = next_ptr S" "running (drop_pointer p S) = running S"
  "q \<noteq> p \<Longrightarrow> heap (ws_mgr (drop_pointer p S)) q = heap (ws_mgr S) q"
  by (simp_all add: drop_pointer_def destroy_session_def same_globals_def split: option.split)

lemma refused_frame:
  assumes "c_read c = Inr req" "c_upgrade c" "c_accept_error c = Some e"
  shows "same_globals S (fst (ws_handle_connection B c S))"
    "next_ptr (fst (ws_handle_connection B c S)) = Suc (next_ptr S)"
    "running (fst (ws_handle_connection B c S)) = running S"
    "q \<noteq> next_ptr S \<Longrightarrow> heap (ws_mgr (fst (ws_handle_connection B c S))) q = heap (ws_mgr S) q"
  using assms
  by (auto simp: ws_handle_connection_def handle_websocket_def drop_pointer_frame(2,3) drop_pointer_frame(4) [of q]
      drop_pointer_frame(1) [unfolded same_globals_def] same_globals_def Let_def split: prod.splits)

lemma session_ended_frame:
  "same_globals S (session_ended p threw S)" "next_ptr (session_ended p threw S) = next_ptr S"
  "running (session_ended p threw S) = remove1 p (running S)"
  "q \<noteq> p \<Longrightarrow> heap (ws_mgr (session_ended p threw S)) q = heap (ws_mgr S) q"
  by (auto simp: session_ended_def drop_pointer_frame(2,3) drop_pointer_frame(4) [of q]
      drop_pointer_frame(1) [unfolded same_globals_def] same_globals_def remove1_idem Let_def)

subsection \<open>The invariant of the running service\<close>

definition has_handlers :: "ws_router \<Rightarrow> string \<Rightarrow> ws_session \<Rightarrow> bool" where
  "has_handlers R path s \<longleftrightarrow> is_open s \<and> (\<forall>b d. handler_for s b d = route_call R path b d) \<and> s_error s = error_call R path"

text \<open>The sessions that read are those tracked; they are open and have the handlers of their path.\<close>

definition serving :: "ws_router \<Rightarrow> readers \<Rightarrow> ws_server \<Rightarrow> bool" where
  "serving R z S \<longleftrightarrow> router S = R \<and> next_ptr S = fst z \<and>
     m_message (ws_mgr S) = None \<and> m_binary (ws_mgr S) = None \<and> m_error (ws_mgr S) = None \<and>
     distinct (running S) \<and> set (running S) = {p. snd z p \<noteq> None} \<and> (\<forall>p \<ge> fst z. snd z p = None) \<and>
     (\<forall>p path. snd z p = Some path \<longrightarrow> (\<exists>s. heap (ws_mgr S) p = Some s \<and> has_handlers R path s))"

text \<open>Steps that create a session object and read no more.\<close>

lemma serving_frameI:
  assumes "serving R (n, act) S" "same_globals S T" "next_ptr T = n'" "n \<le> n'" "running T = running S"
    and "\<And>q. act q \<noteq> None \<Longrightarrow> heap (ws_mgr T) q = heap (ws_mgr S) q"
  shows "serving R (n', act) T"
proof -
  have "\<exists>s. heap (ws_mgr T) p = Some s \<and> has_handlers R path s" if "act p = Some path" for p path
    using assms(1) assms(6) [of p] that by (simp add: serving_def)
  then show ?thesis using assms(1-5) by (simp add: serving_def same_globals_def)
qed

text \<open>A step after which a session reads no more.\<close>

lemma serving_endI:
  assumes "serving R (n, act) S" "same_globals S T" "next_ptr T = n" "running T = remove1 p (running S)"
    and "\<And>q. q \<noteq> p \<Longrightarrow> heap (ws_mgr T) q = heap (ws_mgr S) q"
  shows "serving R (n, act(p := None)) T"
proof -
  have d: "distinct (running S)" "set (running S) = {p. act p \<noteq> None}" using assms(1) by (simp_all add: serving_def)
  have "\<exists>s. heap (ws_mgr T) q = Some s \<and> has_handlers R path s" if "act q = Some path" "q \<noteq> p" for q path
    using assms(1) assms(5) [of q] that by (simp add: serving_def)
  moreover have "set (running T) = {q. (act(p := None)) q \<noteq> None}" using d assms(4) by auto
  moreover have "distinct (running T)" using d assms(4) by simp
  ultimately show ?thesis using assms(1-3) by (simp add: serving_def same_globals_def)
qed

lemma serving_upgrade:
  assumes "serving R (n, act) S" "upgrades c req"
  shows "serving R (Suc n, act(n := Some (extract_path req))) (fst (ws_handle_connection B c S))"
proof -
  let ?S = "fst (ws_handle_connection B c S)"
  note inv = assms(1) [unfolded serving_def]
  note frame = upgrade_frame [OF assms(2), where B = B and S = S]
  have n: "next_ptr S = n" "act n = None" "set (running S) = {p. act p \<noteq> None}" using inv by auto
  define S1 where "S1 = S\<lparr>connection_count := connection_count S + 1\<rparr>"
  have S1: "router S1 = R" "next_ptr S1 = n" "m_message (ws_mgr S1) = None" "m_binary (ws_mgr S1) = None" "m_error (ws_mgr S1) = None"
    using inv by (simp_all add: S1_def)
  obtain s where s: "heap (ws_mgr ?S) n = Some s" "has_handlers R (extract_path req) s"
    using session_created [OF assms(2), of B S1, unfolded S1 own_or_None Let_def]
    by (auto simp: ws_handle_connection_def S1_def [symmetric] handler_for_def route_call_def error_call_def has_handlers_def Let_def)
  have "\<exists>s. heap (ws_mgr ?S) p = Some s \<and> has_handlers R path s" if "act p = Some path" "p \<noteq> n" for p path
    using inv frame(4) [of p] n(1) that by simp
  moreover have "set (running ?S) = {p. (act(n := Some (extract_path req))) p \<noteq> None}" using frame(3) n by auto
  moreover have "distinct (running ?S)" using frame(3) n inv by simp
  ultimately show ?thesis using inv frame(1,2) s by (simp add: serving_def same_globals_def)
qed

lemma serving_connect:
  assumes "serving R z S" "connects (Connect c)"
  shows "serving R (track (Connect c) z) (fst (ws_handle_connection B c S))"
proof -
  obtain n act where z: "z = (n, act)" by force
  note sv = assms(1) [unfolded z]
  have n: "next_ptr S = n" "act n = None" using sv by (simp_all add: serving_def)
  consider (upgrade) req where "upgrades c req" | (refused) req e where "c_read c = Inr req" "c_upgrade c" "c_accept_error c = Some e"
    | (unread) e where "c_read c = Inl e" | (plain) req where "c_read c = Inr req" "\<not> c_upgrade c"
    using assms(2) by (cases "c_read c"; cases "c_accept_error c") (auto simp: upgrades_def)
  then show ?thesis
  proof cases
    case upgrade
    then show ?thesis using serving_upgrade [OF sv upgrade, of B] z by (simp add: upgrades_def)
  next
    case refused
    note frame = refused_frame [OF refused, where B = B and S = S]
    have "serving R (Suc (next_ptr S), act) (fst (ws_handle_connection B c S))"
    proof (rule serving_frameI [OF sv frame(1) frame(2)])
      show "heap (ws_mgr (fst (ws_handle_connection B c S))) q = heap (ws_mgr S) q" if "act q \<noteq> None" for q
        using frame(4) [of q] n that by metis
    qed (simp_all add: frame(3) n)
    then show ?thesis using refused z n(1) by simp
  next
    case unread
    then show ?thesis using assms(1) z by (simp add: ws_handle_connection_def handle_websocket_def serving_def)
  next
    case plain
    then show ?thesis using assms(1) z
      by (cases "c_write_error c") (simp_all add: ws_handle_connection_def handle_websocket_def serving_def Let_def)
  qed
qed

lemma serving_spawned: "serving R z (S\<lparr>ws_mgr := (ws_mgr S)\<lparr>spawned := x\<rparr>\<rparr>) = serving R z S"
  by (simp add: serving_def)

lemma server_actions_send: "only_sends U \<Longrightarrow> only_sends (server_actions U)"
  unfolding only_sends_def
proof (intro allI)
  fix c p and S :: ws_server
  assume U: "\<forall>c p S. \<exists>ops. U c p S = (S\<lparr>ws_mgr := (ws_mgr S)\<lparr>spawned := spawned (ws_mgr S) @ ops\<rparr>\<rparr>, None)"
  have "\<exists>ops. S\<lparr>ws_mgr := ws_send p m (ws_mgr S)\<rparr> = S\<lparr>ws_mgr := (ws_mgr S)\<lparr>spawned := spawned (ws_mgr S) @ ops\<rparr>\<rparr>" for m
    by (cases "opened_at (ws_mgr S) p") (auto simp: ws_send_def spawn_def intro: exI [of _ "[]"])
  moreover have "\<exists>ops. S = S\<lparr>ws_mgr := (ws_mgr S)\<lparr>spawned := spawned (ws_mgr S) @ ops\<rparr>\<rparr>" by (rule exI [of _ "[]"]) simp
  ultimately show "\<exists>ops. server_actions U c p S = (S\<lparr>ws_mgr := (ws_mgr S)\<lparr>spawned := spawned (ws_mgr S) @ ops\<rparr>\<rparr>, None)"
    using U by (cases c) (auto simp: on_default_message_def on_default_binary_def)
qed

lemma opened_at_spawned [simp]: "opened_at (M\<lparr>spawned := x\<rparr>) p = opened_at M p"
  by (simp add: opened_at_def)

lemma serving_at:
  assumes "serving R (n, act) S"
  shows "act p = None \<Longrightarrow> p \<notin> set (running S)"
    "act p = Some path \<Longrightarrow> p \<in> set (running S) \<and> opened_at (ws_mgr S) p \<and>
       (\<exists>s. heap (ws_mgr S) p = Some s \<and> (\<forall>b d. handler_for s b d = route_call R path b d) \<and> s_error s = error_call R path)"
  using assms by (force simp: serving_def has_handlers_def opened_at_def)+

text \<open>A read calls the handler of the session's path and nothing else.\<close>

lemma serving_frame:
  assumes "serving R (n, act) S" "act p = Some path" "only_sends A"
  shows "\<exists>ops. deliver A p (Frame b d) S =
      (S\<lparr>ws_mgr := (ws_mgr S)\<lparr>spawned := spawned (ws_mgr S) @ ops\<rparr>\<rparr>, list_of (route_call R path b d))"
proof -
  obtain s where s: "p \<in> set (running S)" "opened_at (ws_mgr S) p" "heap (ws_mgr S) p = Some s" "handler_for s b d = route_call R path b d"
    using serving_at(2) [OF assms(1,2)] by blast
  show ?thesis
  proof (cases "route_call R path b d")
    case None
    then show ?thesis using s by (intro exI [of _ "[]"]) (simp add: deliver_def list_of_def)
  next
    case (Some c)
    obtain ops where "A c p S = (S\<lparr>ws_mgr := (ws_mgr S)\<lparr>spawned := spawned (ws_mgr S) @ ops\<rparr>\<rparr>, None)"
      using assms(3) unfolding only_sends_def by meson
    then show ?thesis using s Some by (intro exI [of _ ops]) (simp add: deliver_def list_of_def)
  qed
qed

lemma serving_error:
  assumes "serving R (n, act) S" "act p = Some path" "only_sends A"
  shows "\<exists>ops. deliver A p (ReadError err) S =
      (session_ended p False (S\<lparr>ws_mgr := (ws_mgr S)\<lparr>spawned := spawned (ws_mgr S) @ ops\<rparr>\<rparr>),
       list_of (map_option (\<lambda>h. CallError h err) (error_call R path)))"
proof -
  obtain s where s: "p \<in> set (running S)" "heap (ws_mgr S) p = Some s" "s_error s = error_call R path"
    using serving_at(2) [OF assms(1,2)] by blast
  show ?thesis
  proof (cases "error_call R path")
    case None
    then show ?thesis using s by (intro exI [of _ "[]"]) (simp add: deliver_def end_with_error_def list_of_def)
  next
    case (Some h)
    obtain ops where "A (CallError h err) p S = (S\<lparr>ws_mgr := (ws_mgr S)\<lparr>spawned := spawned (ws_mgr S) @ ops\<rparr>\<rparr>, None)"
      using assms(3) unfolding only_sends_def by meson
    then show ?thesis using s Some by (intro exI [of _ ops]) (simp add: deliver_def end_with_error_def list_of_def)
  qed
qed

lemma serving_arrive:
  assumes "serving R z S" "only_sends A" "deliver A p r S = (S', cs)"
  shows "serving R (track (Arrive p r) z) S' \<and> cs = calls_for R (snd z) (Arrive p r)"
proof -
  obtain n act where z: "z = (n, act)" by force
  have ended: "serving R (n, act(p := None)) (session_ended p False T)" if "serving R (n, act) T" for T
    by (rule serving_endI [OF that session_ended_frame(1) _ session_ended_frame(3) session_ended_frame(4)])
      (use that in \<open>simp_all add: serving_def session_ended_frame(2)\<close>)
  note sv = assms(1) [unfolded z]
  show ?thesis
  proof (cases "act p")
    case None
    then have "act(p := None) = act" by auto
    then show ?thesis using assms serving_at(1) [OF sv None] None z by (cases r) (auto simp: deliver_def)
  next
    case (Some path)
    show ?thesis
    proof (cases r)
      case (Frame b d)
      then show ?thesis using serving_frame [OF sv Some assms(2), of b d] sv assms(3) Some z by (auto simp: serving_spawned)
    next
      case (ReadError err)
      then show ?thesis using serving_error [OF sv Some assms(2), of err] assms(3) Some z ended sv
        by (auto simp: serving_spawned)
    next
      case Closed
      then have "(S', cs) = (session_ended p False S, [])"
        using assms(3) serving_at(2) [OF sv Some] by (auto simp: deliver_def)
      then show ?thesis using Closed Some z ended [OF sv] by simp
    qed
  qed
qed

subsection \<open>Frames reach the handlers of their route\<close>

lemma service_routes:
  assumes "only_sends U"
  shows "serving R z S \<Longrightarrow> list_all connects es \<Longrightarrow>
    snd (fold (service_step B U) es (S, calls)) = calls @ routed_calls R z es"
proof (induction es arbitrary: z S calls)
  case (Cons e es)
  show ?case
  proof (cases e)
    case (Connect c)
    then have "serving R (track (Connect c) z) (fst (ws_handle_connection B c S))"
      using serving_connect [OF Cons.prems(1), of c B] Cons.prems(2) by simp
    then show ?thesis using Cons.IH Cons.prems(2) Connect by simp
  next
    case (Arrive p r)
    obtain S' cs where d: "deliver (server_actions U) p r S = (S', cs)" by force
    from serving_arrive [OF Cons.prems(1) server_actions_send [OF assms] d]
    have "serving R (track (Arrive p r) z) S'" "cs = calls_for R (snd z) (Arrive p r)" by blast+
    then show ?thesis using Cons.IH [of "track (Arrive p r) z" S' "calls @ cs"] Cons.prems(2) Arrive d
      by (simp del: calls_for.simps)
  qed
qed simp

abbreviation no_readers :: readers where
  "no_readers \<equiv> (0, \<lambda>p. None)"

lemma serving_new: "serving (router (WebSocketServer R empty_manager)) no_readers (WebSocketServer R empty_manager)"
  by (simp add: serving_def WebSocketServer_def empty_manager_def)

text \<open>C13: The server calls exactly the right handlers: with connections and reads of all sessions interleaved in any order,
  among them requests that fail, handshakes that are refused, peers that close, reads that fail and
  reads for sessions that are gone, the handlers called are, read by read in order of arrival: for a frame of a session that
  still reads, the message or binary handler of the first route that matches the path its connection asked
  for, or the global handler where the route has none, once and with the data of the frame; for a failed read
  its error handler, chosen in the same way; and none otherwise. Conditions: the message, binary and error handlers
  of the application return normally and do nothing to the server but send, its connect handlers do
  not throw, and no handlers are set on the manager.\<close>

theorem ws_frames_routed:
  assumes "only_sends U" "list_all connects es"
  shows "snd (fold (service_step B U) es (WebSocketServer R empty_manager, [])) =
    routed_calls (router (WebSocketServer R empty_manager)) no_readers es"
  using service_routes [OF assms(1) serving_new assms(2), of B R "[]"] by simp

definition sample_ws_router :: ws_router where
  "sample_ws_router = fst (set_route_handler set_message_handler ''/chat/:room'' (Some 7)
     (case WS_R ''/chat/:room'' 6 empty_ws_router of Inr R \<Rightarrow> R | Inl e \<Rightarrow> empty_ws_router))"

theorem ws_frames_routed_witness:
  "snd (fold (service_step sample_beast (\<lambda>c p S. (S, None)))
     [Connect (sample_conn ''/chat/a''), Connect ((sample_conn ''/y'')\<lparr>c_accept_error := Some ''no''\<rparr>), Connect (sample_conn ''/x''),
      Arrive 2 (Frame False ''u''), Arrive 1 (Frame False ''w''), Arrive 0 (Frame False ''v''), Arrive 2 (ReadError ''reset''), Arrive 2 (Frame False ''z'')]
     (WebSocketServer sample_ws_router empty_manager, [])) = [CallMessage 0 ''u'', CallMessage 7 ''v'', CallError 3 ''reset'']"
proof -
  let ?es = "[Connect (sample_conn ''/chat/a''), Connect ((sample_conn ''/y'')\<lparr>c_accept_error := Some ''no''\<rparr>), Connect (sample_conn ''/x''),
      Arrive 2 (Frame False ''u''), Arrive 1 (Frame False ''w''), Arrive 0 (Frame False ''v''), Arrive 2 (ReadError ''reset''), Arrive 2 (Frame False ''z'')]"
  have u: "only_sends (\<lambda>c p S. (S, None))" unfolding only_sends_def by (intro allI exI [of _ "[]"]) simp
  have o: "list_all connects ?es" by (simp add: sample_conn_def)
  have "routed_calls (router (WebSocketServer sample_ws_router empty_manager)) no_readers ?es =
      [CallMessage 0 ''u'', CallMessage 7 ''v'', CallError 3 ''reset'']" by code_simp
  then show ?thesis using ws_frames_routed [OF u o, of sample_beast sample_ws_router] by simp
qed

subsection \<open>The rounds of one session are its read loop\<close>

text \<open>Handlers that touch nothing but their session, and the reads of one session.\<close>

definition on_session :: "ws_handlers \<Rightarrow> ws_actions" where
  "on_session H c p S =
     (case heap (ws_mgr S) p of
        None \<Rightarrow> (S, None)
      | Some s \<Rightarrow> (S\<lparr>ws_mgr := with_session p (\<lambda>_. fst (H c s)) (ws_mgr S)\<rparr>, snd (H c s)))"

fun reads_of :: "ws_actions \<Rightarrow> nat \<Rightarrow> ws_read list \<Rightarrow> ws_server \<Rightarrow> ws_call list" where
  "reads_of A p [] S = []"
| "reads_of A p (r # rs) S = snd (deliver A p r S) @ reads_of A p rs (fst (deliver A p r S))"

lemma reads_of_ended: "p \<notin> set (running S) \<Longrightarrow> reads_of A p rs S = []"
  by (induction rs) (simp_all add: deliver_def)

lemma session_ended_running:
  "distinct (running S) \<Longrightarrow> p \<notin> set (running (session_ended p threw S))"
  by (auto simp: session_ended_def drop_pointer_def destroy_session_def Let_def split: option.splits)

lemma on_session_at:
  assumes "heap (ws_mgr S) p = Some s"
  shows "on_session H c p S = (S\<lparr>ws_mgr := with_session p (\<lambda>_. fst (H c s)) (ws_mgr S)\<rparr>, snd (H c s))"
  using assms by (simp add: on_session_def)

lemma end_with_error_calls:
  assumes "heap (ws_mgr S) p = Some s" "distinct (running S)" "p \<in> set (running S)"
  shows "snd (end_with_error (on_session H) p err S) = fst (report_error H s err) \<and>
    p \<notin> set (running (fst (end_with_error (on_session H) p err S)))"
  using assms by (auto simp: end_with_error_def report_error_def on_session_at session_ended_running split: option.splits prod.splits)

text \<open>For handlers that leave the stream open, the calls made round by round are those of the whole coroutine \<open>ws_run\<close>.\<close>

lemma rounds_are_run:
  assumes H: "\<And>c s. is_open (fst (H c s)) = is_open s"
  shows "heap (ws_mgr S) p = Some s \<Longrightarrow> is_open s \<Longrightarrow> p \<in> set (running S) \<Longrightarrow> distinct (running S) \<Longrightarrow>
    reads_of (on_session H) p rs S = fst (ws_run H s (map (Pair True) rs))"
proof (induction rs arbitrary: S s)
  case (Cons r rs)
  note err = end_with_error_calls [OF Cons.prems(1,4,3), of H]
  show ?case
  proof (cases r)
    case Closed
    then show ?thesis using Cons.prems session_ended_running [of S p False] by (simp add: deliver_def reads_of_ended)
  next
    case (ReadError e)
    then show ?thesis using Cons.prems err [of e] by (simp add: deliver_def reads_of_ended split: prod.splits)
  next
    case (Frame b d)
    show ?thesis
    proof (cases "handler_for s b d")
      case None
      then have "deliver (on_session H) p r S = (S, [])" using Frame Cons.prems by (simp add: deliver_def opened_at_def)
      then show ?thesis using Cons Frame None by simp
    next
      case (Some c)
      obtain s' e where h: "H c s = (s', e)" by force
      let ?S = "S\<lparr>ws_mgr := with_session p (\<lambda>_. s') (ws_mgr S)\<rparr>"
      have S: "heap (ws_mgr ?S) p = Some s'" "is_open s'" "p \<in> set (running ?S)" "distinct (running ?S)"
        using Cons.prems H [of c s] h by (simp_all add: heap_with_session)
      have a: "on_session H c p S = (?S, e)" using on_session_at [OF Cons.prems(1), of H c] h by simp
      show ?thesis
      proof (cases e)
        case None
        then have "deliver (on_session H) p r S = (?S, [c])"
          using Frame Some Cons.prems a S(1,2) by (simp add: deliver_def opened_at_def)
        then show ?thesis using Cons.IH [OF S] Frame Some h None by (simp split: prod.splits)
      next
        case (Some err)
        obtain S2 cs where e2: "end_with_error (on_session H) p err ?S = (S2, cs)" by force
        then have "deliver (on_session H) p r S = (S2, c # cs)"
          using Frame \<open>handler_for s b d = Some c\<close> Cons.prems a Some by (simp add: deliver_def)
        then show ?thesis
          using end_with_error_calls [OF S(1,4,3), of H err] e2 Frame \<open>handler_for s b d = Some c\<close> h Some
          by (simp add: reads_of_ended split: prod.splits)
      qed
    qed
  qed
qed simp

end
