(* ===== verification/WebSocketWrites.thy ===== *)
theory WebSocketWrites
  imports WebSocketService "HOL-Library.Sublist"
begin

text \<open>
  The write side of a WebSocket session: \<^verbatim>\<open>send\<close> and \<^verbatim>\<open>send_binary\<close> of \<^verbatim>\<open>src/WebSocketSession.cpp\<close> each spawn a coroutine
  that writes one message to the stream of the session. The coroutines wait in the queue of the \<^verbatim>\<open>io_context\<close>, from
  which the threads of the server take them in order; a thread that has taken one begins the write at some
  later moment, and the write ends or fails still later. Beast allows one write at a time on a stream
  (beside a read and a close). Messages are their bytes: the constructor makes all of them binary.
\<close>

record ws_stream =
  stream_open :: bool
  asked :: "string list" \<comment> \<open>the messages of the calls that found the stream open, in order\<close>
  queued :: "string list" \<comment> \<open>spawned coroutines no thread has taken\<close>
  taken :: "string list" \<comment> \<open>coroutines on a thread, before the write\<close>
  in_progress :: "string list"
  wire :: "string list" \<comment> \<open>written, in order\<close>
  overlapped :: bool \<comment> \<open>a write began while another was in progress\<close>

definition new_stream :: ws_stream where
  "new_stream = \<lparr>stream_open = True, asked = [], queued = [], taken = [], in_progress = [], wire = [], overlapped = False\<rparr>"

text \<open>\<^verbatim>\<open>send\<close> and \<^verbatim>\<open>send_binary\<close>: nothing on a closed stream, otherwise \<^verbatim>\<open>net::co_spawn\<close>.\<close>

definition spawn_write :: "string \<Rightarrow> ws_stream \<Rightarrow> ws_stream" where
  "spawn_write x w = (if \<not> stream_open w then w else w\<lparr>asked := asked w @ [x], queued := queued w @ [x]\<rparr>)"

definition begin_write :: "string \<Rightarrow> string list \<Rightarrow> ws_stream \<Rightarrow> ws_stream" where
  "begin_write x rest w = w\<lparr>taken := rest, in_progress := in_progress w @ [x], overlapped := (overlapped w \<or> in_progress w \<noteq> [])\<rparr>"

text \<open>The steps with \<open>n\<close> threads. The stream may close at any time, by the peer or by \<^verbatim>\<open>close\<close>; a write may fail at any time,
  always on a closed stream, and the coroutine swallows the error.\<close>

inductive write_step :: "nat \<Rightarrow> ws_stream \<Rightarrow> ws_stream \<Rightarrow> bool" for n where
  send: "write_step n w (spawn_write x w)"
| takes: "queued w = x # q \<Longrightarrow> length (taken w) < n \<Longrightarrow> write_step n w (w\<lparr>queued := q, taken := taken w @ [x]\<rparr>)"
| begins: "taken w = a @ x # b \<Longrightarrow> write_step n w (begin_write x (a @ b) w)"
| ends: "in_progress w = a @ x # b \<Longrightarrow> stream_open w \<Longrightarrow> write_step n w (w\<lparr>in_progress := a @ b, wire := wire w @ [x]\<rparr>)"
| fails: "in_progress w = a @ x # b \<Longrightarrow> write_step n w (w\<lparr>in_progress := a @ b\<rparr>)"
| closes: "write_step n w (w\<lparr>stream_open := False\<rparr>)"

abbreviation outstanding :: "ws_stream \<Rightarrow> string list" where
  "outstanding w \<equiv> in_progress w @ taken w @ queued w"

text \<open>The same for an application that waits for a write to end before it asks for the next.\<close>

definition polite_step :: "nat \<Rightarrow> ws_stream \<Rightarrow> ws_stream \<Rightarrow> bool" where
  "polite_step n v w \<longleftrightarrow> write_step n v w \<and> (asked w \<noteq> asked v \<longrightarrow> outstanding v = [])"

subsection \<open>Order\<close>

text \<open>What was asked for is what ended, of which some was written, and what is outstanding.\<close>

definition in_order :: "ws_stream \<Rightarrow> bool" where
  "in_order w \<longleftrightarrow> (\<exists>ended. asked w = ended @ outstanding w \<and> subseq (wire w) ended)"

lemma in_orderE:
  assumes "in_order w"
  obtains ended where "asked w = ended @ outstanding w" "subseq (wire w) ended"
  using assms by (auto simp: in_order_def)

lemma in_order_new: "in_order new_stream"
  by (simp add: in_order_def new_stream_def)

lemma in_order_ends:
  assumes "in_order w" "in_progress w = [x]"
  shows "in_order (w\<lparr>in_progress := [], wire := wire w @ [x]\<rparr>)" "in_order (w\<lparr>in_progress := []\<rparr>)"
proof -
  obtain d where d: "asked w = d @ outstanding w" "subseq (wire w) d" using assms(1) by (rule in_orderE)
  have "subseq (wire w @ [x]) (d @ [x])" "subseq (wire w) (d @ [x])"
    using list_emb_append_mono [OF d(2), of "[x]" "[x]"] list_emb_prefix [OF d(2), of "[x]"] by simp_all
  with d(1) assms(2) show "in_order (w\<lparr>in_progress := [], wire := wire w @ [x]\<rparr>)" "in_order (w\<lparr>in_progress := []\<rparr>)"
    unfolding in_order_def by (intro exI [of _ "d @ [x]"]; simp)+
qed

text \<open>The order is kept by every step of a stream on which one write is in progress at most and one coroutine is taken at most.\<close>

lemma in_order_step:
  assumes "write_step n v w" "in_order v" "length (in_progress v) \<le> 1" "length (taken v) \<le> 1" "\<not> overlapped w"
  shows "in_order w"
proof -
  from assms(1) show ?thesis
  proof cases
    case (send x)
    then show ?thesis using assms(2) by (auto simp: spawn_write_def in_order_def)
  next
    case (takes x q)
    then show ?thesis using assms(2) by (auto simp: in_order_def)
  next
    case (begins a x b)
    then have "a = []" "b = []" "in_progress v = []" using assms(4,5) by (auto simp: begin_write_def)
    then show ?thesis using assms(2) begins by (auto simp: begin_write_def in_order_def)
  next
    case (ends a x b)
    then have "a = []" "b = []" using assms(3) by auto
    then show ?thesis using in_order_ends(1) [OF assms(2)] ends by simp
  next
    case (fails a x b)
    then have "a = []" "b = []" using assms(3) by auto
    then show ?thesis using in_order_ends(2) [OF assms(2)] fails by simp
  next
    case closes
    then show ?thesis using assms(2) by (auto simp: in_order_def)
  qed
qed

subsection \<open>An application that waits\<close>

definition polite_inv :: "ws_stream \<Rightarrow> bool" where
  "polite_inv w \<longleftrightarrow> \<not> overlapped w \<and> length (outstanding w) \<le> 1 \<and> in_order w"

lemma polite_inv_step:
  assumes "polite_inv v" "polite_step n v w"
  shows "polite_inv w"
proof -
  have s: "write_step n v w" and p: "asked w \<noteq> asked v \<longrightarrow> outstanding v = []" using assms(2) unfolding polite_step_def by blast+
  have v: "\<not> overlapped v" "length (outstanding v) \<le> 1" "in_order v" using assms(1) unfolding polite_inv_def by blast+
  from s have w: "\<not> overlapped w \<and> length (outstanding w) \<le> 1"
  proof cases
    case (send x)
    then show ?thesis using v p by (auto simp: spawn_write_def split: if_splits)
  next
    case (begins a x b)
    then show ?thesis using v by (auto simp: begin_write_def)
  qed (use v in auto)
  then show ?thesis using in_order_step [OF s v(3)] v(2) by (auto simp: polite_inv_def)
qed

lemma polite_reachable: "(polite_step n)\<^sup>*\<^sup>* new_stream w \<Longrightarrow> polite_inv w"
proof (induction rule: rtranclp_induct)
  case base
  show ?case using in_order_new by (simp add: polite_inv_def) (simp add: new_stream_def)
qed (rule polite_inv_step)

subsection \<open>One thread\<close>

definition single_inv :: "ws_stream \<Rightarrow> bool" where
  "single_inv w \<longleftrightarrow> length (taken w) \<le> 1 \<and> (\<not> overlapped w \<longrightarrow> length (in_progress w) \<le> 1 \<and> in_order w)"

lemma single_inv_step:
  assumes "single_inv v" "write_step 1 v w"
  shows "single_inv w"
proof -
  have v: "length (taken v) \<le> 1" "\<not> overlapped v \<longrightarrow> length (in_progress v) \<le> 1 \<and> in_order v" using assms(1) unfolding single_inv_def by blast+
  from assms(2) have w: "length (taken w) \<le> 1 \<and> (\<not> overlapped w \<longrightarrow> \<not> overlapped v \<and> length (in_progress w) \<le> 1)"
    by cases (use v in \<open>auto simp: spawn_write_def begin_write_def\<close>)
  then show ?thesis using in_order_step [OF assms(2)] v by (auto simp: single_inv_def)
qed

lemma single_reachable: "(write_step 1)\<^sup>*\<^sup>* new_stream w \<Longrightarrow> single_inv w"
proof (induction rule: rtranclp_induct)
  case base
  show ?case using in_order_new by (simp add: single_inv_def) (simp add: new_stream_def)
qed (rule single_inv_step)

subsection \<open>Two messages in a row\<close>

lemma two_calls: "(write_step n)\<^sup>*\<^sup>* new_stream (new_stream\<lparr>asked := [x, y], queued := [x, y]\<rparr>)"
proof -
  have 1: "write_step n new_stream (new_stream\<lparr>asked := [x], queued := [x]\<rparr>)"
    using write_step.send [of n new_stream x] by (simp add: spawn_write_def new_stream_def)
  have 2: "write_step n (new_stream\<lparr>asked := [x], queued := [x]\<rparr>) (new_stream\<lparr>asked := [x, y], queued := [x, y]\<rparr>)"
    using write_step.send [of n "new_stream\<lparr>asked := [x], queued := [x]\<rparr>" y] by (simp add: spawn_write_def new_stream_def)
  show ?thesis by (rule converse_rtranclp_into_rtranclp [of "write_step n", OF 1 r_into_rtranclp [of "write_step n", OF 2]])
qed

lemma overlap_reachable:
  assumes "n \<ge> 1"
  shows "\<exists>w. (write_step n)\<^sup>*\<^sup>* new_stream w \<and> asked w = [x, y] \<and> overlapped w"
proof -
  let ?w = "\<lambda>q t i v. new_stream\<lparr>asked := [x, y], queued := q, taken := t, in_progress := i, overlapped := v\<rparr>"
  have "write_step n (new_stream\<lparr>asked := [x, y], queued := [x, y]\<rparr>) (?w [y] [x] [] False)"
    using write_step.takes [of "new_stream\<lparr>asked := [x, y], queued := [x, y]\<rparr>" x "[y]" n] assms by (simp add: new_stream_def)
  moreover have "write_step n (?w [y] [x] [] False) (?w [y] [] [x] False)"
    using write_step.begins [of "?w [y] [x] [] False" "[]" x "[]" n] by (simp add: begin_write_def new_stream_def)
  moreover have "write_step n (?w [y] [] [x] False) (?w [] [y] [x] False)"
    using write_step.takes [of "?w [y] [] [x] False" y "[]" n] assms by (simp add: new_stream_def)
  moreover have "write_step n (?w [] [y] [x] False) (?w [] [] [x, y] True)"
    using write_step.begins [of "?w [] [y] [x] False" "[]" y "[]" n] by (simp add: begin_write_def new_stream_def)
  ultimately have "(write_step n)\<^sup>*\<^sup>* new_stream (?w [] [] [x, y] True)"
    using two_calls [of n x y] by (meson rtranclp.rtrancl_into_rtrancl)
  then show ?thesis by (intro exI [of _ "?w [] [] [x, y] True"]) simp
qed

lemma swap_reachable:
  assumes "n \<ge> 2"
  shows "\<exists>w. (write_step n)\<^sup>*\<^sup>* new_stream w \<and> asked w = [x, y] \<and> wire w = [y, x] \<and> \<not> overlapped w"
proof -
  let ?w = "\<lambda>q t i r. new_stream\<lparr>asked := [x, y], queued := q, taken := t, in_progress := i, wire := r\<rparr>"
  have "write_step n (new_stream\<lparr>asked := [x, y], queued := [x, y]\<rparr>) (?w [y] [x] [] [])"
    using write_step.takes [of "new_stream\<lparr>asked := [x, y], queued := [x, y]\<rparr>" x "[y]" n] assms by (simp add: new_stream_def)
  moreover have "write_step n (?w [y] [x] [] []) (?w [] [x, y] [] [])"
    using write_step.takes [of "?w [y] [x] [] []" y "[]" n] assms by (simp add: new_stream_def)
  moreover have "write_step n (?w [] [x, y] [] []) (?w [] [x] [y] [])"
    using write_step.begins [of "?w [] [x, y] [] []" "[x]" y "[]" n] by (simp add: begin_write_def new_stream_def)
  moreover have "write_step n (?w [] [x] [y] []) (?w [] [x] [] [y])"
    using write_step.ends [of "?w [] [x] [y] []" "[]" y "[]" n] by (simp add: new_stream_def)
  moreover have "write_step n (?w [] [x] [] [y]) (?w [] [] [x] [y])"
    using write_step.begins [of "?w [] [x] [] [y]" "[]" x "[]" n] by (simp add: begin_write_def new_stream_def)
  moreover have "write_step n (?w [] [] [x] [y]) (?w [] [] [] [y, x])"
    using write_step.ends [of "?w [] [] [x] [y]" "[]" x "[]" n] by (simp add: new_stream_def)
  ultimately have "(write_step n)\<^sup>*\<^sup>* new_stream (?w [] [] [] [y, x])"
    using two_calls [of n x y] by (meson rtranclp.rtrancl_into_rtrancl)
  then show ?thesis by (intro exI [of _ "?w [] [] [] [y, x]"]) (simp add: new_stream_def)
qed

text \<open>C34: How a session writes the messages of \<^verbatim>\<open>send\<close> and \<^verbatim>\<open>send_binary\<close>, with \<open>n\<close> threads, a stream that may close and writes that
  may fail at any time. If the application waits for each write to end before it sends again, no two writes overlap and
  the messages written are some of those sent, in the same order. The code does not make it wait: even on one
  thread, two messages sent in a row can be written at the same time, which the stream does not allow; and on two
  threads or more, without any overlap, in the reverse order, which one thread excludes.\<close>

theorem ws_writes_unordered:
  "(\<forall>n w. (polite_step n)\<^sup>*\<^sup>* new_stream w \<longrightarrow> \<not> overlapped w \<and> subseq (wire w) (asked w)) \<and>
   (\<forall>n \<ge> 1. \<exists>w. (write_step n)\<^sup>*\<^sup>* new_stream w \<and> asked w = [x, y] \<and> overlapped w) \<and>
   (\<forall>n \<ge> 2. \<exists>w. (write_step n)\<^sup>*\<^sup>* new_stream w \<and> asked w = [x, y] \<and> wire w = [y, x] \<and> \<not> overlapped w) \<and>
   (\<forall>w. (write_step 1)\<^sup>*\<^sup>* new_stream w \<and> \<not> overlapped w \<longrightarrow> subseq (wire w) (asked w))"
proof -
  have "subseq (wire w) (asked w)" if "in_order w" for w
    using that by (auto simp: in_order_def intro: list_emb_append2 subseq_rev_drop_many)
  then show ?thesis
    using polite_reachable single_reachable overlap_reachable swap_reachable unfolding polite_inv_def single_inv_def by blast
qed

theorem ws_writes_unordered_witness:
  "\<not> overlapped (spawn_write ''a'' new_stream) \<and> (\<exists>w. (write_step 2)\<^sup>*\<^sup>* new_stream w \<and> wire w = [''b'', ''a''])"
proof -
  have "polite_step 2 new_stream (spawn_write ''a'' new_stream)"
    using write_step.send [of 2 new_stream] by (simp add: polite_step_def) (simp add: new_stream_def)
  then have "(polite_step 2)\<^sup>*\<^sup>* new_stream (spawn_write ''a'' new_stream)" by blast
  moreover have "(2 :: nat) \<le> 2" by simp
  ultimately show ?thesis using ws_writes_unordered [of "''a''" "''b''"] by blast
qed

end
