(* ===== verification/HttpClient.thy ===== *)
theory HttpClient
  imports Http Json Regex
begin

text \<open>
  \<^verbatim>\<open>src/HttpClient.cpp\<close>: URLs, query strings, the request that is sent, and the exchange over plain TCP and
  over TLS. The network is a script: what resolving, connecting, the handshake, writing and reading
  deliver. Time-outs belong to the script, as the timer and the operation race.
\<close>

subsection \<open>The client\<close>

record client =
  timeout_ms :: int
  verify_ssl :: bool
  verify_peer :: bool \<comment> \<open>the verification mode of the TLS context\<close>

definition HttpClient :: client where
  "HttpClient = \<lparr>timeout_ms = 30000, verify_ssl = True, verify_peer = True\<rparr>"

definition set_verify_ssl :: "bool \<Rightarrow> client \<Rightarrow> client" where
  "set_verify_ssl verify c =
     (let c = c\<lparr>verify_ssl := verify\<rparr> in if \<not> verify_ssl c then c\<lparr>verify_peer := False\<rparr> else c\<lparr>verify_peer := True\<rparr>)"

definition set_timeout :: "int \<Rightarrow> client \<Rightarrow> client result" where
  "set_timeout t c = (if t \<le> 0 then Inl (invalid_argument ''Timeout must be positive'') else Inr (c\<lparr>timeout_ms := t\<rparr>))"

definition is_success :: "response \<Rightarrow> bool" where
  "is_success res \<longleftrightarrow> status res \<ge> 200 \<and> status res < 300"

subsection \<open>URLs\<close>

record UrlParts =
  protocol :: string
  host :: string
  port :: string
  url_path :: string
  query :: string

definition url_pattern :: string where
  "url_pattern = ''^(https?)://([^:/]+)(?::([0-9]{1,5}))?(/[^?#]*)?(?:'' @ [CHR 0x5C] @ ''?([^#]*))?(?:#.*)?$''"

definition parse_url :: "string \<Rightarrow> UrlParts result" where
  "parse_url url =
     (case regex_compile url_pattern of
        None \<Rightarrow> Inl (runtime_error ''regex_error'')
      | Some re \<Rightarrow>
          (case regex_match re url of
             None \<Rightarrow> Inl (runtime_error (''Invalid URL format: '' @ url))
           | Some m \<Rightarrow>
               let parts = \<lparr>protocol = sub_match m 1, host = sub_match m 2, port = sub_match m 3,
                     url_path = sub_match m 4, query = sub_match m 5\<rparr>;
                   parts = (if port parts = [] then parts\<lparr>port := (if protocol parts = ''https'' then ''443'' else ''80'')\<rparr>
                            else parts)
               in Inr (if url_path parts = [] then parts\<lparr>url_path := ''/''\<rparr> else parts)))"

subsection \<open>Query strings\<close>

definition upperHex :: string where
  "upperHex = ''0123456789ABCDEF''"

definition unreserved :: "char \<Rightarrow> bool" where
  "unreserved c \<longleftrightarrow> alnum c \<or> c \<in> set ''-_.~''"

definition encode_url :: "string \<Rightarrow> string" where
  "encode_url s = concat (map (\<lambda>c. if unreserved c then [c]
     else [CHR ''%'', upperHex ! (of_char c div 16), upperHex ! (of_char c mod 16)]) s)"

fun param_text :: "json_lib \<Rightarrow> json \<Rightarrow> string" where
  "param_text J (JStr s) = s"
| "param_text J j = dump J j"

fun add_pairs :: "json_lib \<Rightarrow> (string \<times> json) list \<Rightarrow> string \<Rightarrow> string" where
  "add_pairs J [] result = result"
| "add_pairs J ((k, v) # ms) result =
     add_pairs J ms ((if result \<noteq> [] then result @ ''&'' else result) @ encode_url k @ ''='' @ encode_url (param_text J v))"

definition json_to_query_string :: "json_lib \<Rightarrow> json \<Rightarrow> string result" where
  "json_to_query_string J j =
     (if \<not> is_object j then Inl (runtime_error ''JSON must be an object for query string conversion'')
      else Inr (add_pairs J (members j) []))"

fun json_empty :: "json \<Rightarrow> bool" where
  "json_empty JNull = True"
| "json_empty (JArr js) = (js = [])"
| "json_empty (JObj ms) = (ms = [])"
| "json_empty _ = False"

subsection \<open>Requests\<close>

definition set_req :: "beast \<Rightarrow> string \<Rightarrow> string \<Rightarrow> request \<Rightarrow> request" where
  "set_req B f v r = r\<lparr>req_fields := set_field B f v (req_fields r)\<rparr>"

definition setup_common_headers :: "beast \<Rightarrow> string \<Rightarrow> request \<Rightarrow> string \<Rightarrow> request" where
  "setup_common_headers B agent req h = set_req B ''Accept'' ''*/*'' (set_req B ''User-Agent'' agent (set_req B ''Host'' h req))"

text \<open>The part both exchanges share, written twice in the source: from \<^verbatim>\<open>Request req\<close> to \<^verbatim>\<open>prepare_payload\<close>.\<close>

definition make_request :: "beast \<Rightarrow> json_lib \<Rightarrow> string \<Rightarrow> UrlParts \<Rightarrow> verb \<Rightarrow> json \<Rightarrow> request result" where
  "make_request B J agent parts method body =
     (let req = \<lparr>req_method = method, req_target = url_path parts, req_version = 11, req_keep_alive = True,
            req_fields = [], req_body = []\<rparr>;
          req = setup_common_headers B agent req (host parts)
      in bind_result
          (if method = POST \<or> method = PUT \<or> method = DELETE then
             (let req = set_req B ''Content-Type'' ''application/json'' req
              in Inr (if \<not> json_empty body then req\<lparr>req_body := dump J body\<rparr> else req))
           else if method = GET \<and> \<not> json_empty body then
             bind_result (json_to_query_string J body) (\<lambda>query_string.
               Inr (if query_string \<noteq> [] then req\<lparr>req_target := url_path parts @ ''?'' @ query_string\<rparr> else req))
           else Inr req)
          (\<lambda>req. Inr (prepare_request B req)))"

subsection \<open>The exchange\<close>

text \<open>A step over plain TCP: whether the timer fired while it ran, and its error. An operation that fails
  throws at once; the flag of the timer is only looked at after a success.\<close>

type_synonym timed = "bool \<times> string option"

definition timed_step :: "string \<Rightarrow> timed \<Rightarrow> unit result" where
  "timed_step msg t = (case t of (fired, err) \<Rightarrow>
     (case err of Some e \<Rightarrow> Inl (system_error e) | None \<Rightarrow> if fired then Inl (runtime_error msg) else Inr ()))"

record plain_net =
  p_resolve :: "string + nat" \<comment> \<open>an error, or the number of addresses\<close>
  p_connect :: timed
  p_write :: timed
  p_read :: timed
  p_response :: response

text \<open>The result and the request that was written, if it came to that.\<close>

definition send_http_request ::
  "beast \<Rightarrow> json_lib \<Rightarrow> string \<Rightarrow> plain_net \<Rightarrow> UrlParts \<Rightarrow> verb \<Rightarrow> json \<Rightarrow> response result \<times> request option" where
  "send_http_request B J agent N parts method body =
     (case p_resolve N of
        Inl e \<Rightarrow> (Inl (system_error e), None)
      | Inr n \<Rightarrow>
          if n = 0 then (Inl (runtime_error (''No DNS records found for '' @ host parts)), None)
          else case timed_step ''Connection timeout'' (p_connect N) of
            Inl e \<Rightarrow> (Inl e, None)
          | Inr _ \<Rightarrow>
              (case make_request B J agent parts method body of
                 Inl e \<Rightarrow> (Inl e, None)
               | Inr req \<Rightarrow>
                   (bind_result (timed_step ''Write timeout'' (p_write N)) (\<lambda>_.
                      bind_result (timed_step ''Read timeout'' (p_read N)) (\<lambda>_. Inr (p_response N))), Some req)))"

datatype net_error = TimedOut | ConnectionAborted | ConnectionReset | StreamTruncated | Eof | BrokenPipe | OtherError string

record tls_net =
  t_sni :: bool
  t_resolve :: "string + nat"
  t_connect :: "net_error option"
  t_handshake :: "net_error option"
  t_write :: "net_error option"
  t_read :: "net_error option"
  t_response :: response
  t_payload :: "response \<Rightarrow> nat option" \<comment> \<open>\<^verbatim>\<open>payload_size\<close> of a response\<close>
  t_text :: "net_error \<Rightarrow> string" \<comment> \<open>\<^verbatim>\<open>ec.message()\<close>\<close>

definition is_teardown_error :: "net_error \<Rightarrow> bool" where
  "is_teardown_error e \<longleftrightarrow> e \<in> {ConnectionAborted, ConnectionReset, StreamTruncated, Eof, BrokenPipe}"

definition response_valid :: "beast \<Rightarrow> tls_net \<Rightarrow> response \<Rightarrow> bool" where
  "response_valid B N res \<longleftrightarrow> status res \<ge> 100 \<and> status res < 600 \<and>
     (count_field B (res_fields res) ''Content-Length'' > 0 \<or> count_field B (res_fields res) ''Transfer-Encoding'' > 0) \<and>
     t_payload N res = Some (length (res_body res))"

definition read_result :: "beast \<Rightarrow> tls_net \<Rightarrow> response result" where
  "read_result B N =
     (case t_read N of
        None \<Rightarrow> Inr (t_response N)
      | Some TimedOut \<Rightarrow> Inl (runtime_error ''HTTPS read timeout'')
      | Some e \<Rightarrow> if \<not> is_teardown_error e \<or> \<not> response_valid B N (t_response N)
                 then Inl (system_error (t_text N e)) else Inr (t_response N))"

definition stage :: "string \<Rightarrow> (net_error \<Rightarrow> exn) \<Rightarrow> net_error option \<Rightarrow> unit result" where
  "stage timeout fail ec =
     (case ec of None \<Rightarrow> Inr () | Some TimedOut \<Rightarrow> Inl (runtime_error timeout) | Some e \<Rightarrow> Inl (fail e))"

definition send_https_request ::
  "beast \<Rightarrow> json_lib \<Rightarrow> string \<Rightarrow> tls_net \<Rightarrow> UrlParts \<Rightarrow> verb \<Rightarrow> json \<Rightarrow> response result \<times> request option" where
  "send_https_request B J agent N parts method body =
     (if \<not> t_sni N then (Inl (system_error ''ssl''), None)
      else case t_resolve N of
        Inl e \<Rightarrow> (Inl (system_error e), None)
      | Inr n \<Rightarrow>
          if n = 0 then (Inl (runtime_error (''No DNS records found for '' @ host parts)), None)
          else case bind_result (stage ''HTTPS connection timeout'' (\<lambda>e. runtime_error (''Connection failed: '' @ t_text N e)) (t_connect N))
                 (\<lambda>_. stage ''SSL handshake timeout'' (\<lambda>e. runtime_error (''SSL handshake failed: '' @ t_text N e)) (t_handshake N)) of
            Inl e \<Rightarrow> (Inl e, None)
          | Inr _ \<Rightarrow>
              (case make_request B J agent parts method body of
                 Inl e \<Rightarrow> (Inl e, None)
               | Inr req \<Rightarrow>
                   (bind_result (stage ''HTTPS write timeout'' (\<lambda>e. system_error (t_text N e)) (t_write N))
                      (\<lambda>_. read_result B N), Some req)))"

definition send_request ::
  "beast \<Rightarrow> json_lib \<Rightarrow> string \<Rightarrow> plain_net \<Rightarrow> tls_net \<Rightarrow> string \<Rightarrow> verb \<Rightarrow> json \<Rightarrow> response result \<times> request option" where
  "send_request B J agent P T url method body =
     (case parse_url url of
        Inl e \<Rightarrow> (Inl e, None)
      | Inr parts \<Rightarrow>
          if protocol parts = ''https'' then send_https_request B J agent T parts method body
          else send_http_request B J agent P parts method body)"

definition http_get where "http_get B J agent P T url body = send_request B J agent P T url GET body"
definition http_post where "http_post B J agent P T url body = send_request B J agent P T url POST body"
definition http_put where "http_put B J agent P T url body = send_request B J agent P T url PUT body"
definition http_del where "http_del B J agent P T url body = send_request B J agent P T url DELETE body"

subsection \<open>What the URL pattern accepts\<close>

definition scheme_re :: re where
  "scheme_re = Grp 1 (Cat (Chr CHR ''h'') (Cat (Chr CHR ''t'') (Cat (Chr CHR ''t'') (Cat (Chr CHR ''p'')
     (Cat (Alt (Chr CHR ''s'') Emp) Emp)))))"

definition host_class :: re where "host_class = Cls True [(CHR '':'', CHR '':''), (CHR ''/'', CHR ''/'')]"
definition digit_class :: re where "digit_class = Cls False [(CHR ''0'', CHR ''9'')]"
definition host_re :: re where "host_re = Grp 2 (Cat (Cat host_class (Star host_class)) Emp)"
definition port_re :: re where
  "port_re = Cat (Chr CHR '':'') (Cat (Grp 3 (Cat (Cat digit_class (opt_times 4 digit_class)) Emp)) Emp)"
definition path_re :: re where
  "path_re = Grp 4 (Cat (Chr CHR ''/'') (Cat (Star (Cls True [(CHR ''?'', CHR ''?''), (CHR ''#'', CHR ''#'')])) Emp))"
definition query_re :: re where
  "query_re = Cat (Chr CHR ''?'') (Cat (Grp 5 (Cat (Star (Cls True [(CHR ''#'', CHR ''#'')])) Emp)) Emp)"
definition fragment_re :: re where
  "fragment_re = Cat (Chr CHR ''#'') (Cat (Star Dot) Emp)"

lemmas url_res = scheme_re_def host_class_def digit_class_def host_re_def port_re_def path_re_def query_re_def fragment_re_def

definition url_re :: re where
  "url_re = Cat Bol (Cat scheme_re (Cat (Chr CHR '':'') (Cat (Chr CHR ''/'') (Cat (Chr CHR ''/'') (Cat host_re
     (Cat (Alt port_re Emp) (Cat (Alt path_re Emp) (Cat (Alt query_re Emp) (Cat (Alt fragment_re Emp) (Cat Eol Emp))))))))))"

lemma url_compiles: "regex_compile url_pattern = Some url_re"
  by code_simp

text \<open>An optional part of a URL with its marker.\<close>

definition part :: "char \<Rightarrow> string option \<Rightarrow> string" where
  "part c x = (case x of None \<Rightarrow> [] | Some v \<Rightarrow> c # v)"

definition digits :: "string \<Rightarrow> bool" where
  "digits v \<longleftrightarrow> (\<forall>c \<in> set v. CHR ''0'' \<le> c \<and> c \<le> CHR ''9'')"

definition host_ok :: "string \<Rightarrow> bool" where
  "host_ok h \<longleftrightarrow> h \<noteq> [] \<and> CHR '':'' \<notin> set h \<and> CHR ''/'' \<notin> set h"

definition port_ok :: "string \<Rightarrow> bool" where
  "port_ok p \<longleftrightarrow> p \<noteq> [] \<and> length p \<le> 5 \<and> digits p"

definition path_ok :: "string \<Rightarrow> bool" where
  "path_ok p \<longleftrightarrow> CHR ''?'' \<notin> set p \<and> CHR ''#'' \<notin> set p"

definition fragment_ok :: "string \<Rightarrow> bool" where
  "fragment_ok f \<longleftrightarrow> (\<forall>c \<in> set f. \<not> line_end c)"

lemma mt_scheme:
  "(s', cs') \<in> set (mt n scheme_re s cs) \<longleftrightarrow> (\<exists>v \<in> {''http'', ''https''}. s = v @ s' \<and> cs' = (1, v) # cs)"
  unfolding scheme_re_def mt_Grp mt_Cat mt_optional mt_Chr mt_Emp by auto

lemma mt_host: "(s', cs') \<in> set (mt n host_re s cs) \<longleftrightarrow> (\<exists>v. s = v @ s' \<and> host_ok v \<and> cs' = (2, v) # cs)"
  unfolding host_re_def host_class_def mt_plus_group by (auto simp: host_ok_def all_cls_def in_class_def)

lemma mt_digits:
  "(s', cs') \<in> set (mt n (opt_times k digit_class) s cs) \<longleftrightarrow> (\<exists>v. s = v @ s' \<and> length v \<le> k \<and> digits v) \<and> cs' = cs"
proof (induction k arbitrary: s cs)
  case 0
  then show ?case by (auto simp: digits_def)
next
  case (Suc k)
  have "(s', cs') \<in> set (mt n (opt_times (Suc k) digit_class) s cs) \<longleftrightarrow>
      (\<exists>c t. s = c # t \<and> CHR ''0'' \<le> c \<and> c \<le> CHR ''9'' \<and> (s', cs') \<in> set (mt n (opt_times k digit_class) t cs)) \<or>
      s' = s \<and> cs' = cs"
    unfolding opt_times.simps mt_optional mt_Cat digit_class_def mt_Cls by (auto simp: in_class_def)
  also have "\<dots> \<longleftrightarrow> (\<exists>v. s = v @ s' \<and> length v \<le> Suc k \<and> digits v) \<and> cs' = cs"
  proof -
    have "(\<exists>c t v. s = c # t \<and> CHR ''0'' \<le> c \<and> c \<le> CHR ''9'' \<and> t = v @ s' \<and> length v \<le> k \<and> digits v) \<or> s' = s \<longleftrightarrow>
        (\<exists>v. s = v @ s' \<and> length v \<le> Suc k \<and> digits v)" (is "?a \<or> ?b \<longleftrightarrow> ?r")
    proof
      assume "?a \<or> ?b"
      then show ?r
      proof
        assume ?a
        then obtain c v where "s = (c # v) @ s'" "length (c # v) \<le> Suc k" "digits (c # v)" by (auto simp: digits_def)
        then show ?r by blast
      next
        assume ?b
        then show ?r by (intro exI[of _ "[]"]) (simp add: digits_def)
      qed
    next
      assume ?r
      then obtain v where v: "s = v @ s'" "length v \<le> Suc k" "digits v" by blast
      then show "?a \<or> ?b" by (cases v) (auto simp: digits_def)
    qed
    then show ?thesis unfolding Suc.IH by blast
  qed
  finally show ?case .
qed

lemma mt_port:
  "(s', cs') \<in> set (mt n port_re s cs) \<longleftrightarrow> (\<exists>v. s = CHR '':'' # v @ s' \<and> port_ok v \<and> cs' = (3, v) # cs)"
proof -
  have "(s', cs1) \<in> set (mt n (Cat (Cat digit_class (opt_times 4 digit_class)) Emp) t cs) \<longleftrightarrow>
      (\<exists>v. t = v @ s' \<and> port_ok v) \<and> cs1 = cs" for t cs1
  proof -
    have "(s', cs1) \<in> set (mt n (Cat (Cat digit_class (opt_times 4 digit_class)) Emp) t cs) \<longleftrightarrow>
        (\<exists>c u. t = c # u @ s' \<and> digits [c] \<and> length u \<le> 4 \<and> digits u) \<and> cs1 = cs"
      unfolding mt_Cat mt_Emp mt_digits by (auto simp: digit_class_def mt_Cls in_class_def digits_def simp del: mt.simps)
    also have "\<dots> \<longleftrightarrow> (\<exists>v. t = v @ s' \<and> port_ok v) \<and> cs1 = cs"
      unfolding port_ok_def by (auto simp: digits_def neq_Nil_conv)
    finally show ?thesis .
  qed
  then show ?thesis unfolding port_re_def mt_Cat mt_Chr mt_Grp mt_Emp by auto
qed

lemma mt_path:
  "(s', cs') \<in> set (mt n path_re s cs) \<longleftrightarrow> (\<exists>v. s = CHR ''/'' # v @ s' \<and> path_ok v \<and> cs' = (4, CHR ''/'' # v) # cs)"
  unfolding path_re_def mt_Grp mt_Cat mt_Chr mt_Star_Cls mt_Emp by (auto simp: path_ok_def all_cls_def in_class_def Suc_diff_le)

lemma mt_query:
  "(s', cs') \<in> set (mt n query_re s cs) \<longleftrightarrow> (\<exists>v. s = CHR ''?'' # v @ s' \<and> CHR ''#'' \<notin> set v \<and> cs' = (5, v) # cs)"
  unfolding query_re_def mt_Grp mt_Cat mt_Chr mt_Star_Cls mt_Emp by (auto simp: all_cls_def in_class_def)

lemma mt_fragment:
  "(s', cs') \<in> set (mt n fragment_re s cs) \<longleftrightarrow> (\<exists>v. s = CHR ''#'' # v @ s' \<and> fragment_ok v) \<and> cs' = cs"
  unfolding fragment_re_def mt_Cat mt_Chr mt_Star_Dot mt_Emp by (auto simp: fragment_ok_def)

text \<open>With the parts that may be missing as options.\<close>

definition cap :: "nat \<Rightarrow> string \<Rightarrow> string option \<Rightarrow> caps" where
  "cap i pre x = (case x of None \<Rightarrow> [] | Some v \<Rightarrow> [(i, pre @ v)])"

lemma mt_url_options:
  "(s', cs') \<in> set (mt n (Alt port_re Emp) s cs) \<longleftrightarrow> (\<exists>x. s = part CHR '':'' x @ s' \<and> pred_option port_ok x \<and> cs' = cap 3 [] x @ cs)"
  "(s', cs') \<in> set (mt n (Alt path_re Emp) s cs) \<longleftrightarrow> (\<exists>x. s = part CHR ''/'' x @ s' \<and> pred_option path_ok x \<and> cs' = cap 4 ''/'' x @ cs)"
  "(s', cs') \<in> set (mt n (Alt query_re Emp) s cs) \<longleftrightarrow>
     (\<exists>x. s = part CHR ''?'' x @ s' \<and> pred_option (\<lambda>v. CHR ''#'' \<notin> set v) x \<and> cs' = cap 5 [] x @ cs)"
  "(s', cs') \<in> set (mt n (Alt fragment_re Emp) s cs) \<longleftrightarrow> (\<exists>x. s = part CHR ''#'' x @ s' \<and> pred_option fragment_ok x) \<and> cs' = cs"
  unfolding mt_optional mt_port mt_path mt_query mt_fragment by (auto simp: part_def cap_def split_option_ex)

record url_shape =
  u_scheme :: string
  u_host :: string
  u_port :: "string option"
  u_path :: "string option" \<comment> \<open>without its leading slash\<close>
  u_query :: "string option"
  u_fragment :: "string option"

definition after_host :: "url_shape \<Rightarrow> string" where
  "after_host u = part CHR '':'' (u_port u) @ part CHR ''/'' (u_path u) @ part CHR ''?'' (u_query u) @ part CHR ''#'' (u_fragment u)"

definition url_text :: "url_shape \<Rightarrow> string" where
  "url_text u = u_scheme u @ ''://'' @ u_host u @ after_host u"

definition url_ok :: "url_shape \<Rightarrow> bool" where
  "url_ok u \<longleftrightarrow> u_scheme u \<in> {''http'', ''https''} \<and> host_ok (u_host u) \<and> pred_option port_ok (u_port u) \<and>
     pred_option path_ok (u_path u) \<and> pred_option (\<lambda>v. CHR ''#'' \<notin> set v) (u_query u) \<and> pred_option fragment_ok (u_fragment u)"

definition url_caps :: "url_shape \<Rightarrow> caps" where
  "url_caps u = cap 5 [] (u_query u) @ cap 4 ''/'' (u_path u) @ cap 3 [] (u_port u) @ [(2, u_host u), (1, u_scheme u)]"

lemma url_matches:
  "([], cs) \<in> set (mt (length s) url_re s []) \<longleftrightarrow> (\<exists>u. url_ok u \<and> s = url_text u \<and> cs = url_caps u)" (is "?l \<longleftrightarrow> ?r")
proof
  assume ?l
  then obtain sch h po pa qu fr where *:
    "sch \<in> {''http'', ''https''}" "host_ok h" "pred_option port_ok po" "pred_option path_ok pa"
    "pred_option (\<lambda>v. CHR ''#'' \<notin> set v) qu" "pred_option fragment_ok fr"
    "s = sch @ ''://'' @ h @ part CHR '':'' po @ part CHR ''/'' pa @ part CHR ''?'' qu @ part CHR ''#'' fr"
    "cs = cap 5 [] qu @ cap 4 ''/'' pa @ cap 3 [] po @ [(2, h), (1, sch)]"
    unfolding url_re_def mt_Cat mt_Bol mt_scheme mt_Chr mt_host mt_url_options mt_Eol mt_Emp by force
  then show ?r
    by (intro exI[of _ "\<lparr>u_scheme = sch, u_host = h, u_port = po, u_path = pa, u_query = qu, u_fragment = fr\<rparr>"])
      (simp add: url_ok_def url_text_def after_host_def url_caps_def)
next
  assume ?r
  then obtain u where u: "url_ok u" "s = url_text u" "cs = url_caps u" by blast
  then show ?l
    unfolding url_re_def mt_Cat mt_Bol mt_scheme mt_Chr mt_host mt_url_options mt_Eol mt_Emp url_ok_def url_text_def after_host_def url_caps_def
    by (metis append.assoc append.right_neutral append_Cons append_Nil)
qed

text \<open>How a text divides at a character class is determined.\<close>

lemma span_unique:
  assumes "v @ x = w @ y" "\<forall>c \<in> set v. P c" "\<forall>c \<in> set w. P c" "x = [] \<or> \<not> P (hd x)" "y = [] \<or> \<not> P (hd y)"
  shows "v = w \<and> x = y"
proof -
  have "takeWhile P (v @ x) = v" if "\<forall>c \<in> set v. P c" "x = [] \<or> \<not> P (hd x)" for v x :: "'a list"
    using that by (cases x) (simp_all add: takeWhile_append2)
  then have "v = w" using assms by metis
  with assms(1) show ?thesis by simp
qed

lemma hd_part: "x = None \<or> hd (part c x @ s) = c" "part c x @ s = [] \<longleftrightarrow> x = None \<and> s = []"
  by (auto simp: part_def split: option.splits)

lemma part_unique:
  assumes "part c x @ s = part c y @ t"
    and "pred_option (\<lambda>v. \<forall>d \<in> set v. P d) x" "pred_option (\<lambda>v. \<forall>d \<in> set v. P d) y"
    and "s = [] \<or> \<not> P (hd s) \<and> hd s \<noteq> c" "t = [] \<or> \<not> P (hd t) \<and> hd t \<noteq> c"
  shows "x = y \<and> s = t"
proof (cases x)
  case None
  with assms(1,4) show ?thesis by (cases y) (auto simp: part_def)
next
  case (Some v)
  then obtain w where w: "y = Some w" using assms(1,5) by (cases y) (auto simp: part_def)
  with assms(1) Some have "v @ s = w @ t" by (simp add: part_def)
  then have "v = w \<and> s = t" using assms Some w by (intro span_unique[of v s w t P]) auto
  with Some w show ?thesis by simp
qed

lemma after_host_unique:
  assumes "url_ok u" "url_ok w" "after_host u = after_host w"
  shows "u_port u = u_port w \<and> u_path u = u_path w \<and> u_query u = u_query w \<and> u_fragment u = u_fragment w"
proof -
  let ?f = "\<lambda>u. part CHR ''#'' (u_fragment u)"
  let ?q = "\<lambda>u. part CHR ''?'' (u_query u) @ ?f u"
  let ?p = "\<lambda>u. part CHR ''/'' (u_path u) @ ?q u"
  have f: "?f v = [] \<or> hd (?f v) = CHR ''#''" for v by (auto simp: part_def split: option.splits)
  have q: "?q v = [] \<or> hd (?q v) \<in> {CHR ''?'', CHR ''#''}" for v using f[of v] by (auto simp: part_def split: option.splits)
  have p: "?p v = [] \<or> hd (?p v) \<in> {CHR ''/'', CHR ''?'', CHR ''#''}" for v using q[of v] by (auto simp: part_def split: option.splits)
  have ports: "pred_option (\<lambda>v. \<forall>d \<in> set v. CHR ''0'' \<le> d \<and> d \<le> CHR ''9'') (u_port v)" if "url_ok v" for v
    using that by (cases "u_port v") (simp_all add: url_ok_def port_ok_def digits_def)
  have paths: "pred_option (\<lambda>v. \<forall>d \<in> set v. d \<noteq> CHR ''?'' \<and> d \<noteq> CHR ''#'') (u_path v)" if "url_ok v" for v
    using that by (cases "u_path v") (auto simp: url_ok_def path_ok_def)
  have queries: "pred_option (\<lambda>v. \<forall>d \<in> set v. d \<noteq> CHR ''#'') (u_query v)" if "url_ok v" for v
    using that by (cases "u_query v") (auto simp: url_ok_def)
  have p': "?p v = [] \<or> \<not> (CHR ''0'' \<le> hd (?p v) \<and> hd (?p v) \<le> CHR ''9'') \<and> hd (?p v) \<noteq> CHR '':''" for v
    using p[of v] by fastforce
  have q': "?q v = [] \<or> \<not> (hd (?q v) \<noteq> CHR ''?'' \<and> hd (?q v) \<noteq> CHR ''#'') \<and> hd (?q v) \<noteq> CHR ''/''" for v
    using q[of v] by fastforce
  have f': "?f v = [] \<or> \<not> hd (?f v) \<noteq> CHR ''#'' \<and> hd (?f v) \<noteq> CHR ''?''" for v
    using f[of v] by fastforce
  from assms(3) have 1: "u_port u = u_port w \<and> ?p u = ?p w"
    unfolding after_host_def by (rule part_unique[OF _ ports[OF assms(1)] ports[OF assms(2)] p' p'])
  then have 2: "u_path u = u_path w \<and> ?q u = ?q w"
    by (intro part_unique[OF _ paths[OF assms(1)] paths[OF assms(2)] q' q']) simp
  then have 3: "u_query u = u_query w \<and> ?f u = ?f w"
    by (intro part_unique[OF _ queries[OF assms(1)] queries[OF assms(2)] f' f']) simp
  then have "u_fragment u = u_fragment w" by (auto simp: part_def split: option.splits)
  with 1 2 3 show ?thesis by simp
qed

text \<open>A shape whose host the pattern cannot extend: no question mark or hash in it, and a port or a path after
  it, unless nothing follows at all.\<close>

definition clear_host :: "url_shape \<Rightarrow> bool" where
  "clear_host u \<longleftrightarrow> CHR ''?'' \<notin> set (u_host u) \<and> CHR ''#'' \<notin> set (u_host u) \<and>
     (u_port u \<noteq> None \<or> u_path u \<noteq> None \<or> u_query u = None \<and> u_fragment u = None)"

lemma hd_after_host: "after_host u = [] \<or> hd (after_host u) \<in> set '':/?#''"
  "clear_host u \<Longrightarrow> after_host u = [] \<or> hd (after_host u) \<in> set '':/''"
  by (auto simp: after_host_def clear_host_def part_def split: option.splits)

lemma host_unique:
  assumes "u_host u @ after_host u = u_host w @ after_host w" "clear_host u" "host_ok (u_host u)" "host_ok (u_host w)"
  shows "u_host u = u_host w \<and> after_host u = after_host w"
proof -
  from assms(1) obtain us where us: "u_host u = u_host w @ us \<and> us @ after_host u = after_host w \<or>
      u_host u @ us = u_host w \<and> after_host u = us @ after_host w"
    by (auto simp: append_eq_append_conv2)
  have "us = []"
  proof (rule ccontr)
    assume "us \<noteq> []"
    then obtain c vs where c: "us = c # vs" by (cases us) auto
    from us show False
    proof
      assume *: "u_host u = u_host w @ us \<and> us @ after_host u = after_host w"
      with c have "c \<in> set (u_host u)" "after_host w \<noteq> []" "hd (after_host w) = c" by (auto dest: sym)
      with hd_after_host(1)[of w] assms(2,3) show False by (auto simp: host_ok_def clear_host_def)
    next
      assume *: "u_host u @ us = u_host w \<and> after_host u = us @ after_host w"
      with c have "c \<in> set (u_host w)" "after_host u \<noteq> []" "hd (after_host u) = c" by (auto dest: sym)
      with hd_after_host(2)[OF assms(2)] assms(4) show False by (auto simp: host_ok_def)
    qed
  qed
  with us show ?thesis by auto
qed

lemma url_unique:
  assumes "url_ok u" "url_ok w" "clear_host u" "url_text u = url_text w"
  shows "u = w"
proof -
  have sch: "u_scheme u = ''http'' \<or> u_scheme u = ''https''" "u_scheme w = ''http'' \<or> u_scheme w = ''https''"
    and h: "host_ok (u_host u)" "host_ok (u_host w)"
    using assms(1,2) unfolding url_ok_def by blast+
  have "u_scheme u = u_scheme w \<and> u_host u @ after_host u = u_host w @ after_host w"
    using assms(4) sch(1)
  proof (elim disjE)
    assume "url_text u = url_text w" "u_scheme u = ''http''"
    then show ?thesis using sch(2) unfolding url_text_def by (elim disjE) simp_all
  next
    assume "url_text u = url_text w" "u_scheme u = ''https''"
    then show ?thesis using sch(2) unfolding url_text_def by (elim disjE) simp_all
  qed
  then have s: "u_scheme u = u_scheme w" and ah: "u_host u @ after_host u = u_host w @ after_host w" by blast+
  from host_unique[OF ah assms(3) h] have hs: "u_host u = u_host w" and r: "after_host u = after_host w" by blast+
  from after_host_unique[OF assms(1,2) r] s hs show ?thesis by simp
qed

lemma sub_match_url:
  "sub_match (url_caps u) 1 = u_scheme u" "sub_match (url_caps u) 2 = u_host u"
  "sub_match (url_caps u) 3 = (case u_port u of None \<Rightarrow> [] | Some p \<Rightarrow> p)"
  "sub_match (url_caps u) 4 = part CHR ''/'' (u_path u)"
  "sub_match (url_caps u) 5 = (case u_query u of None \<Rightarrow> [] | Some q \<Rightarrow> q)"
  by (auto simp: sub_match_def url_caps_def cap_def part_def split: option.splits)

lemma parse_composed:
  assumes "url_ok u" "clear_host u"
  shows "parse_url (url_text u) =
      Inr \<lparr>protocol = u_scheme u, host = u_host u,
           port = (case u_port u of None \<Rightarrow> if u_scheme u = ''https'' then ''443'' else ''80'' | Some p \<Rightarrow> p),
           url_path = (case u_path u of None \<Rightarrow> ''/'' | Some p \<Rightarrow> CHR ''/'' # p),
           query = (case u_query u of None \<Rightarrow> [] | Some q \<Rightarrow> q)\<rparr>"
proof -
  have "regex_match url_re (url_text u) = Some (url_caps u)"
    using assms regex_match_unique[of "url_text u" url_re "\<lambda>cs. cs = url_caps u"] url_matches[of _ "url_text u"] url_unique by metis
  moreover have "(case u_port u of None \<Rightarrow> [] | Some p \<Rightarrow> p) = [] \<longleftrightarrow> u_port u = None"
    using assms(1) by (auto simp: url_ok_def port_ok_def split: option.splits)
  ultimately show ?thesis
    unfolding parse_url_def url_compiles
    by (simp add: sub_match_url sub_match_url(1)[unfolded One_nat_def] part_def Let_def split: option.splits)
qed

text \<open>C16: parse_url inverts the composition of a URL: for a scheme http or https, a host without any of
  the delimiters, an optional port of one to five digits, an optional path, query and fragment free of
  the delimiters that follow them (where a query or fragment comes after a port or a path), it returns
  exactly these parts, with the default port of the scheme and the path / where they are missing; and
  every text it accepts is such a composition, up to delimiters in the host.\<close>

theorem parse_url_roundtrip:
  "(url_ok u \<and> clear_host u \<longrightarrow> parse_url (url_text u) =
      Inr \<lparr>protocol = u_scheme u, host = u_host u,
           port = (case u_port u of None \<Rightarrow> if u_scheme u = ''https'' then ''443'' else ''80'' | Some p \<Rightarrow> p),
           url_path = (case u_path u of None \<Rightarrow> ''/'' | Some p \<Rightarrow> CHR ''/'' # p),
           query = (case u_query u of None \<Rightarrow> [] | Some q \<Rightarrow> q)\<rparr>) \<and>
   ((\<exists>parts. parse_url s = Inr parts) \<longleftrightarrow> (\<exists>w. url_ok w \<and> s = url_text w))"
proof (intro conjI impI)
  have "(\<exists>parts. parse_url s = Inr parts) \<longleftrightarrow> regex_match url_re s \<noteq> None"
    unfolding parse_url_def url_compiles by (auto simp: Let_def split: option.splits)
  also have "\<dots> \<longleftrightarrow> (\<exists>w. url_ok w \<and> s = url_text w)" unfolding regex_match_None url_matches by blast
  finally show "(\<exists>parts. parse_url s = Inr parts) \<longleftrightarrow> (\<exists>w. url_ok w \<and> s = url_text w)" .
qed (simp add: parse_composed)

definition sample_url :: url_shape where
  "sample_url = \<lparr>u_scheme = ''https'', u_host = ''api.org'', u_port = Some ''8443'', u_path = Some ''v1/x'', u_query = Some ''a=1'', u_fragment = Some ''top''\<rparr>"

lemma sample_url_ok: "url_ok sample_url" "clear_host sample_url"
  by (auto simp: sample_url_def url_ok_def clear_host_def host_ok_def port_ok_def digits_def path_ok_def fragment_ok_def line_end_def)

theorem parse_url_roundtrip_witness:
  "parse_url ''https://api.org:8443/v1/x?a=1#top'' =
     Inr \<lparr>protocol = ''https'', host = ''api.org'', port = ''8443'', url_path = ''/v1/x'', query = ''a=1''\<rparr>"
proof -
  have "url_text sample_url = ''https://api.org:8443/v1/x?a=1#top''" by (simp add: url_text_def after_host_def part_def sample_url_def)
  with parse_url_roundtrip[of sample_url] sample_url_ok show ?thesis by (simp add: sample_url_def)
qed

text \<open>Without a path, the host takes the query in.\<close>

lemma host_takes_query: "parse_url ''http://h?x=1'' = Inr \<lparr>protocol = ''http'', host = ''h?x=1'', port = ''80'', url_path = ''/'', query = []\<rparr>"
  by code_simp

subsection \<open>Query strings can be read back\<close>

definition hex_digit :: "char \<Rightarrow> nat" where
  "hex_digit c = (if c \<le> CHR ''9'' then of_char c - 48 else of_char c - 55)"

fun decode_url :: "string \<Rightarrow> string" where
  "decode_url [] = []"
| "decode_url (c # s) =
     (if c = CHR ''%'' then (case s of a # b # s' \<Rightarrow> char_of (16 * hex_digit a + hex_digit b) # decode_url s' | _ \<Rightarrow> c # s)
      else c # decode_url s)"

lemma hex_digit_upperHex: "n < 16 \<Longrightarrow> hex_digit (upperHex ! n) = n"
proof -
  have "\<forall>n \<in> set [0..<16]. hex_digit (upperHex ! n) = n" by code_simp
  then show "n < 16 \<Longrightarrow> ?thesis" by simp
qed

lemma char_nibbles: "(of_char c :: nat) div 16 < 16" "char_of (16 * (of_char c div 16) + of_char c mod 16 :: nat) = c"
proof -
  have "(of_char c :: nat) mod 256 = of_char c" by simp
  then have "(of_char c :: nat) < 256" by (metis mod_less_divisor zero_less_numeral)
  then show "(of_char c :: nat) div 16 < 16" by (simp add: less_mult_imp_div_less)
qed simp

lemma encode_Cons: "encode_url (c # s) = (if unreserved c then [c]
    else [CHR ''%'', upperHex ! (of_char c div 16), upperHex ! (of_char c mod 16)]) @ encode_url s"
  by (simp add: encode_url_def)

lemma decode_encode: "decode_url (encode_url s) = s"
proof (induction s)
  case (Cons c s)
  have "\<not> unreserved CHR ''%''" by code_simp
  with Cons show ?case by (auto simp: encode_Cons hex_digit_upperHex char_nibbles)
qed (simp add: encode_url_def)

lemma encode_set: "c \<in> set (encode_url s) \<Longrightarrow> unreserved c \<or> c = CHR ''%''"
proof -
  have up: "n < 16 \<Longrightarrow> unreserved (upperHex ! n)" for n
  proof -
    have "\<forall>n \<in> set [0..<16]. unreserved (upperHex ! n)" by code_simp
    then show "n < 16 \<Longrightarrow> unreserved (upperHex ! n)" by simp
  qed
  show "c \<in> set (encode_url s) \<Longrightarrow> ?thesis"
    by (induction s) (auto simp: encode_Cons encode_url_def[of "[]"] up char_nibbles split: if_splits)
qed

lemma encode_no_delim: "CHR ''&'' \<notin> set (encode_url s)" "CHR ''='' \<notin> set (encode_url s)"
proof -
  have "\<not> unreserved CHR ''&''" "\<not> unreserved CHR ''=''" by code_simp+
  with encode_set show "CHR ''&'' \<notin> set (encode_url s)" "CHR ''='' \<notin> set (encode_url s)" by blast+
qed

definition pair_text :: "json_lib \<Rightarrow> string \<times> json \<Rightarrow> string" where
  "pair_text J m = encode_url (fst m) @ ''='' @ encode_url (param_text J (snd m))"

lemma add_pairs_join: "add_pairs J ms r = (if r = [] then join ''&'' (map (pair_text J) ms) else join ''&'' (r # map (pair_text J) ms))"
proof (induction ms arbitrary: r)
  case (Cons m ms)
  let ?r = "(if r \<noteq> [] then r @ ''&'' else r) @ pair_text J m"
  have "add_pairs J (m # ms) r = add_pairs J ms ?r" by (cases m) (simp add: pair_text_def)
  also have "\<dots> = join ''&'' (?r # map (pair_text J) ms)" unfolding Cons.IH by (simp add: pair_text_def)
  also have "\<dots> = (if r \<noteq> [] then r @ ''&'' else r) @ join ''&'' (map (pair_text J) (m # ms))" by (simp add: join_prefix)
  finally show ?case by (auto simp: join_Cons)
qed simp

text \<open>How a server reads a query string.\<close>

definition read_pair :: "string \<Rightarrow> string \<times> string" where
  "read_pair t = (case find_char CHR ''='' t of None \<Rightarrow> (decode_url t, []) | Some i \<Rightarrow> (decode_url (take i t), decode_url (drop (Suc i) t)))"

definition read_query :: "string \<Rightarrow> (string \<times> string) list" where
  "read_query s = map read_pair (getline_split CHR ''&'' s)"

lemma read_pair_text: "read_pair (pair_text J m) = (fst m, param_text J (snd m))"
  by (simp add: read_pair_def pair_text_def str_simps encode_no_delim decode_encode)

lemma read_add_pairs: "read_query (add_pairs J ms []) = map (\<lambda>(k, v). (k, param_text J v)) ms"
proof (cases "ms = []")
  case False
  have no: "\<forall>t \<in> set (map (pair_text J) ms). CHR ''&'' \<notin> set t" by (auto simp: pair_text_def encode_no_delim)
  have "last (map (pair_text J) ms) \<noteq> []" using False by (simp add: last_map pair_text_def)
  then have "getline_split CHR ''&'' (join ''&'' (map (pair_text J) ms)) = map (pair_text J) ms"
    using join_split[OF no] False by simp
  then show ?thesis by (simp add: read_query_def add_pairs_join read_pair_text comp_def split_beta)
qed (simp add: read_query_def)


subsection \<open>What is sent and what is returned\<close>

lemma make_request_query: "make_request B J agent (parts\<lparr>query := q\<rparr>) method body = make_request B J agent parts method body"
  by (simp add: make_request_def Let_def cong: if_cong)

lemma send_query:
  "send_http_request B J agent P (parts\<lparr>query := q\<rparr>) method body = send_http_request B J agent P parts method body"
  "send_https_request B J agent T (parts\<lparr>query := q\<rparr>) method body = send_https_request B J agent T parts method body"
  by (simp_all add: send_http_request_def send_https_request_def make_request_query cong: if_cong sum.case_cong)

text \<open>The query of the URL is never sent: two URLs that differ only in their query (or in having one) make
  the client write the same request and return the same result, for every method, body and network.\<close>

theorem url_query_dropped:
  assumes "url_ok u" "clear_host u" "url_ok (u\<lparr>u_query := q\<rparr>)" "clear_host (u\<lparr>u_query := q\<rparr>)"
  shows "send_request B J agent P T (url_text (u\<lparr>u_query := q\<rparr>)) method body = send_request B J agent P T (url_text u) method body"
proof -
  obtain parts where p: "parse_url (url_text u) = Inr parts" using parse_composed assms(1,2) by blast
  have "parse_url (url_text (u\<lparr>u_query := q\<rparr>)) = Inr (parts\<lparr>query := (case q of None \<Rightarrow> [] | Some v \<Rightarrow> v)\<rparr>)"
    using parse_composed[OF assms(3,4)] parse_composed[OF assms(1,2)] p by simp
  with p show ?thesis by (simp add: send_request_def send_query)
qed

theorem url_query_dropped_witness:
  "\<forall>J agent P T. send_request sample_beast J agent P T (url_text sample_url) GET JNull =
   send_request sample_beast J agent P T (url_text (sample_url\<lparr>u_query := Some ''a=2''\<rparr>)) GET JNull"
proof -
  have "url_ok (sample_url\<lparr>u_query := Some ''a=2''\<rparr>)" "clear_host (sample_url\<lparr>u_query := Some ''a=2''\<rparr>)"
    using sample_url_ok by (simp_all add: url_ok_def clear_host_def sample_url_def)
  with sample_url_ok url_query_dropped show ?thesis by metis
qed

lemma stage_ok: "stage t f ec = Inr () \<longleftrightarrow> ec = None"
  by (auto simp: stage_def split: option.splits net_error.splits)

text \<open>When a response is returned: reading succeeded or ended in one of the five tear-down errors with a response that
  passes the check.\<close>

lemma https_response_iff:
  "fst (send_https_request B J agent N parts method body) = Inr res \<longleftrightarrow>
     t_sni N \<and> (\<exists>n > 0. t_resolve N = Inr n) \<and> t_connect N = None \<and> t_handshake N = None \<and> t_write N = None \<and>
     (\<exists>req. make_request B J agent parts method body = Inr req \<and> snd (send_https_request B J agent N parts method body) = Some req) \<and>
     res = t_response N \<and>
     (t_read N = None \<or> (\<exists>e. t_read N = Some e \<and> is_teardown_error e \<and> response_valid B N res))"
proof -
  have r: "read_result B N = Inr res \<longleftrightarrow> res = t_response N \<and>
     (t_read N = None \<or> (\<exists>e. t_read N = Some e \<and> is_teardown_error e \<and> response_valid B N res))" for res
    by (auto simp: read_result_def is_teardown_error_def split: option.splits net_error.splits if_splits)
  show ?thesis
  proof (cases "t_sni N \<and> (\<exists>n > 0. t_resolve N = Inr n) \<and> t_connect N = None \<and> t_handshake N = None")
    case True
    then show ?thesis by (cases "make_request B J agent parts method body") (auto simp: send_https_request_def stage_ok stage_def[of _ _ None] r)
  next
    case False
    then show ?thesis by (auto simp: send_https_request_def stage_ok r split: sum.splits if_splits)
  qed
qed

text \<open>What Beast documents of a message with a \<^verbatim>\<open>string_body\<close>: the size of the payload is the size of the string the body holds.\<close>

definition string_body :: "tls_net \<Rightarrow> bool" where
  "string_body N \<longleftrightarrow> (\<forall>res. t_payload N res = Some (length (res_body res)))"


definition cut_net :: tls_net where
  "cut_net = \<lparr>t_sni = True, t_resolve = Inr 1, t_connect = None, t_handshake = None, t_write = None, t_read = Some StreamTruncated,
     t_response = \<lparr>status = 200, res_version = 11, res_keep_alive = True, res_fields = [(''Content-Length'', ''5'')], res_body = ''hello''\<rparr>,
     t_payload = (\<lambda>res. Some (length (res_body res))), t_text = (\<lambda>e. ''cut'')\<rparr>"

definition sample_parts :: UrlParts where
  "sample_parts = \<lparr>protocol = ''https'', host = ''api.org'', port = ''443'', url_path = ''/'', query = []\<rparr>"


end
