(* ===== verification/Logger.thy ===== *)
theory Logger
  imports Prelude
begin

text \<open>
  \<^verbatim>\<open>src/Logger.cpp\<close>: the log file with its rotation, the time stamp cache and the console line. The file system
  is a map from paths to contents; what it does to a call (how much of the line reaches the file, whether
  removing, renaming and opening succeed) is a parameter of the call.
\<close>

definition maxLines :: nat where "maxLines = 10000"

record logger =
  logFilePath :: string
  logFile :: bool \<comment> \<open>open\<close>
  currentLineCount :: nat
  files :: "string \<Rightarrow> string option"

subsection \<open>Rotation\<close>

definition rfind_char :: "char \<Rightarrow> string \<Rightarrow> nat option" where
  "rfind_char c s = map_option (\<lambda>i. length s - 1 - i) (find_char c (rev s))"

text \<open>\<^verbatim>\<open>path::extension\<close> of a file name: from the last dot, none for a name whose only dot is its first
  character and for the names dot and dot-dot.\<close>

definition extension :: "string \<Rightarrow> string" where
  "extension f = (if f = ''..'' then [] else case rfind_char CHR ''.'' f of None \<Rightarrow> [] | Some 0 \<Rightarrow> [] | Some i \<Rightarrow> drop i f)"

text \<open>\<^verbatim>\<open>path::filename\<close> is what follows the last slash; the new name takes its place.\<close>

definition dir_part :: "string \<Rightarrow> string" where
  "dir_part f = rev (dropWhile (\<lambda>c. c \<noteq> CHR ''/'') (rev f))"

definition path_filename :: "string \<Rightarrow> string" where
  "path_filename f = rev (takeWhile (\<lambda>c. c \<noteq> CHR ''/'') (rev f))"

definition old_filename :: "string \<Rightarrow> string" where
  "old_filename b = (case rfind_char CHR ''.'' b of Some i \<Rightarrow> take i b @ ''_old'' @ extension b | None \<Rightarrow> b @ ''_old'')"

definition old_name :: "string \<Rightarrow> string" where
  "old_name f = dir_part f @ old_filename (path_filename f)"

text \<open>What the system does during a call of \<^verbatim>\<open>log\<close>.\<close>

record log_os =
  reaches :: nat \<comment> \<open>how many bytes of the line reach the file\<close>
  can_remove :: bool
  can_rename :: bool
  can_open :: bool

definition rotateLogs :: "log_os \<Rightarrow> logger \<Rightarrow> logger \<times> exn option" where
  "rotateLogs os L =
     (let L = L\<lparr>logFile := False\<rparr>;
          old = old_name (logFilePath L)
      in if files L old \<noteq> None \<and> \<not> can_remove os then (L, Some (system_error ''cannot remove''))
         else let L = (if files L old \<noteq> None then L\<lparr>files := (files L)(old := None)\<rparr> else L)
           in case files L (logFilePath L) of
                None \<Rightarrow> (L, Some (system_error ''cannot rename''))
              | Some content \<Rightarrow>
                  if \<not> can_rename os then (L, Some (system_error ''cannot rename''))
                  else let L = L\<lparr>files := (files L)(logFilePath L := None, old := Some content)\<rparr>;
                           L = L\<lparr>files := (if can_open os \<and> files L (logFilePath L) = None then (files L)(logFilePath L := Some []) else files L),
                                 logFile := can_open os\<rparr>
                       in (L\<lparr>currentLineCount := 0\<rparr>, None))"

subsection \<open>Time stamps and colours\<close>

text \<open>The cache of a thread: when it was filled, in nanoseconds, and with what.\<close>

definition getCurrentTimeFast :: "(int \<Rightarrow> string) \<Rightarrow> int \<Rightarrow> int \<times> string \<Rightarrow> string \<times> int \<times> string" where
  "getCurrentTimeFast strftime now c =
     (case c of (lastTimeUpdate, timeCache) \<Rightarrow>
        if now - lastTimeUpdate < 1000000000 then (timeCache, lastTimeUpdate, timeCache)
        else (strftime now, now, strftime now))"

definition esc :: "string \<Rightarrow> string" where "esc s = CHR 0x1B # s"

definition getColorCodeFast :: "bool \<Rightarrow> string \<Rightarrow> string" where
  "getColorCodeFast colorsEnabled level =
     (if \<not> colorsEnabled then []
      else case level of
             [] \<Rightarrow> esc ''[0m''
           | c # _ \<Rightarrow>
               if c = CHR ''E'' then esc ''[1;31m'' else if c = CHR ''W'' then esc ''[1;33m''
               else if c = CHR ''I'' then esc ''[1;36m'' else if c = CHR ''S'' then esc ''[1;32m''
               else if c = CHR ''H'' then esc ''[1;34m'' else if c = CHR ''C'' then esc ''[1;35m''
               else esc ''[0m'')"

definition resetColorFast :: "bool \<Rightarrow> string" where
  "resetColorFast colorsEnabled = (if colorsEnabled then esc ''[0m'' else [])"

subsection \<open>Logging\<close>

text \<open>\<^verbatim>\<open>logDir / filename\<close>: an absolute name replaces the directory.\<close>

definition join_path :: "string \<Rightarrow> string \<Rightarrow> string" where
  "join_path dir f = (if f \<noteq> [] \<and> hd f = CHR ''/'' then f else dir @ ''/'' @ f)"

text \<open>The parameters are the log directory, the exception of creating it, and whether the file can be opened.\<close>

definition logger_init :: "string \<Rightarrow> exn option \<Rightarrow> bool \<Rightarrow> string \<Rightarrow> logger \<Rightarrow> logger result" where
  "logger_init logDir mkdir_error opens filename L =
     (case mkdir_error of
        Some e \<Rightarrow> Inl e
      | None \<Rightarrow>
          let path = join_path logDir filename;
              L = L\<lparr>logFilePath := path, logFile := opens,
                    files := (if opens \<and> files L path = None then (files L)(path := Some []) else files L)\<rparr>
          in if \<not> logFile L then Inl (runtime_error (''Failed to open log file: '' @ path))
             else Inr (L\<lparr>currentLineCount :=
                    (case files L path of None \<Rightarrow> 0 | Some s \<Rightarrow> length (filter (\<lambda>c. c = CHR 0x0A) s))\<rparr>))"

definition log_line :: "string \<Rightarrow> string \<Rightarrow> string \<Rightarrow> string" where
  "log_line timestamp level message = timestamp @ '' ['' @ level @ ''] '' @ c_str message @ [CHR 0x0A]"

definition console_line :: "bool \<Rightarrow> string \<Rightarrow> string \<Rightarrow> string \<Rightarrow> string" where
  "console_line colorsEnabled timestamp level message =
     timestamp @ getColorCodeFast colorsEnabled level @ '' ['' @ level @ ''] '' @ resetColorFast colorsEnabled @ c_str message @ [CHR 0x0A]"

text \<open>\<^verbatim>\<open>fprintf\<close> and \<^verbatim>\<open>fflush\<close>, whose results are not looked at: \<open>n\<close> bytes reach the file.\<close>

definition append_log :: "nat \<Rightarrow> string \<Rightarrow> logger \<Rightarrow> logger" where
  "append_log n s L =
     L\<lparr>files := (files L)(logFilePath L := Some ((case files L (logFilePath L) of None \<Rightarrow> [] | Some t \<Rightarrow> t) @ take n s))\<rparr>"

text \<open>The log file, the console output and the exception of the rotation, which skips the console.\<close>

definition logger_log :: "log_os \<Rightarrow> bool \<Rightarrow> string \<Rightarrow> string \<Rightarrow> string \<Rightarrow> logger \<Rightarrow> logger \<times> string \<times> exn option" where
  "logger_log os colorsEnabled timestamp message level L =
     (let (L, e) =
        (if logFile L then
           let L = append_log (reaches os) (log_line timestamp level message) L;
               L = L\<lparr>currentLineCount := currentLineCount L + 1\<rparr>
           in if currentLineCount L \<ge> maxLines then rotateLogs os L else (L, None)
         else (L, None))
      in case e of
           Some x \<Rightarrow> (L, [], Some x)
         | None \<Rightarrow> (L, console_line colorsEnabled timestamp level message, None))"

text \<open>The overload for a literal prints the characters up to the terminating zero.\<close>

definition logger_log_literal :: "log_os \<Rightarrow> bool \<Rightarrow> string \<Rightarrow> string \<Rightarrow> string \<Rightarrow> logger \<Rightarrow> logger \<times> string \<times> exn option" where
  "logger_log_literal os colorsEnabled timestamp message level L =
     logger_log os colorsEnabled timestamp (takeWhile (\<lambda>c. c \<noteq> CHR 0x00) message) level L"

definition logger_shutdown :: "logger \<Rightarrow> logger" where
  "logger_shutdown L = L\<lparr>logFile := False\<rparr>"

text \<open>Signals: what is printed and the exit code; the handlers that are registered, and \<^verbatim>\<open>shutdown\<close> at exit.\<close>

definition signalHandler :: "nat \<Rightarrow> string \<times> nat" where
  "signalHandler sig =
     (esc ''[1;31m [ERROR] Program terminated with signal: '' @ show_nat sig @ esc ''[0m'' @ [CHR 0x0A], sig)"

definition registerSignalHandlers :: "nat \<Rightarrow> nat \<Rightarrow> (nat \<rightharpoonup> (nat \<Rightarrow> string \<times> nat)) \<Rightarrow> (nat \<rightharpoonup> (nat \<Rightarrow> string \<times> nat))" where
  "registerSignalHandlers sigint sigterm handlers = handlers(sigint \<mapsto> signalHandler, sigterm \<mapsto> signalHandler)"

subsection \<open>The name of the old file\<close>

lemma rfind_char_Some:
  assumes "rfind_char c s = Some i"
  shows "i < length s \<and> s ! i = c"
proof -
  from assms obtain j where j: "find_char c (rev s) = Some j" "i = length s - 1 - j" by (auto simp: rfind_char_def)
  with find_char_Some[OF j(1)] show ?thesis by (auto simp: rev_nth)
qed

lemma old_filename_differs: "old_filename f \<noteq> f"
proof (cases "rfind_char CHR ''.'' f")
  case None
  then show ?thesis by (simp add: old_filename_def)
next
  case (Some i)
  then have i: "i < length f" "f ! i = CHR ''.''" using rfind_char_Some by blast+
  have e: "extension f = (if f = ''..'' \<or> i = 0 then [] else drop i f)"
    using Some by (cases i) (simp_all add: extension_def)
  have o: "old_filename f = take i f @ ''_old'' @ extension f" using Some by (simp add: old_filename_def)
  show ?thesis
  proof (cases "f = ''..'' \<or> i = 0")
    case False
    then have "length (old_filename f) = length f + 4" using o e i by simp
    then show ?thesis by auto
  next
    case True
    then show ?thesis
    proof
      assume f: "f = ''..''"
      then have "length (old_filename f) \<ge> 4" using o by simp
      then show ?thesis using f by auto
    next
      assume "i = 0"
      then have "old_filename f = ''_old''" using o e by simp
      moreover have "f ! 0 = CHR ''.''" using i \<open>i = 0\<close> by simp
      ultimately show ?thesis by auto
    qed
  qed
qed

lemma split_path: "dir_part f @ path_filename f = f"
  unfolding dir_part_def path_filename_def by (metis rev_append rev_rev_ident takeWhile_dropWhile_id)

lemma old_name_differs: "old_name f \<noteq> f"
  using old_filename_differs [of "path_filename f"] split_path [of f] unfolding old_name_def by (metis same_append_eq)

text \<open>A dot in the name of a directory is not taken for the extension.\<close>

lemma old_name_directory: "old_name ''v1.0/log'' = ''v1.0/log_old''" "old_name ''v1.0/app.log'' = ''v1.0/app_old.log''"
  by code_simp+

subsection \<open>What the files hold\<close>

text \<open>A call: what the system does, the time stamp, the level and the message. What it leaves in the file is the
  beginning of its line.\<close>

type_synonym log_call = "log_os \<times> string \<times> string \<times> string"

definition line_of :: "log_call \<Rightarrow> string" where
  "line_of c = (case c of (os, ts, level, message) \<Rightarrow> take (reaches os) (log_line ts level message))"

definition log_call :: "bool \<Rightarrow> log_call \<Rightarrow> logger \<Rightarrow> logger" where
  "log_call colors c L = (case c of (os, ts, level, message) \<Rightarrow> fst (logger_log os colors ts message level L))"

definition rotates :: "log_call \<Rightarrow> bool" where
  "rotates c \<longleftrightarrow> can_remove (fst c) \<and> can_rename (fst c) \<and> can_open (fst c)"

text \<open>The state after a number of calls: the current file holds what the calls since the last multiple of the limit left,
  the old file what the block before them left.\<close>

definition holds :: "string \<Rightarrow> string list \<Rightarrow> logger \<Rightarrow> bool" where
  "holds name ls L \<longleftrightarrow> logFilePath L = name \<and> logFile L \<and> currentLineCount L = length ls mod maxLines \<and>
     files L name = Some (concat (drop (maxLines * (length ls div maxLines)) ls)) \<and>
     (maxLines \<le> length ls \<longrightarrow>
        files L (old_name name) = Some (concat (take maxLines (drop (maxLines * (length ls div maxLines - 1)) ls))))"

lemma maxLines_pos: "0 < maxLines"
  by (simp add: maxLines_def)

lemma mod_div_Suc:
  assumes "0 < m"
  shows "Suc (n mod m) = m \<Longrightarrow> Suc n mod m = 0 \<and> Suc n div m = Suc (n div m)"
    "Suc (n mod m) \<noteq> m \<Longrightarrow> Suc n mod m = Suc (n mod m) \<and> Suc n div m = n div m"
  using assms by (simp_all add: mod_Suc div_Suc)

lemma rotateLogs_ok:
  assumes "files L (logFilePath L) = Some content" "can_remove os" "can_rename os" "can_open os"
  shows "\<exists>L'. rotateLogs os L = (L', None) \<and> logFilePath L' = logFilePath L \<and> logFile L' \<and> currentLineCount L' = 0 \<and>
    files L' (logFilePath L) = Some [] \<and> files L' (old_name (logFilePath L)) = Some content"
  using assms old_name_differs[of "logFilePath L"] by (simp add: rotateLogs_def Let_def)

lemma log_call_holds:
  assumes "holds name ls L" "rotates c"
  shows "holds name (ls @ [line_of c]) (log_call colors c L)"
proof -
  obtain os ts level message where c: "c = (os, ts, level, message)" by (metis prod_cases4)
  let ?n = "length ls" and ?m = maxLines and ?l = "line_of c"
  let ?A = "append_log (reaches os) (log_line ts level message) L"
  have l: "?l = take (reaches os) (log_line ts level message)" by (simp add: line_of_def c)
  have os: "can_remove os" "can_rename os" "can_open os" using assms(2) by (simp_all add: rotates_def c)
  have n: "maxLines * (?n div ?m) \<le> ?n" by simp
  have A: "files ?A name = Some (concat (drop (?m * (?n div ?m)) (ls @ [?l])))" "logFilePath ?A = name" "logFile ?A"
    "files ?A (old_name name) = files L (old_name name)" "currentLineCount ?A = ?n mod ?m"
    using assms(1) n old_name_differs[of name] by (auto simp: append_log_def holds_def l)
  have lt: "?n mod ?m < ?m" by (simp add: maxLines_pos)
  show ?thesis
  proof (cases "Suc (?n mod ?m) = ?m")
    case True
    from mod_div_Suc(1)[OF maxLines_pos True] have s: "Suc ?n mod ?m = 0" "Suc ?n div ?m = Suc (?n div ?m)" by auto
    have full: "Suc ?n = ?m * Suc (?n div ?m)" using s by (metis add.right_neutral mult_div_mod_eq)
    have len: "length (drop (?m * (?n div ?m)) (ls @ [?l])) = ?m"
    proof -
      have "length (drop (?m * (?n div ?m)) (ls @ [?l])) = Suc ?n - ?m * (?n div ?m)" by (simp add: Suc_diff_le n)
      with full show ?thesis by simp
    qed
    let ?B = "?A\<lparr>currentLineCount := Suc (?n mod ?m)\<rparr>"
    obtain L' where L': "rotateLogs os ?B = (L', None)" "logFilePath L' = name" "logFile L'" "currentLineCount L' = 0"
        "files L' name = Some []" "files L' (old_name name) = files ?A name"
      using rotateLogs_ok[of ?B _ os] A os by auto
    have "log_call colors c L = L'"
      using A True assms(1) L'(1) by (simp add: log_call_def logger_log_def c holds_def Let_def)
    with L' have "logFilePath (log_call colors c L) = name" "logFile (log_call colors c L)" "currentLineCount (log_call colors c L) = 0"
      "files (log_call colors c L) name = Some []" "files (log_call colors c L) (old_name name) = files ?A name" by simp_all
    then show ?thesis using s full len A(1) by (simp add: holds_def)
  next
    case False
    from mod_div_Suc(2)[OF maxLines_pos False] have s: "Suc ?n mod ?m = Suc (?n mod ?m)" "Suc ?n div ?m = ?n div ?m" by auto
    have e: "log_call colors c L = ?A\<lparr>currentLineCount := Suc (?n mod ?m)\<rparr>"
      using A False lt assms(1) by (simp add: log_call_def logger_log_def c holds_def Let_def)
    have "take ?m (drop (?m * (?n div ?m - 1)) (ls @ [?l])) = take ?m (drop (?m * (?n div ?m - 1)) ls)" if "?m \<le> ?n"
    proof -
      have "?m * (?n div ?m - 1) + ?m = ?m * (?n div ?m)"
        using that maxLines_pos by (metis add.commute div_greater_zero_iff mult_Suc_right Suc_pred' plus_1_eq_Suc)
      then have "?m * (?n div ?m - 1) + ?m \<le> ?n" using n by simp
      then show ?thesis by simp
    qed
    moreover have "?m \<le> Suc ?n \<longleftrightarrow> ?m \<le> ?n"
      using s maxLines_pos by (metis Suc_leD div_greater_zero_iff le_SucE order_refl)
    ultimately show ?thesis using A s assms(1) by (simp add: e holds_def del: take_append drop_append)
  qed
qed

lemma log_calls_hold: "holds name [] L \<Longrightarrow> list_all rotates cs \<Longrightarrow> holds name (map line_of cs) (fold (log_call colors) cs L)"
  by (induction cs rule: rev_induct) (simp_all add: log_call_holds)

text \<open>C22: Starting with a log file that does not exist, and as long as every rotation can remove, rename and open its files, after any
  number of calls the current file holds exactly what the calls since the last rotation left, in order; the old
  file holds what the 10000 calls before them left, once there were that many; and the counter is the
  number of calls since the last rotation, always below 10000. What a call leaves is its whole line if that could
  be written and otherwise the beginning that could. So the output of the last 10000 calls is always on disk, and
  of at most 19999. (The counter counts calls: messages with line breaks make the file longer, and the next
  start counts its line breaks instead.)\<close>

theorem log_rotation_keeps_lines:
  assumes "logger_init dir None True filename L0 = Inr L" "files L0 (join_path dir filename) = None" "list_all rotates cs"
  shows "holds (join_path dir filename) (map line_of cs) (fold (log_call colors) cs L)"
proof -
  have "holds (join_path dir filename) [] L" using assms(1,2) maxLines_pos by (auto simp: logger_init_def holds_def Let_def)
  then show ?thesis using assms(3) by (rule log_calls_hold)
qed

definition good_os :: log_os where
  "good_os = \<lparr>reaches = 100, can_remove = True, can_rename = True, can_open = True\<rparr>"

theorem log_rotation_keeps_lines_witness:
  "\<exists>L. logger_init ''Logs'' None True ''app.log'' \<lparr>logFilePath = [], logFile = False, currentLineCount = 0, files = (\<lambda>_. None)\<rparr> = Inr L \<and>
     files (fold (log_call True) [(good_os, ''12:00'', ''INFO'', ''up''), (good_os\<lparr>reaches := 3\<rparr>, ''12:01'', ''ERROR'', ''no'')] L) ''Logs/app.log'' =
       Some (log_line ''12:00'' ''INFO'' ''up'' @ ''12:'')"
proof -
  let ?L0 = "\<lparr>logFilePath = [], logFile = False, currentLineCount = 0, files = (\<lambda>_. None)\<rparr> :: logger"
  let ?cs = "[(good_os, ''12:00'', ''INFO'', ''up''), (good_os\<lparr>reaches := 3\<rparr>, ''12:01'', ''ERROR'', ''no'')]"
  have j: "join_path ''Logs'' ''app.log'' = ''Logs/app.log''" by code_simp
  obtain L where L: "logger_init ''Logs'' None True ''app.log'' ?L0 = Inr L" by (simp add: logger_init_def Let_def)
  have f: "files ?L0 (join_path ''Logs'' ''app.log'') = None" and r: "list_all rotates ?cs" by (simp_all add: rotates_def good_os_def)
  have "map line_of ?cs = [log_line ''12:00'' ''INFO'' ''up'', ''12:'']" by code_simp
  with log_rotation_keeps_lines [OF L f r, of True] L j show ?thesis by (simp add: holds_def maxLines_def)
qed

text \<open>A rotation that cannot open the new file returns normally, and from then on nothing is written to a file.\<close>

lemma closed_log_stays: "\<not> logFile L \<Longrightarrow> fold (log_call colors) cs L = L"
  by (induction cs) (simp_all add: log_call_def logger_log_def split: prod.splits)

lemma rotation_closes:
  "\<not> can_open os \<Longrightarrow> \<not> logFile (fst (rotateLogs os L))"
  by (auto simp: rotateLogs_def Let_def split: option.splits)

text \<open>A log file that someone else removed makes the next rotation throw, and leaves the logger without a
  file.\<close>

lemma rotation_throws_when_removed:
  "files L (logFilePath L) = None \<Longrightarrow>
   \<exists>L' e. rotateLogs os L = (L', Some e) \<and> \<not> logFile L'"
  by (auto simp: rotateLogs_def Let_def)

end
