(* ===== verification/Smtp.thy ===== *)
theory Smtp
  imports Helpers
begin

text \<open>
  \<^verbatim>\<open>src/SmtpClient.cpp\<close>: the SMTP dialogue over a scripted connection, the reader of multi-line replies and
  the masking of credentials in error messages. Base64 is a parameter, as are the results of resolving,
  connecting, the handshake and of each write, and how many bytes beyond a line a read transfers.
\<close>

record smtp =
  smtp_name :: string \<comment> \<open>\<^verbatim>\<open>host\<close>\<close>
  smtp_host :: string
  smtp_port :: string
  smtp_username :: string
  smtp_password :: string

definition SmtpClient :: "string option \<Rightarrow> env \<Rightarrow> (smtp \<times> env) result" where
  "SmtpClient text e =
     bind_result (env_get text ''S_HOST'' e) (\<lambda>(h, e).
     bind_result (env_get text ''SMTP_HOST'' e) (\<lambda>(sh, e).
     bind_result (env_get text ''SMTP_PORT'' e) (\<lambda>(p, e).
     bind_result (env_get text ''SMTP_USERNAME'' e) (\<lambda>(u, e).
     bind_result (env_get text ''SMTP_PASSWORD'' e) (\<lambda>(pw, e).
       Inr (\<lparr>smtp_name = h, smtp_host = sh, smtp_port = p, smtp_username = u, smtp_password = pw\<rparr>, e))))))"

definition crlf :: string where "crlf = [CHR 0x0D, CHR 0x0A]"

subsection \<open>Reading replies\<close>

fun has_crlf :: "string \<Rightarrow> bool" where
  "has_crlf (a # b # s) = (a = CHR 0x0D \<and> b = CHR 0x0A \<or> has_crlf (b # s))"
| "has_crlf _ = False"

text \<open>\<^verbatim>\<open>async_read_until(socket, buf, "\r\n")\<close>: nothing is read when the buffer has a line end; otherwise bytes
  come until it has one, and \<open>grab\<close> more of what is there; \<open>None\<close> when the input ends before.\<close>

fun read_more :: "string \<Rightarrow> string \<Rightarrow> (string \<times> string) option" where
  "read_more buf [] = (if has_crlf buf then Some (buf, []) else None)"
| "read_more buf (c # inp) = (if has_crlf buf then Some (buf, c # inp) else read_more (buf @ [c]) inp)"

definition read_until :: "(string \<Rightarrow> nat) \<Rightarrow> string \<Rightarrow> string \<Rightarrow> (string \<times> string) option" where
  "read_until grab buf inp =
     (if has_crlf buf then Some (buf, inp)
      else case read_more buf inp of
             None \<Rightarrow> None
           | Some (b, r) \<Rightarrow> Some (b @ take (grab r) r, drop (grab r) r))"

definition chop_cr :: "string \<Rightarrow> string" where
  "chop_cr line = (if line \<noteq> [] \<and> last line = CHR 0x0D then butlast line else line)"

fun stoi_digits :: "int \<Rightarrow> string \<Rightarrow> int" where
  "stoi_digits acc [] = acc"
| "stoi_digits acc (c # s) = (if is_digit c then stoi_digits (10 * acc + (int (of_char c) - 48)) s else acc)"

definition space_char :: "char \<Rightarrow> bool" where
  "space_char c \<longleftrightarrow> c = CHR '' '' \<or> (9 \<le> (of_char c :: nat) \<and> (of_char c :: nat) \<le> 13)"

definition stoi :: "string \<Rightarrow> int option" where
  "stoi s =
     (let t = dropWhile space_char s;
          neg = (t \<noteq> [] \<and> hd t = CHR ''-'');
          u = (if t \<noteq> [] \<and> (hd t = CHR ''-'' \<or> hd t = CHR ''+'') then tl t else t)
      in if u = [] \<or> \<not> is_digit (hd u) then None else Some (if neg then - stoi_digits 0 u else stoi_digits 0 u))"

lemma read_more_length: "read_more buf inp = Some (b, r) \<Longrightarrow> b @ r = buf @ inp \<and> has_crlf b"
  by (induction buf inp rule: read_more.induct) (auto split: if_splits)

lemma read_until_split:
  "read_until grab buf inp = Some (b, r) \<Longrightarrow> b @ r = buf @ inp"
  by (auto simp: read_until_def split: if_splits option.splits prod.splits dest!: read_more_length)

lemma has_crlf_append: "has_crlf a \<Longrightarrow> has_crlf (a @ b)"
  by (induction a rule: has_crlf.induct) auto

lemma read_until_crlf: "read_until grab buf inp = Some (b, r) \<Longrightarrow> has_crlf b"
  by (auto simp: read_until_def split: if_splits option.splits prod.splits dest: read_more_length intro: has_crlf_append)

lemma has_crlf_newline: "has_crlf s \<Longrightarrow> CHR 0x0A \<in> set s"
  by (induction s rule: has_crlf.induct) auto

lemma read_until_shrinks:
  assumes "read_until grab buf inp = Some (b, r)"
  shows "length (tl (dropWhile (\<lambda>c. c \<noteq> CHR 0x0A) b)) + length r < length buf + length inp"
proof -
  have "dropWhile (\<lambda>c. c \<noteq> CHR 0x0A) b \<noteq> []"
    using has_crlf_newline[OF read_until_crlf[OF assms]] by (auto simp: dropWhile_eq_Nil_conv)
  moreover have "length (dropWhile (\<lambda>c. c \<noteq> CHR 0x0A) b) \<le> length b" by (rule length_dropWhile_le)
  moreover have "length b + length r = length buf + length inp"
    using arg_cong[OF read_until_split[OF assms], of length] by simp
  ultimately show ?thesis by (cases "dropWhile (\<lambda>c. c \<noteq> CHR 0x0A) b") auto
qed

text \<open>The loop of \<^verbatim>\<open>read_response\<close>; the buffer is local to the call, what the socket still holds is returned.\<close>

function read_response :: "(string \<Rightarrow> nat) \<Rightarrow> int \<Rightarrow> string \<Rightarrow> string \<Rightarrow> unit result \<times> string" where
  "read_response grab expected_code buf inp =
     (case read_until grab buf inp of
        None \<Rightarrow> (Inl (system_error ''End of file''), [])
      | Some (b, r) \<Rightarrow>
          let line = chop_cr (takeWhile (\<lambda>c. c \<noteq> CHR 0x0A) b);
              buf' = tl (dropWhile (\<lambda>c. c \<noteq> CHR 0x0A) b)
          in if length line < 3 then (Inl (runtime_error (''Invalid SMTP response: '' @ line)), r)
             else case stoi (take 3 line) of
                    None \<Rightarrow> (Inl (invalid_argument ''stoi''), r)
                  | Some code \<Rightarrow>
                      if length line > 3 \<and> line ! 3 = CHR '' '' then
                        (if code \<noteq> expected_code then
                           (Inl (runtime_error (''SMTP Error: Expected '' @ show_int expected_code @ '', got '' @ line)), r)
                         else (Inr (), r))
                      else read_response grab expected_code buf' r)"
  by pat_completeness auto

termination
  by (relation "measure (\<lambda>(_, _, buf, inp). length buf + length inp)") (auto dest: read_until_shrinks)

declare read_response.simps [simp del]

subsection \<open>The dialogue\<close>

record smtp_conn =
  s_setup :: "exn option" \<comment> \<open>resolving, server name, connecting, handshake\<close>
  s_greeting :: string
  s_replies :: "string list" \<comment> \<open>what the server sends after each line it gets\<close>
  s_writes :: "nat \<Rightarrow> bool" \<comment> \<open>whether the n-th write succeeds\<close>
  s_grab :: "string \<Rightarrow> nat"

text \<open>The unread input, the replies still to come, and the lines written.\<close>

type_synonym smtp_state = "string \<times> string list \<times> string list"

definition write_line :: "smtp_conn \<Rightarrow> string \<Rightarrow> smtp_state \<Rightarrow> unit result \<times> smtp_state" where
  "write_line C line st =
     (case st of (inp, replies, out) \<Rightarrow>
        if \<not> s_writes C (length out) then (Inl (system_error ''Broken pipe''), st)
        else (Inr (), (inp @ (case replies of [] \<Rightarrow> [] | r # _ \<Rightarrow> r), tl replies, out @ [line @ crlf])))"

definition exchange :: "smtp_conn \<Rightarrow> string \<times> int \<Rightarrow> smtp_state \<Rightarrow> unit result \<times> smtp_state" where
  "exchange C step st =
     (case write_line C (fst step) st of
        (Inl e, st') \<Rightarrow> (Inl e, st')
      | (Inr _, (inp, replies, out)) \<Rightarrow>
          (case read_response (s_grab C) (snd step) [] inp of (r, rest) \<Rightarrow> (r, (rest, replies, out))))"

fun exchanges :: "smtp_conn \<Rightarrow> (string \<times> int) list \<Rightarrow> smtp_state \<Rightarrow> unit result \<times> smtp_state" where
  "exchanges C [] st = (Inr (), st)"
| "exchanges C (x # xs) st = (case exchange C x st of (Inl e, st') \<Rightarrow> (Inl e, st') | (Inr _, st') \<Rightarrow> exchanges C xs st')"

definition email_data :: "smtp \<Rightarrow> string \<Rightarrow> string \<Rightarrow> string \<Rightarrow> string" where
  "email_data c recipient message sender_name =
     ''From: '' @ (if length sender_name > 0 then sender_name @ '' <'' @ smtp_username c @ ''>'' else smtp_username c) @ crlf @
     ''To: '' @ recipient @ crlf @ ''Subject: Notification'' @ crlf @ ''MIME-Version: 1.0'' @ crlf @
     ''Content-Type: text/html; charset=utf-8'' @ crlf @ crlf @ message @ crlf @ ''.'' @ crlf"

definition dialogue :: "(string \<Rightarrow> string) \<Rightarrow> smtp \<Rightarrow> string \<Rightarrow> string \<Rightarrow> string \<Rightarrow> (string \<times> int) list" where
  "dialogue base64 c recipient message sender_name =
     [(''EHLO '' @ smtp_name c, 250), (''AUTH PLAIN'', 334),
      (base64 ([CHR 0x00] @ smtp_username c @ [CHR 0x00] @ smtp_password c), 235),
      (''MAIL FROM:<'' @ smtp_username c @ ''>'', 250), (''RCPT TO:<'' @ recipient @ ''>'', 250), (''DATA'', 354),
      (email_data c recipient message sender_name, 250)]"

definition run_dialogue :: "(string \<Rightarrow> string) \<Rightarrow> smtp \<Rightarrow> smtp_conn \<Rightarrow> string \<Rightarrow> string \<Rightarrow> string \<Rightarrow> unit result \<times> string list" where
  "run_dialogue base64 c C recipient message sender_name =
     (case s_setup C of
        Some e \<Rightarrow> (Inl e, [])
      | None \<Rightarrow>
          (case read_response (s_grab C) 220 [] (s_greeting C) of
             (Inl e, _) \<Rightarrow> (Inl e, [])
           | (Inr _, rest) \<Rightarrow>
               (case exchanges C (dialogue base64 c recipient message sender_name) (rest, s_replies C, []) of
                  (Inl e, (_, _, out)) \<Rightarrow> (Inl e, out)
                | (Inr _, st) \<Rightarrow> (case write_line C ''QUIT'' st of (r, (_, _, out)) \<Rightarrow> (r, out)))))"

subsection \<open>Masking credentials\<close>

fun find_sub :: "string \<Rightarrow> string \<Rightarrow> nat option" where
  "find_sub pat s = (if take (length pat) s = pat then Some 0 else case s of [] \<Rightarrow> None | c # cs \<Rightarrow> map_option Suc (find_sub pat cs))"

declare find_sub.simps [simp del]

definition find_from :: "string \<Rightarrow> string \<Rightarrow> nat \<Rightarrow> nat option" where
  "find_from pat s f = (if f > length s then None else map_option ((+) f) (find_sub pat (drop f s)))"

definition replace_at :: "nat \<Rightarrow> nat \<Rightarrow> string \<Rightarrow> string \<Rightarrow> string" where
  "replace_at p n new msg = take p msg @ new @ drop (p + n) msg"

text \<open>The loop may not end: then its result is \<open>None\<close>.\<close>

partial_function (option) mask_loop :: "string \<Rightarrow> string \<Rightarrow> string \<Rightarrow> nat option \<Rightarrow> string option" where
  "mask_loop secret masked msg pos =
     (if pos = None then Some msg
      else mask_loop secret masked (replace_at (the pos) (length secret) masked msg)
             (find_from secret (replace_at (the pos) (length secret) masked msg) (the pos + length secret)))"

definition mask :: "string \<Rightarrow> string \<Rightarrow> string option" where
  "mask secret msg = mask_loop secret (take 3 secret @ ''***'') msg (find_from secret msg 0)"

text \<open>The result, the text that is logged on failure and the lines written; \<open>None\<close>: the masking does not end.\<close>

definition smtp_send :: "(string \<Rightarrow> string) \<Rightarrow> smtp \<Rightarrow> smtp_conn \<Rightarrow> string \<Rightarrow> string \<Rightarrow> string \<Rightarrow> (int \<times> string option \<times> string list) option" where
  "smtp_send base64 c C recipient message sender_name =
     (case run_dialogue base64 c C recipient message sender_name of
        (Inr _, out) \<Rightarrow> Some (0, None, out)
      | (Inl e, out) \<Rightarrow>
          (case mask (smtp_username c) (what e) of
             None \<Rightarrow> None
           | Some msg \<Rightarrow>
               (case mask (smtp_password c) msg of
                  None \<Rightarrow> None
                | Some msg \<Rightarrow> Some (- 1, Some (''SMTP Error: '' @ msg), out))))"

subsection \<open>Replies are understood\<close>

text \<open>A reply as the protocol has it: continuation lines with a hyphen after the code, then one with a space.\<close>

definition three_digits :: "nat \<Rightarrow> string" where
  "three_digits n = [digit_char (n div 100 mod 10), digit_char (n div 10 mod 10), digit_char (n mod 10)]"

definition plain_text :: "string \<Rightarrow> bool" where
  "plain_text t \<longleftrightarrow> CHR 0x0D \<notin> set t \<and> CHR 0x0A \<notin> set t"

definition reply_line :: "char \<Rightarrow> nat \<times> string \<Rightarrow> string" where
  "reply_line sep l = three_digits (fst l) @ [sep] @ snd l"

definition reply :: "(nat \<times> string) list \<Rightarrow> nat \<times> string \<Rightarrow> string" where
  "reply ls final = concat (map (\<lambda>l. reply_line CHR ''-'' l @ crlf) ls) @ reply_line CHR '' '' final @ crlf"

lemma digit_char_is_digit: "n < 10 \<Longrightarrow> is_digit (digit_char n)"
proof -
  have "\<forall>n \<in> set [0..<10]. is_digit (digit_char n)" by code_simp
  then show "n < 10 \<Longrightarrow> ?thesis" by simp
qed

lemma is_digit_facts: "is_digit c \<Longrightarrow> \<not> space_char c \<and> c \<noteq> CHR ''-'' \<and> c \<noteq> CHR ''+'' \<and> c \<noteq> CHR 0x0A \<and> c \<noteq> CHR 0x0D"
proof -
  assume d: "is_digit c"
  then have "48 \<le> (of_char c :: nat)" by (simp add: is_digit_def less_eq_char_def)
  then show ?thesis by (auto simp: space_char_def)
qed

lemma stoi_digit: "is_digit c \<Longrightarrow> stoi (c # s) = Some (stoi_digits 0 (c # s))"
  using is_digit_facts[of c] by (simp add: stoi_def Let_def del: stoi_digits.simps)

lemma stoi_three_digits: "n < 1000 \<Longrightarrow> stoi (three_digits n) = Some (int n)"
proof -
  assume n: "n < 1000"
  let ?d = "digit_char (n div 100 mod 10)"
  have d: "is_digit ?d" "is_digit (digit_char (n div 10 mod 10))" "is_digit (digit_char (n mod 10))"
    by (simp_all add: digit_char_is_digit)
  have v: "int (of_char (digit_char k)) - 48 = int k" if "k < 10" for k using of_char_digit_char[OF that] by simp
  have "n div 100 mod 10 = n div 10 div 10" using n by (simp add: div_mult2_eq[symmetric])
  then have "n = 10 * (10 * (n div 100 mod 10) + n div 10 mod 10) + n mod 10" by simp
  then have "int n = int (10 * (10 * (n div 100 mod 10) + n div 10 mod 10) + n mod 10)" by (rule arg_cong)
  then have e: "int n = 10 * (10 * int (n div 100 mod 10) + int (n div 10 mod 10)) + int (n mod 10)"
    by (simp only: of_nat_add of_nat_mult of_nat_numeral)
  have "stoi (three_digits n) = Some (stoi_digits 0 (three_digits n))"
    unfolding three_digits_def by (rule stoi_digit[OF d(1)])
  also have "stoi_digits 0 (three_digits n) = 10 * (10 * int (n div 100 mod 10) + int (n div 10 mod 10)) + int (n mod 10)"
    using d by (simp add: three_digits_def v)
  also have "\<dots> = int n" by (rule e[symmetric])
  finally show ?thesis .
qed

lemma read_more_total: "has_crlf (buf @ inp) \<Longrightarrow> \<exists>b r. read_more buf inp = Some (b, r)"
  by (induction buf inp rule: read_more.induct) auto

lemma read_until_total: "has_crlf (buf @ inp) \<Longrightarrow> \<exists>b r. read_until grab buf inp = Some (b, r)"
  using read_more_total[of buf inp] by (auto simp: read_until_def)

lemma has_crlf_crlf: "has_crlf (t @ crlf @ s)"
proof (induction t)
  case (Cons c t)
  then show ?case by (cases "t @ crlf @ s") (auto simp: crlf_def)
qed (simp add: crlf_def)

text \<open>The first line, wherever the reads stopped.\<close>

lemma first_line:
  assumes "read_until grab buf inp = Some (b, r)" "buf @ inp = l @ crlf @ rest" "plain_text l"
  shows "takeWhile (\<lambda>c. c \<noteq> CHR 0x0A) b = l @ [CHR 0x0D]" "tl (dropWhile (\<lambda>c. c \<noteq> CHR 0x0A) b) @ r = rest"
proof -
  let ?P = "\<lambda>c. c \<noteq> CHR 0x0A"
  have br: "b @ r = l @ crlf @ rest" using read_until_split[OF assms(1)] assms(2) by simp
  have P: "\<And>c. c \<in> set l \<Longrightarrow> ?P c" using assms(3) by (auto simp: plain_text_def)
  have ex: "CHR 0x0A \<in> set b" using has_crlf_newline[OF read_until_crlf[OF assms(1)]] .
  have b: "takeWhile ?P (b @ r) = takeWhile ?P b" "dropWhile ?P (b @ r) = dropWhile ?P b @ r"
    using ex by (auto simp: takeWhile_append1 dropWhile_append1)
  have l: "takeWhile ?P (l @ crlf @ rest) = l @ [CHR 0x0D]" "dropWhile ?P (l @ crlf @ rest) = CHR 0x0A # rest"
    by (simp_all add: takeWhile_append2[of l ?P, OF P] dropWhile_append2[of l ?P, OF P]) (simp_all add: crlf_def)
  show "takeWhile ?P b = l @ [CHR 0x0D]" using b(1) l(1) br by simp
  have "dropWhile ?P b @ r = CHR 0x0A # rest" using b(2) l(2) br by simp
  moreover have "dropWhile ?P b \<noteq> []" using ex by (auto simp: dropWhile_eq_Nil_conv)
  ultimately show "tl (dropWhile ?P b) @ r = rest" by (cases "dropWhile ?P b") auto
qed

lemma three_digits_plain: "plain_text (three_digits n)" "length (three_digits n) = 3"
proof -
  have d: "digit_char k \<noteq> CHR 0x0D \<and> digit_char k \<noteq> CHR 0x0A" if "k < 10" for k
    using is_digit_facts[OF digit_char_is_digit[OF that]] by simp
  then show "plain_text (three_digits n)" by (simp add: three_digits_def plain_text_def eq_commute[of "CHR 0x0D"] eq_commute[of "CHR 0x0A"])
qed (simp add: three_digits_def)

lemma read_response_line:
  assumes "buf @ inp = reply_line sep l @ crlf @ rest" "plain_text (snd l)" "sep \<noteq> CHR 0x0D" "sep \<noteq> CHR 0x0A" "fst l < 1000"
  shows "\<exists>buf' r. buf' @ r = rest \<and> read_response grab code buf inp =
    (if sep = CHR '' '' then
       (if int (fst l) \<noteq> code then Inl (runtime_error (''SMTP Error: Expected '' @ show_int code @ '', got '' @ reply_line sep l)) else Inr (), r)
     else read_response grab code buf' r)"
proof -
  have "has_crlf (buf @ inp)" unfolding assms(1) using has_crlf_crlf by simp
  then obtain b r where br: "read_until grab buf inp = Some (b, r)" using read_until_total by blast
  have pl: "plain_text (reply_line sep l)"
    using three_digits_plain(1)[of "fst l"] assms(2-4) by (auto simp: reply_line_def plain_text_def)
  note fl = first_line[OF br assms(1) pl]
  have ch: "chop_cr (reply_line x l @ [CHR 0x0D]) = reply_line x l" for x by (simp add: chop_cr_def)
  have tk: "take 3 (reply_line sep l) = three_digits (fst l)" "length (reply_line sep l) > 3" "reply_line sep l ! 3 = sep"
    using three_digits_plain(2)[of "fst l"] by (simp_all add: reply_line_def nth_append)
  have "read_response grab code buf inp =
    (if sep = CHR '' '' then
       (if int (fst l) \<noteq> code then Inl (runtime_error (''SMTP Error: Expected '' @ show_int code @ '', got '' @ reply_line sep l)) else Inr (), r)
     else read_response grab code (tl (dropWhile (\<lambda>c. c \<noteq> CHR 0x0A) b)) r)"
    by (subst read_response.simps) (use tk in \<open>auto simp: br fl(1) ch stoi_three_digits[OF assms(5)] Let_def\<close>)
  with fl(2) show ?thesis by blast
qed

text \<open>A whole reply, whatever the reads transferred at a time.\<close>

lemma read_reply:
  assumes "buf @ inp = reply ls final" "\<forall>l \<in> set ls. plain_text (snd l) \<and> fst l < 1000" "plain_text (snd final)" "fst final < 1000"
  shows "read_response grab code buf inp =
    (if int (fst final) = code then Inr ()
     else Inl (runtime_error (''SMTP Error: Expected '' @ show_int code @ '', got '' @ reply_line CHR '' '' final)), [])"
  using assms(1,2)
proof (induction ls arbitrary: buf inp)
  case Nil
  then show ?case using read_response_line[of buf inp "CHR '' ''" final "[]" grab code] assms(3,4) by (auto simp: reply_def)
next
  case (Cons l ls)
  then have "buf @ inp = reply_line CHR ''-'' l @ crlf @ reply ls final" by (simp add: reply_def)
  then obtain buf' r where "buf' @ r = reply ls final" "read_response grab code buf inp = read_response grab code buf' r"
    using read_response_line[of buf inp "CHR ''-''" l "reply ls final" grab code] Cons.prems(2) by auto
  with Cons show ?case by simp
qed

text \<open>A server that answers each line with one proper reply.\<close>

type_synonym server_reply = "(nat \<times> string) list \<times> nat \<times> string"

definition proper :: "server_reply \<Rightarrow> bool" where
  "proper r \<longleftrightarrow> (\<forall>l \<in> set (fst r). plain_text (snd l) \<and> fst l < 1000) \<and> plain_text (snd (snd r)) \<and> fst (snd r) < 1000"

definition reply_text :: "server_reply \<Rightarrow> string" where
  "reply_text r = reply (fst r) (snd r)"

definition final_code :: "server_reply \<Rightarrow> int" where
  "final_code r = int (fst (snd r))"

lemma exchange_proper:
  assumes "s_writes C (length out)" "proper r"
  shows "exchange C (cmd, code) ([], reply_text r # rs, out) =
    (if final_code r = code then Inr ()
     else Inl (runtime_error (''SMTP Error: Expected '' @ show_int code @ '', got '' @ reply_line CHR '' '' (snd r))), ([], rs, out @ [cmd @ crlf]))"
  using assms read_reply[of "[]" "reply_text r" "fst r" "snd r" "s_grab C" code]
  by (simp add: exchange_def write_line_def reply_text_def proper_def final_code_def)

lemma exchange_silent:
  assumes "s_writes C (length out)"
  shows "exchange C (cmd, code) ([], [], out) = (Inl (system_error ''End of file''), ([], [], out @ [cmd @ crlf]))"
  using assms by (simp add: exchange_def write_line_def read_response.simps [of _ _ "[]"] read_until_def)

text \<open>How many of the codes received, in order, are those expected.\<close>

definition agreed :: "int list \<Rightarrow> server_reply list \<Rightarrow> nat" where
  "agreed expected rs = length (takeWhile (\<lambda>(a, b). a = b) (zip expected (map final_code rs)))"

lemma agreed_Cons: "agreed (a # as) (r # rs) = (if a = final_code r then Suc (agreed as rs) else 0)"
  by (simp add: agreed_def)

lemma agreed_Nil [simp]: "agreed as [] = 0" "agreed [] rs = 0"
  by (simp_all add: agreed_def)

lemma agreed_le: "agreed as rs \<le> length as"
proof -
  have "agreed as rs \<le> length (zip as (map final_code rs))" unfolding agreed_def by (rule length_takeWhile_le)
  then show ?thesis by simp
qed

text \<open>The lines of a dialogue against proper replies: it ends at the first code that is not the one expected, or where the
  server sends no more.\<close>

lemma exchanges_agreed:
  assumes w: "\<forall>n. s_writes C n"
  shows "\<forall>r \<in> set rs. proper r \<Longrightarrow>
    (if agreed (map snd steps) rs = length steps
     then \<exists>later. exchanges C steps ([], map reply_text rs, out) = (Inr (), ([], later, out @ map (\<lambda>x. fst x @ crlf) steps))
     else \<exists>e rest later. exchanges C steps ([], map reply_text rs, out) =
       (Inl e, (rest, later, out @ map (\<lambda>x. fst x @ crlf) (take (Suc (agreed (map snd steps) rs)) steps))))"
proof (induction steps arbitrary: rs out)
  case (Cons x steps)
  obtain cmd code where x: "x = (cmd, code)" by force
  show ?case
  proof (cases rs)
    case Nil
    then show ?thesis using exchange_silent [of C out cmd code, OF spec [OF w]] x by simp
  next
    case (Cons r rs')
    then have p: "proper r" "\<forall>r \<in> set rs'. proper r" using Cons.prems by simp_all
    note e = exchange_proper [of C out r cmd code "map reply_text rs'", OF spec [OF w] p(1)]
    show ?thesis
    proof (cases "final_code r = code")
      case True
      then show ?thesis using Cons.IH [OF p(2), of "out @ [cmd @ crlf]"] e x Cons by (simp add: agreed_Cons split: if_splits)
    next
      case False
      then show ?thesis using e x Cons by (simp add: agreed_Cons)
    qed
  qed
qed simp

text \<open>Connected to a server that greets properly, with writes that succeed.\<close>

definition connected :: "smtp_conn \<Rightarrow> server_reply \<Rightarrow> bool" where
  "connected C g \<longleftrightarrow> s_setup C = None \<and> (\<forall>n. s_writes C n) \<and> s_greeting C = reply_text g \<and> proper g"

definition codes :: "int list" where
  "codes = [250, 334, 235, 250, 250, 354, 250]"

lemma dialogue_codes: "map snd (dialogue base64 c rcpt m n) = codes" "length (dialogue base64 c rcpt m n) = 7"
  by (simp_all add: dialogue_def codes_def)

lemma run_dialogue_agreed:
  assumes "connected C g" "s_replies C = map reply_text rs" "\<forall>r \<in> set rs. proper r"
  shows "let lines = map (\<lambda>x. fst x @ crlf) (dialogue base64 c rcpt m n) in
    if agreed (220 # codes) (g # rs) = 8 then run_dialogue base64 c C rcpt m n = (Inr (), lines @ [''QUIT'' @ crlf])
    else \<exists>e. run_dialogue base64 c C rcpt m n = (Inl e, take (agreed (220 # codes) (g # rs)) lines)"
proof -
  let ?d = "dialogue base64 c rcpt m n"
  have w: "\<forall>n. s_writes C n" "s_setup C = None" using assms(1) by (simp_all add: connected_def)
  have g: "read_response (s_grab C) 220 [] (s_greeting C) =
      (if final_code g = 220 then Inr ()
       else Inl (runtime_error (''SMTP Error: Expected '' @ show_int 220 @ '', got '' @ reply_line CHR '' '' (snd g))), [])"
    using read_reply [of "[]" "s_greeting C" "fst g" "snd g" "s_grab C" 220] assms(1)
    by (simp add: connected_def reply_text_def proper_def final_code_def)
  show ?thesis
  proof (cases "final_code g = 220")
    case False
    then show ?thesis using g w by (simp add: run_dialogue_def agreed_Cons Let_def)
  next
    case True
    note x = exchanges_agreed [OF w(1) assms(3), where steps = ?d and out = "[]", unfolded dialogue_codes, folded assms(2)]
    show ?thesis
    proof (cases "agreed codes rs = 7")
      case True
      then show ?thesis using x g w \<open>final_code g = 220\<close>
        by (auto simp: run_dialogue_def agreed_Cons write_line_def Let_def)
    next
      case False
      then show ?thesis using x g w True by (auto simp: run_dialogue_def agreed_Cons take_map Let_def)
    qed
  qed
qed

text \<open>A reply that consists of the code alone, which the protocol allows, is taken for a continuation.\<close>

lemma bare_code_not_understood:
  "read_response (\<lambda>_. 0) 250 [] (''250'' @ crlf) = (Inl (system_error ''End of file''), [])"
  by code_simp

subsection \<open>Masking ends\<close>

lemma find_sub_Some: "find_sub pat s = Some i \<Longrightarrow> \<exists>a b. s = a @ pat @ b \<and> length a = i"
proof (induction s arbitrary: i)
  case Nil
  then show ?case by (subst (asm) find_sub.simps) (auto split: if_splits)
next
  case (Cons c s)
  show ?case
  proof (cases "take (length pat) (c # s) = pat")
    case True
    then have "i = 0" using Cons.prems by (subst (asm) find_sub.simps) simp
    moreover have "c # s = [] @ pat @ drop (length pat) (c # s)" using True by (metis append_Nil append_take_drop_id)
    ultimately show ?thesis by (metis list.size(3))
  next
    case False
    then obtain j where "find_sub pat s = Some j" "i = Suc j" using Cons.prems by (subst (asm) find_sub.simps) auto
    with Cons.IH obtain a b where "s = a @ pat @ b" "length a = j" by blast
    then show ?thesis using \<open>i = Suc j\<close> by (intro exI[of _ "c # a"] exI[of _ b]) auto
  qed
qed

lemma find_from_Some:
  assumes "find_from pat s f = Some p"
  shows "\<exists>x b. drop f s = x @ pat @ b \<and> s = (take f s @ x) @ pat @ b \<and> p = length (take f s @ x)"
proof -
  from assms obtain j where f: "f \<le> length s" "find_sub pat (drop f s) = Some j" "p = f + j"
    by (auto simp: find_from_def split: if_splits)
  from find_sub_Some[OF f(2)] obtain x b where x: "drop f s = x @ pat @ b" "length x = j" by blast
  then have "s = (take f s @ x) @ pat @ b" by (metis append.assoc append_take_drop_id)
  with x f show ?thesis by (intro exI[of _ x] exI[of _ b]) simp
qed

abbreviation unstarred :: "string \<Rightarrow> string" where
  "unstarred s \<equiv> dropWhile (\<lambda>c. c = CHR ''*'') s"

lemma unstarred_length: "length (unstarred (replicate k CHR ''*'' @ s)) \<le> length s" "length (unstarred (drop k s)) \<le> length s"
proof -
  show "length (unstarred (replicate k CHR ''*'' @ s)) \<le> length s" by (induction k) (simp_all add: length_dropWhile_le)
  show "length (unstarred (drop k s)) \<le> length s" using length_dropWhile_le[of _ "drop k s"] by (metis diff_le_self length_drop order_trans)
qed

lemma drop_middle: "n \<le> length m \<Longrightarrow> drop (length a + n) (a @ m @ b) = drop n m @ b"
  by simp

lemma drop_beyond: "length m \<le> n \<Longrightarrow> drop (length a + n) (a @ m @ b) = drop (n - length m) b"
  by simp

text \<open>After a replacement, what follows the next search position is either stars and the rest, or less than
  the rest.\<close>

lemma rest_after_mask:
  "length (unstarred (drop (length a + length secret) (a @ (take 3 secret @ ''***'') @ b))) \<le> length b"
proof -
  let ?m = "take 3 secret @ ''***''"
  have st: "''***'' = replicate 3 CHR ''*''" by (simp add: numeral_eq_Suc)
  show ?thesis
  proof (cases "length secret \<le> length ?m")
    case True
    have "drop (length secret) ?m = replicate (3 - (length secret - length (take 3 secret))) CHR ''*''"
      unfolding st by (simp del: replicate_Suc add: drop_replicate)
    then have "drop (length a + length secret) (a @ ?m @ b) = replicate (3 - (length secret - length (take 3 secret))) CHR ''*'' @ b"
      using drop_middle[OF True, of a b] by simp
    then show ?thesis using unstarred_length(1) by metis
  next
    case False
    then have "drop (length a + length secret) (a @ ?m @ b) = drop (length secret - length ?m) b" by (intro drop_beyond) simp
    then show ?thesis using unstarred_length(2) by metis
  qed
qed

lemma mask_loop_returns:
  assumes "secret \<noteq> []" "CHR ''*'' \<notin> set secret"
  shows "length (unstarred (drop f msg)) \<le> n \<Longrightarrow>
    \<exists>r. mask_loop secret (take 3 secret @ ''***'') msg (find_from secret msg f) = Some r"
proof (induction n arbitrary: msg f rule: less_induct)
  case (less n)
  show ?case
  proof (cases "find_from secret msg f")
    case None
    then show ?thesis by (simp add: mask_loop.simps)
  next
    case (Some p)
    then obtain x b where x: "drop f msg = x @ secret @ b" "msg = (take f msg @ x) @ secret @ b" "p = length (take f msg @ x)"
      using find_from_Some by blast
    let ?a = "take f msg @ x" and ?m = "take 3 secret @ ''***''"
    have r: "replace_at p (length secret) ?m msg = ?a @ ?m @ b"
    proof -
      have "take p msg = ?a" "drop (p + length secret) msg = b" using x(2,3) by (metis append_eq_conv_conj, metis append_eq_conv_conj drop_drop add.commute)
      then show ?thesis by (simp add: replace_at_def)
    qed
    have "length b < length (unstarred (drop f msg))"
    proof -
      obtain c cs where c: "secret = c # cs" "c \<noteq> CHR ''*''" using assms by (cases secret) auto
      have "unstarred (x @ secret @ b) = unstarred x @ secret @ b"
        using c by (induction x) auto
      then show ?thesis using x(1) c(1) by simp
    qed
    moreover have "length (unstarred (drop (p + length secret) (?a @ ?m @ b))) \<le> length b"
      using rest_after_mask[of ?a secret b] x(3) by simp
    ultimately have "\<exists>r. mask_loop secret ?m (?a @ ?m @ b) (find_from secret (?a @ ?m @ b) (p + length secret)) = Some r"
      by (intro less.IH[of "length b" "p + length secret" "?a @ ?m @ b"]) (use less.prems in \<open>auto intro: less_le_trans\<close>)
    then show ?thesis using r by (subst mask_loop.simps) (simp add: Some)
  qed
qed

text \<open>The loop never ends when the mask holds the secret again at the place where the search goes on, as it
  does for the empty secret and for one to three asterisks.\<close>

lemma find_from_here: "f \<le> length s \<Longrightarrow> take (length pat) (drop f s) = pat \<Longrightarrow> find_from pat s f = Some f"
  by (simp add: find_from_def find_sub.simps)

lemma mask_loop_diverges:
  "mask_loop secret masked m pos = Some r \<Longrightarrow>
   (\<exists>x y. masked = x @ secret @ y \<and> length x = length secret) \<longrightarrow> (\<forall>p. pos = Some p \<longrightarrow> \<not> p \<le> length m)"
proof (rule mask_loop.raw_induct [where P = "\<lambda>secret masked m pos r.
    (\<exists>x y. masked = x @ secret @ y \<and> length x = length secret) \<longrightarrow> (\<forall>p. pos = Some p \<longrightarrow> \<not> p \<le> length m)"])
  fix loop :: "string \<Rightarrow> string \<Rightarrow> string \<Rightarrow> nat option \<Rightarrow> string option" and secret masked m r :: string and pos
  assume IH: "\<And>secret masked m pos r. loop secret masked m pos = Some r \<Longrightarrow>
      (\<exists>x y. masked = x @ secret @ y \<and> length x = length secret) \<longrightarrow> (\<forall>p. pos = Some p \<longrightarrow> \<not> p \<le> length m)"
    and eq: "(if pos = None then Some m
      else loop secret masked (replace_at (the pos) (length secret) masked m)
             (find_from secret (replace_at (the pos) (length secret) masked m) (the pos + length secret))) = Some r"
  show "(\<exists>x y. masked = x @ secret @ y \<and> length x = length secret) \<longrightarrow> (\<forall>p. pos = Some p \<longrightarrow> \<not> p \<le> length m)"
  proof (intro impI allI notI, elim exE conjE)
    fix p x y assume *: "pos = Some p" "p \<le> length m" "masked = x @ secret @ y" "length x = length secret"
    let ?m = "replace_at p (length secret) masked m"
    have le: "p + length secret \<le> length ?m" using *(2-4) by (simp add: replace_at_def)
    have "drop (p + length secret) ?m = secret @ y @ drop (p + length secret) m"
      using *(2-4) by (simp add: replace_at_def)
    then have "find_from secret ?m (p + length secret) = Some (p + length secret)" by (intro find_from_here [OF le]) simp
    then have "loop secret masked ?m (Some (p + length secret)) = Some r" using eq *(1) by simp
    from IH [OF this] le *(3,4) show False by blast
  qed
qed

lemma mask_diverges:
  assumes "find_sub secret msg = Some p" "\<exists>x y. take 3 secret @ ''***'' = x @ secret @ y \<and> length x = length secret"
  shows "mask secret msg = None"
proof (rule ccontr)
  assume "mask secret msg \<noteq> None"
  then obtain r where r: "mask_loop secret (take 3 secret @ ''***'') msg (Some p) = Some r"
    using assms(1) by (auto simp: mask_def find_from_def)
  obtain a b where "msg = a @ secret @ b" "length a = p" using find_sub_Some [OF assms(1)] by blast
  with mask_loop_diverges [OF r] assms(2) show False by fastforce
qed

lemma mask_empty_diverges: "mask [] msg = None"
  by (rule mask_diverges [of _ _ 0]) (simp_all add: find_sub.simps)

lemma mask_stars_diverges:
  assumes "1 \<le> k" "k \<le> 3" "find_sub (replicate k CHR ''*'') msg \<noteq> None"
  shows "mask (replicate k CHR ''*'') msg = None"
proof -
  obtain p where p: "find_sub (replicate k CHR ''*'') msg = Some p" using assms(3) by blast
  have st: "''***'' = replicate 3 CHR ''*''" by (simp add: numeral_eq_Suc)
  have "take 3 (replicate k CHR ''*'') @ ''***'' = replicate k CHR ''*'' @ replicate k CHR ''*'' @ replicate (3 - k) CHR ''*''"
    unfolding st replicate_add [symmetric] take_replicate using assms(2) by (simp add: min_def replicate_add [symmetric])
  then show ?thesis by (intro mask_diverges [OF p]) (metis length_replicate)
qed

lemma mask_absent: "find_sub secret msg = None \<Longrightarrow> mask secret msg = Some msg"
  by (simp add: mask_def find_from_def mask_loop.simps)

text \<open>A credential for which masking ends.\<close>

definition maskable :: "string \<Rightarrow> bool" where
  "maskable s \<longleftrightarrow> s \<noteq> [] \<and> CHR ''*'' \<notin> set s"

lemma mask_returns: "maskable s \<Longrightarrow> \<exists>r. mask s msg = Some r"
  using mask_loop_returns [of s 0 msg "length (unstarred (drop 0 msg))"] by (auto simp: mask_def maskable_def)

lemma send_failed:
  assumes "run_dialogue base64 c C rcpt m n = (Inl e, out)" "maskable (smtp_username c)" "maskable (smtp_password c)"
  shows "\<exists>msg. smtp_send base64 c C rcpt m n = Some (- 1, Some msg, out)"
proof -
  obtain m1 where m1: "mask (smtp_username c) (what e) = Some m1" using mask_returns [OF assms(2)] by blast
  obtain m2 where "mask (smtp_password c) m1 = Some m2" using mask_returns [OF assms(3)] by blast
  with m1 assms(1) show ?thesis by (simp add: smtp_send_def)
qed

subsection \<open>Properties\<close>

text \<open>C19: Once connected to a server that greets and answers each line with a well-formed reply of one or more lines, or
  stops answering, and with writes that succeed, \<^verbatim>\<open>send\<close> returns 0 exactly when the eight codes received are 220, 250, 334, 235,
  250, 250, 354, 250, however the bytes arrive, and then it has sent exactly EHLO, AUTH PLAIN, the credentials, MAIL FROM,
  RCPT TO, DATA, the message and QUIT, in this order. In every other case (a greeting or a reply with another
  code, or a server that stops) it returns -1 after the line whose reply was wrong or missing, and nothing more
  is sent. Condition: user name and password are not empty and contain no asterisk, so that masking the message ends.\<close>

theorem smtp_dialogue:
  assumes "connected C g" "s_replies C = map reply_text rs" "\<forall>r \<in> set rs. proper r"
    and "maskable (smtp_username c)" "maskable (smtp_password c)"
  shows "\<exists>msg. smtp_send base64 c C rcpt m n =
    (let lines = map (\<lambda>x. fst x @ crlf) (dialogue base64 c rcpt m n); k = agreed (220 # codes) (g # rs)
     in if k = 8 then Some (0, None, lines @ [''QUIT'' @ crlf]) else Some (- 1, Some msg, take k lines))"
proof (cases "agreed (220 # codes) (g # rs) = 8")
  case True
  then show ?thesis using run_dialogue_agreed [OF assms(1-3), of base64 c rcpt m n] by (simp add: smtp_send_def Let_def)
next
  case False
  then obtain e where e: "run_dialogue base64 c C rcpt m n =
      (Inl e, take (agreed (220 # codes) (g # rs)) (map (\<lambda>x. fst x @ crlf) (dialogue base64 c rcpt m n)))"
    using run_dialogue_agreed [OF assms(1-3), of base64 c rcpt m n] by (auto simp: Let_def)
  show ?thesis using send_failed [OF e assms(4,5)] False by (simp add: Let_def)
qed

text \<open>C23: Masking a credential in the text of an error ends for every text if the credential is not empty and contains no
  asterisk. It does not end (but for the memory it uses up) for the empty credential, whatever the text, nor for a
  credential of one to three asterisks, exactly when that occurs in the text. So a \<^verbatim>\<open>send\<close> whose credentials
  are of the first kind always returns 0 or -1; one with an empty user name, or with a user name of the first kind and an empty
  password, does not return after any failure.\<close>

theorem smtp_masking_ends:
  "(maskable s \<longrightarrow> (\<exists>r. mask s t = Some r)) \<and> mask [] t = None \<and>
   (1 \<le> k \<and> k \<le> 3 \<longrightarrow> (mask (replicate k CHR ''*'') t = None \<longleftrightarrow> find_sub (replicate k CHR ''*'') t \<noteq> None)) \<and>
   (maskable (smtp_username c) \<and> maskable (smtp_password c) \<longrightarrow>
      (\<exists>r. smtp_send base64 c C rcpt m n = Some r \<and> (fst r = 0 \<or> fst r = - 1))) \<and>
   (isl (fst (run_dialogue base64 c C rcpt m n)) \<and>
      (smtp_username c = [] \<or> maskable (smtp_username c) \<and> smtp_password c = []) \<longrightarrow> smtp_send base64 c C rcpt m n = None)"
proof (intro conjI impI)
  show "\<exists>r. mask s t = Some r" if "maskable s" using that by (rule mask_returns)
  show "mask [] t = None" by (rule mask_empty_diverges)
  show "mask (replicate k CHR ''*'') t = None \<longleftrightarrow> find_sub (replicate k CHR ''*'') t \<noteq> None" if "1 \<le> k \<and> k \<le> 3"
    using that mask_stars_diverges [of k t] mask_absent [of "replicate k CHR ''*''" t]
    by (cases "find_sub (replicate k CHR ''*'') t") auto
  obtain x out where d: "run_dialogue base64 c C rcpt m n = (x, out)" by force
  show "\<exists>r. smtp_send base64 c C rcpt m n = Some r \<and> (fst r = 0 \<or> fst r = - 1)"
    if "maskable (smtp_username c) \<and> maskable (smtp_password c)"
    using that d send_failed [of base64 c C rcpt m n] by (cases x) (fastforce simp: smtp_send_def)+
  show "smtp_send base64 c C rcpt m n = None"
    if "isl (fst (run_dialogue base64 c C rcpt m n)) \<and> (smtp_username c = [] \<or> maskable (smtp_username c) \<and> smtp_password c = [])"
    using that d by (cases x) (auto simp: smtp_send_def mask_empty_diverges split: option.split)
qed

text \<open>The search goes on one secret length after the start of the mask: of two adjacent occurrences of a long
  secret the second one is skipped.\<close>

lemma masking_skips: "mask ''abcdefgh'' ''abcdefghabcdefgh'' = Some ''abc***abcdefgh''"
  by (simp add: mask_def mask_loop.simps find_from_def find_sub.simps replace_at_def)

subsection \<open>Witnesses\<close>

definition sample_smtp :: smtp where
  "sample_smtp = \<lparr>smtp_name = ''me'', smtp_host = ''mx'', smtp_port = ''465'', smtp_username = ''u@x'', smtp_password = ''secret''\<rparr>"

definition sample_replies :: "server_reply list" where
  "sample_replies = [([(250, ''mx'')], 250, ''SIZE''), ([], 334, ''-''), ([], 235, ''ok''), ([], 250, ''ok''), ([], 250, ''ok''), ([], 354, ''go''), ([], 250, ''ok'')]"

definition sample_smtp_conn :: smtp_conn where
  "sample_smtp_conn = \<lparr>s_setup = None, s_greeting = reply_text ([], 220, ''mx''), s_replies = map reply_text sample_replies,
     s_writes = (\<lambda>_. True), s_grab = (\<lambda>r. length r)\<rparr>"

theorem smtp_dialogue_witness:
  "smtp_send id sample_smtp sample_smtp_conn ''a@b'' ''hi'' [] =
     Some (0, None, map (\<lambda>x. fst x @ crlf) (dialogue id sample_smtp ''a@b'' ''hi'' []) @ [''QUIT'' @ crlf]) \<and>
   (\<exists>msg. smtp_send id sample_smtp (sample_smtp_conn\<lparr>s_replies := map reply_text (take 1 sample_replies)\<rparr>) ''a@b'' ''hi'' [] =
     Some (- 1, Some msg, [''EHLO me'' @ crlf, ''AUTH PLAIN'' @ crlf]))"
proof -
  let ?C = "sample_smtp_conn\<lparr>s_replies := map reply_text (take 1 sample_replies)\<rparr>"
  have g: "connected sample_smtp_conn ([], 220, ''mx'')" "connected ?C ([], 220, ''mx'')"
    by (simp_all add: connected_def sample_smtp_conn_def proper_def plain_text_def)
  have r: "s_replies sample_smtp_conn = map reply_text sample_replies" "s_replies ?C = map reply_text (take 1 sample_replies)"
    by (simp_all add: sample_smtp_conn_def)
  have p: "\<forall>r \<in> set sample_replies. proper r" "\<forall>r \<in> set (take 1 sample_replies). proper r"
    by (simp_all add: sample_replies_def proper_def plain_text_def)
  have m: "maskable (smtp_username sample_smtp)" "maskable (smtp_password sample_smtp)" by (simp_all add: maskable_def sample_smtp_def)
  have k: "agreed (220 # codes) (([], 220, ''mx'') # sample_replies) = 8" "agreed (220 # codes) (([], 220, ''mx'') # take 1 sample_replies) = 2"
    by code_simp+
  have l: "take 2 (map (\<lambda>x. fst x @ crlf) (dialogue id sample_smtp ''a@b'' ''hi'' [])) = [''EHLO me'' @ crlf, ''AUTH PLAIN'' @ crlf]"
    by (simp add: dialogue_def sample_smtp_def)
  show ?thesis
    using smtp_dialogue [OF g(1) r(1) p(1) m, of id "''a@b''" "''hi''" "[]"] smtp_dialogue [OF g(2) r(2) p(2) m, of id "''a@b''" "''hi''" "[]"]
    by (simp only: k l Let_def) simp
qed

theorem smtp_masking_ends_witness:
  "mask ''***'' ''wrong ***'' = None \<and>
   (\<exists>r. smtp_send id sample_smtp (sample_smtp_conn\<lparr>s_setup := Some (system_error ''u@x'')\<rparr>) ''a@b'' ''hi'' [] = Some r \<and> (fst r = 0 \<or> fst r = - 1))"
proof -
  let ?C = "sample_smtp_conn\<lparr>s_setup := Some (system_error ''u@x'')\<rparr>"
  have s: "replicate 3 CHR ''*'' = ''***''" by (simp add: numeral_eq_Suc)
  have f: "find_sub ''***'' ''wrong ***'' \<noteq> None" by code_simp
  have m: "maskable (smtp_username sample_smtp)" "maskable (smtp_password sample_smtp)" by (simp_all add: maskable_def sample_smtp_def)
  show ?thesis
    using smtp_masking_ends [of "[]" "''wrong ***''" 3 sample_smtp id ?C "''a@b''" "''hi''" "[]", unfolded s] f m by simp
qed

end
