(* ===== verification/Spec2Isabelle.thy ===== *)
theory Spec2Isabelle
  imports Service Lifecycle HttpsAccept HttpsTimers SharedDatabase Crypto WebSocketWrites HttpClient Logger Smtp
begin

text \<open>
  A verification development for brazier (\<^verbatim>\<open>src/brazier\<close>), a C++ framework for HTTP services on Boost.Asio and
  Beast: HTTPS, HTTP and WebSocket servers with routers and middlewares, a JSON configuration, file
  storage, a PostgreSQL layer with query builder, models and migrations, Redis clients, an HTTP and an
  SMTP client, cryptography and a logger.

  \<^bold>\<open>How the parts interact.\<close> A program (\<^verbatim>\<open>app/Main.cpp\<close>) registers handlers with the router, loads the
  configuration and starts a server. The server reads its limits and TLS settings from the
  configuration, builds a TLS context whose session tickets use the key store, opens the storage
  drivers, the Redis and the database connections, and starts one thread per I/O context. Accept
  coroutines count and limit connections; a connection coroutine reads requests, calls the router and
  writes the responses; \<^verbatim>\<open>stop\<close> drains the connections and ends the threads. Handlers use models, cache,
  queue, files and clients.

  \<^bold>\<open>Theories.\<close>
  \<^item> \<^verbatim>\<open>Prelude\<close>: exceptions as values (\<open>exn\<close>, \<open>'a result\<close>), the association lists that stand for \<^verbatim>\<open>unordered_map\<close>
    and \<^verbatim>\<open>map\<close>, string helpers of the standard library (\<^verbatim>\<open>find\<close>, \<^verbatim>\<open>getline\<close>, \<^verbatim>\<open>to_string\<close>), and the locales of
    invariants and refinements of machines. \<^verbatim>\<open>Http\<close>: requests, responses and what is used of Beast, as a
    record of functions with laws. \<^verbatim>\<open>Regex\<close>: the ECMAScript regular expressions of \<^verbatim>\<open>std::regex\<close> that the
    sources use, with a compiler and a backtracking matcher. \<^verbatim>\<open>Json\<close>: JSON values and nlohmann's operations.
  \<^item> \<^verbatim>\<open>Route\<close> (\<^verbatim>\<open>src/Router/Route.cpp\<close>, \<^verbatim>\<open>Router.cpp\<close>): a path becomes a regular expression; it is proved equivalent
    to comparing segments, the first matching route is run, and a registered route is reached.
    \<^verbatim>\<open>WSRoute\<close> (\<^verbatim>\<open>WSRoute.cpp\<close>, \<^verbatim>\<open>WSRouter.cpp\<close>): the WebSocket router refines the same specification; both are
    instances of one locale. A handler set by path goes to the first route that matches it.
  \<^item> \<^verbatim>\<open>TicketKeyStore\<close> (\<^verbatim>\<open>src/TLS/TicketKeyStore.cpp\<close>): key rotation and the OpenSSL ticket callback: order and
    lifetime of keys under any sequence of operations, a bound on their number, tickets stay valid.
  \<^item> \<^verbatim>\<open>HttpsConfig\<close>, \<^verbatim>\<open>HttpsTls\<close>, \<^verbatim>\<open>HttpsConnection\<close>, \<^verbatim>\<open>HttpsAccept\<close> (\<^verbatim>\<open>src/HttpsServer*.cpp\<close>, \<^verbatim>\<open>src/Platform\<close>): limits at
    32-bit width and the memory budget; the TLS context built without leaking an OpenSSL object and
    reloaded all or nothing; the keep-alive loop; the connection limit and the draining of \<^verbatim>\<open>stop\<close> as a step
    relation of all coroutines. \<^verbatim>\<open>HttpsStream\<close>: the bytes of a connection, cut in any way by the network,
    become the requests that were sent, and bytes behind a request are lost. \<^verbatim>\<open>HttpsTimers\<close>: the timers of a
    connection against the life of its coroutine.
  \<^item> \<^verbatim>\<open>Server\<close> (\<^verbatim>\<open>src/Server.cpp\<close>, \<^verbatim>\<open>initialize\<close> of \<^verbatim>\<open>src/HttpsServer.cpp\<close>, \<^verbatim>\<open>src/Engine.cpp\<close>): start-up and the plain
    server. \<^verbatim>\<open>Lifecycle\<close> (\<^verbatim>\<open>run\<close>, \<^verbatim>\<open>stop\<close> and \<^verbatim>\<open>accept_loop\<close> of the HTTPS, the plain and the WebSocket server): the
    threads as step relations; every interleaving of a stop ends in a bounded number of steps, unless the
    stop of the HTTPS server comes before \<^verbatim>\<open>run\<close> clears its flag; what an accept error does to each server.
  \<^item> \<^verbatim>\<open>Application\<close> (\<^verbatim>\<open>RouterRegisterer.hpp\<close>, \<^verbatim>\<open>initializeConnections\<close>, \<^verbatim>\<open>app/Main.cpp\<close>): the components composed, from a
    registered path to the bytes of the response on a connection. \<^verbatim>\<open>Service\<close>: a whole table of routes over the
    bytes of a connection; every request for one of them is answered, in order, by its handler.
  \<^item> \<^verbatim>\<open>Filesystem\<close> (\<^verbatim>\<open>src/Filesystem\<close>, \<^verbatim>\<open>src/Storage.cpp\<close>): drivers, registry and facade on a tree of files; the tree
    stays well formed and stored files survive. \<^verbatim>\<open>ConfigManager\<close> (\<^verbatim>\<open>src/ConfigManager.cpp\<close>): flattening and
    rebuilding of the configuration.
  \<^item> \<^verbatim>\<open>Sql\<close>, \<^verbatim>\<open>Database\<close>, \<^verbatim>\<open>Model\<close> (\<^verbatim>\<open>src/Database\<close>, \<^verbatim>\<open>include/brazier/Database\<close>): the text of statements, transactions
    and migrations on an abstract libpq session, models and collections. \<^verbatim>\<open>ModelTransactions\<close>: operations of models
    between \<^verbatim>\<open>transaction\<close> and \<^verbatim>\<open>commit\<close> refine statements on a session; when they are all or nothing, and how a
    failed one breaks the transaction. \<^verbatim>\<open>SharedDatabase\<close>: the one connection all models share; units of work are
    serial transactions one after the other, and mix when their calls interleave.
  \<^item> \<^verbatim>\<open>Redis\<close> (\<^verbatim>\<open>Cache.cpp\<close>, \<^verbatim>\<open>Queue.cpp\<close>), \<^verbatim>\<open>Crypto\<close> (\<^verbatim>\<open>src/Cryptography\<close>, \<^verbatim>\<open>src/Hash.cpp\<close>), \<^verbatim>\<open>WebSocket\<close> and
    \<^verbatim>\<open>WebSocketServer\<close> (\<^verbatim>\<open>src/WebSocket*.cpp\<close>), \<^verbatim>\<open>HttpClient\<close>, \<^verbatim>\<open>Smtp\<close>, \<^verbatim>\<open>Logger\<close>, \<^verbatim>\<open>Helpers\<close> (environment file, cookies,
    validators, codes, middlewares): one theory per source component. \<^verbatim>\<open>WebSocketService\<close>: connections and frames
    of all sessions in any order, each frame reaching the handler of its route, and the read loop cut into
    rounds, equivalent to the whole coroutine. \<^verbatim>\<open>WebSocketWrites\<close>: the coroutines that write to a session.

  \<^bold>\<open>How state and effects are modelled.\<close> A class is a record, a member function a function on it that returns
  the new record; a throw is the value \<open>Inl\<close> of a result; undefined behaviour is \<open>None\<close>. Integers have their
  width where overflow matters (limits, session identifiers, ports). Coroutines of one connection or
  session are functions of a script of what the network and the timers do, and wait where the script
  ends; code whose threads interact (accepting, stopping, statistics) is an inductive step relation with
  one step per atomic access, and properties are invariants of all reachable states.

  \<^bold>\<open>Parameters.\<close> Beast, OpenSSL, libpq, hiredis, nlohmann's text conversions, the operating system's answers,
  clocks and random numbers are records of functions. What a property needs of them is a named predicate
  (\<open>set_field_law\<close>, \<open>pg_laws\<close>, \<open>pg_session\<close>, \<open>redis_law\<close>, \<open>monotone_env\<close> and others) that states documented behaviour, and a
  concrete instance satisfies it in the witness.

  \<^bold>\<open>Bounds and termination.\<close> No definition uses fuel. Loops over the network end with their script; digit
  loops and reply readers have termination measures; the masking loop of \<^verbatim>\<open>SmtpClient::send\<close> may not end and is
  a partial function whose termination is characterised. The bound in \<^verbatim>\<open>Lifecycle\<close> is the measure of the
  state: at most 33 steps and one per worker.

  \<^bold>\<open>Locales.\<close> Machines with an invariant and their refinements (interpreted on the key store, the file
  driver and the WebSocket manager), routers with first-match lookup (on both routers), file stores (on
  the file driver), and relations whose runs end (on the threads of all three servers).

  \<^bold>\<open>Not modelled.\<close> Logging calls other than in \<^verbatim>\<open>Logger\<close>; memory wiping in destructors; \<^verbatim>\<open>Model::first\<close> and
  \<^verbatim>\<open>firstOrCreate\<close> and \<^verbatim>\<open>AuthMiddleware.hpp\<close>, which do not compile when used; the \<^verbatim>\<open>S3Driver\<close>, which is only
  declared; the variant of the ticket callback for OpenSSL before version 3, which differs in the type of
  the MAC only; memory orders weaker than sequential consistency; the tests.
\<close>

end
